(* ===== verification/Go_Prelude.thy ===== *)
theory Go_Prelude
  imports Main "HOL-Library.Word" "HOL-Library.Monad_Syntax"
begin

text \<open>
  The parts of the Go language and its standard library that every component uses: the
  fixed-width unsigned integers as words, slices with their spare capacity, the byte orders of
  \<open>encoding/binary\<close>, \<open>copy\<close>, 64-bit durations, and the two interface locales for codecs.

  A computation that can panic has type \<open>'a option\<close>: \<open>None\<close> is the panic, so the
  option monad sequences panicking operations the way Go's run time does.  An error that is
  returned is a value (\<open>fins_error + 'a\<close>, or a pair with an optional error).
\<close>

unbundle bit_operations_syntax

type_synonym u8 = "8 word"
type_synonym u16 = "16 word"
type_synonym u32 = "32 word"
type_synonym u64 = "64 word"

named_theorems go_slice \<open>rewriting of Go slice expressions\<close>
named_theorems go_len \<open>lengths of encoded byte strings\<close>

section \<open>Slices\<close>

text \<open>
  A slice is what it shows (\<open>elems\<close>, its length) and what its backing array holds behind it
  up to its capacity (\<open>spare\<close>).  Re-slicing is checked against the capacity, indexing against
  the length, as the language defines them.
\<close>

datatype 'a slice = Slice (elems: "'a list") (spare: "'a list")

definition sl_len :: "'a slice \<Rightarrow> nat" where
  "sl_len s = length (elems s)"

definition sl_cap :: "'a slice \<Rightarrow> nat" where
  "sl_cap s = length (elems s) + length (spare s)"

definition sl_make :: "'a list \<Rightarrow> 'a slice" where
  "sl_make xs = Slice xs []"

text \<open>\<open>s[lo:hi]\<close>: panics unless \<open>lo <= hi <= cap(s)\<close>.\<close>

definition sl_range :: "'a slice \<Rightarrow> nat \<Rightarrow> nat \<Rightarrow> 'a slice option" where
  "sl_range s lo hi =
     (if lo \<le> hi \<and> hi \<le> sl_cap s
      then Some (Slice (take (hi - lo) (drop lo (elems s @ spare s))) (drop hi (elems s @ spare s)))
      else None)"

text \<open>\<open>s[lo:]\<close> is \<open>s[lo:len(s)]\<close>.\<close>

definition sl_from :: "'a slice \<Rightarrow> nat \<Rightarrow> 'a slice option" where
  "sl_from s lo = sl_range s lo (sl_len s)"

text \<open>\<open>s[i]\<close>: panics unless \<open>i < len(s)\<close>.\<close>

definition sl_idx :: "'a slice \<Rightarrow> nat \<Rightarrow> 'a option" where
  "sl_idx s i = (if i < sl_len s then Some (elems s ! i) else None)"

lemma sl_make_simps [simp]:
  "elems (sl_make xs) = xs" "spare (sl_make xs) = []" "sl_len (sl_make xs) = length xs"
  "sl_cap (sl_make xs) = length xs"
  by (simp_all add: sl_make_def sl_len_def sl_cap_def)

lemma sl_range_inside [go_slice]:
  "lo \<le> hi \<Longrightarrow> hi \<le> length (elems s) \<Longrightarrow>
   sl_range s lo hi = Some (Slice (take (hi - lo) (drop lo (elems s))) (drop hi (elems s) @ spare s))"
  by (simp add: sl_range_def sl_cap_def)

lemma sl_range_None: "sl_range s lo hi = None \<longleftrightarrow> \<not> (lo \<le> hi \<and> hi \<le> sl_cap s)"
  by (simp add: sl_range_def)

lemma sl_from_inside [go_slice]:
  "lo \<le> length (elems s) \<Longrightarrow> sl_from s lo = Some (Slice (drop lo (elems s)) (spare s))"
  by (simp add: sl_from_def sl_len_def go_slice)

lemma sl_from_None: "sl_from s lo = None \<longleftrightarrow> length (elems s) < lo"
  by (auto simp: sl_from_def sl_range_None sl_len_def sl_cap_def)

lemma sl_idx_inside [go_slice]: "i < length (elems s) \<Longrightarrow> sl_idx s i = Some (elems s ! i)"
  by (simp add: sl_idx_def sl_len_def)

text \<open>The built-in \<open>copy(dst, src)\<close>: as many elements as both have.\<close>

definition go_copy :: "'a list \<Rightarrow> 'a list \<Rightarrow> 'a list" where
  "go_copy dst src = take (length dst) src @ drop (length src) dst"

lemma length_go_copy [simp]: "length (go_copy dst src) = length dst"
  by (simp add: go_copy_def)

lemma go_copy_full: "length src = length dst \<Longrightarrow> go_copy dst src = src"
  by (simp add: go_copy_def)

text \<open>\<open>copy(buf[lo:hi], src)\<close> writes through to the backing array \<open>buf\<close>.\<close>

definition copy_at :: "'a list \<Rightarrow> nat \<Rightarrow> nat \<Rightarrow> 'a list \<Rightarrow> 'a list" where
  "copy_at buf lo hi src =
     take lo buf @ go_copy (take (hi - lo) (drop lo buf)) src @ drop hi buf"

lemma length_copy_at [simp]:
  "lo \<le> hi \<Longrightarrow> hi \<le> length buf \<Longrightarrow> length (copy_at buf lo hi src) = length buf"
  by (simp add: copy_at_def)

lemma copy_at_nth:
  assumes "lo \<le> hi" "hi \<le> length buf" "i < length buf"
  shows "copy_at buf lo hi src ! i =
    (if lo \<le> i \<and> i < hi \<and> i - lo < length src then src ! (i - lo) else buf ! i)"
proof -
  let ?mid = "go_copy (take (hi - lo) (drop lo buf)) src"
  have mid: "length ?mid = hi - lo" using assms by simp
  consider "i < lo" | "lo \<le> i" "i < hi" | "hi \<le> i" by linarith
  then show ?thesis
  proof cases
    case 1
    then show ?thesis using assms by (simp add: copy_at_def nth_append)
  next
    case 2
    have k: "i - lo < hi - lo" using 2 by linarith
    then have "copy_at buf lo hi src ! i = ?mid ! (i - lo)"
      using 2 assms mid by (simp add: copy_at_def nth_append)
    moreover note k
    ultimately show ?thesis using 2 assms by (auto simp: go_copy_def nth_append)
  next
    case 3
    have k: "\<not> i - lo < hi - lo" using 3 by linarith
    from 3 k show ?thesis using assms mid by (simp add: copy_at_def nth_append)
  qed
qed

lemma copy_at_read_back:
  "lo \<le> hi \<Longrightarrow> hi \<le> length buf \<Longrightarrow> length src = hi - lo \<Longrightarrow>
   take (hi - lo) (drop lo (copy_at buf lo hi src)) = src"
  by (rule nth_equalityI) (auto simp: copy_at_nth less_diff_conv)

lemma copy_at_frame:
  assumes "lo \<le> hi" "hi \<le> length buf" "lo' + n \<le> length buf" "lo' + n \<le> lo \<or> hi \<le> lo'"
  shows "take n (drop lo' (copy_at buf lo hi src)) = take n (drop lo' buf)"
  by (rule nth_equalityI) (use assms in \<open>auto simp: copy_at_nth\<close>)

section \<open>Integers\<close>

text \<open>Unsigned words as naturals where the arithmetic does not wrap.\<close>

lemma unat_add_nowrap:
  "unat (a :: 'n::len word) + unat b < 2 ^ LENGTH('n) \<Longrightarrow> unat (a + b) = unat a + unat b"
  by (simp add: unat_word_ariths)

lemma unat_mult_nowrap:
  "unat (a :: 'n::len word) * unat b < 2 ^ LENGTH('n) \<Longrightarrow> unat (a * b) = unat a * unat b"
  by (simp add: unat_word_ariths)

lemma u8_bound: "unat (a :: u8) < 256"
  using unsigned_less [of a] by simp

lemma u16_bound: "unat (a :: u16) < 65536"
  using unsigned_less [of a] by simp

lemma u64_bound: "unat (a :: u64) < 18446744073709551616"
  using unsigned_less [of a] by simp

lemma unat_of_nat_small: "n < 2 ^ LENGTH('n) \<Longrightarrow> unat (of_nat n :: 'n::len word) = n"
  by (simp add: unat_of_nat)

text \<open>\<open>time.Duration\<close> is an \<open>int64\<close>: arithmetic wraps in two's complement.\<close>

definition wrap64 :: "int \<Rightarrow> int" where
  "wrap64 = signed_take_bit 63"

lemma wrap64_id: "- (2 ^ 63) \<le> d \<Longrightarrow> d < 2 ^ 63 \<Longrightarrow> wrap64 d = d"
  by (simp add: wrap64_def signed_take_bit_int_eq_self)

text \<open>Go's integer division and remainder truncate towards zero.\<close>

definition go_div :: "int \<Rightarrow> int \<Rightarrow> int" where
  "go_div a b = sgn a * sgn b * (\<bar>a\<bar> div \<bar>b\<bar>)"

definition go_mod :: "int \<Rightarrow> int \<Rightarrow> int" where
  "go_mod a b = a - b * go_div a b"

lemma go_div_nonneg: "0 \<le> a \<Longrightarrow> 0 < b \<Longrightarrow> go_div a b = a div b"
  by (cases "a = 0") (simp_all add: go_div_def)

lemma go_mod_nonneg: "0 \<le> a \<Longrightarrow> 0 < b \<Longrightarrow> go_mod a b = a mod b"
  by (simp add: go_mod_def go_div_nonneg minus_mult_div_eq_mod)

section \<open>Byte orders\<close>

text \<open>\<open>binary.BigEndian\<close> and \<open>binary.LittleEndian\<close> on 16 and 32 bits.\<close>

definition be_put16 :: "u16 \<Rightarrow> u8 list" where
  "be_put16 v = [ucast (drop_bit 8 v), ucast v]"

definition be_get16 :: "u8 \<Rightarrow> u8 \<Rightarrow> u16" where
  "be_get16 b0 b1 = ucast b1 OR push_bit 8 (ucast b0)"

definition le_put16 :: "u16 \<Rightarrow> u8 list" where
  "le_put16 v = [ucast v, ucast (drop_bit 8 v)]"

definition le_get16 :: "u8 \<Rightarrow> u8 \<Rightarrow> u16" where
  "le_get16 b0 b1 = ucast b0 OR push_bit 8 (ucast b1)"

definition be_put32 :: "u32 \<Rightarrow> u8 list" where
  "be_put32 v = [ucast (drop_bit 24 v), ucast (drop_bit 16 v), ucast (drop_bit 8 v), ucast v]"

definition be_get32 :: "u8 \<Rightarrow> u8 \<Rightarrow> u8 \<Rightarrow> u8 \<Rightarrow> u32" where
  "be_get32 b0 b1 b2 b3 =
     ucast b3 OR push_bit 8 (ucast b2) OR push_bit 16 (ucast b1) OR push_bit 24 (ucast b0)"

lemma be_get_put16 [simp]: "be_get16 (ucast (drop_bit 8 v)) (ucast v) = v"
  unfolding be_get16_def by (rule bit_word_eqI) (auto simp: bit_simps)

lemma le_get_put16 [simp]: "le_get16 (ucast v) (ucast (drop_bit 8 v)) = v"
  unfolding le_get16_def by (rule bit_word_eqI) (auto simp: bit_simps)

lemma be_put_get16 [simp]:
  "ucast (drop_bit 8 (be_get16 a b)) = a" "ucast (be_get16 a b) = b"
  unfolding be_get16_def by (rule bit_word_eqI, auto simp: bit_simps dest: bit_imp_le_length)+

lemma be_get_put32 [simp]:
  "be_get32 (ucast (drop_bit 24 v)) (ucast (drop_bit 16 v)) (ucast (drop_bit 8 v)) (ucast v) = v"
  unfolding be_get32_def
proof (rule bit_word_eqI)
  fix n assume "n < LENGTH(32)"
  consider "n < 8" | "8 \<le> n" "n < 16" | "16 \<le> n" "n < 24" | "24 \<le> n" by linarith
  then show "bit (ucast (ucast v :: u8) OR push_bit 8 (ucast (ucast (drop_bit 8 v) :: u8)) OR
      push_bit 16 (ucast (ucast (drop_bit 16 v) :: u8)) OR
      push_bit 24 (ucast (ucast (drop_bit 24 v) :: u8)) :: u32) n = bit v n"
    using \<open>n < LENGTH(32)\<close> by cases (auto simp: bit_simps)
qed

lemma length_puts [simp, go_len]:
  "length (be_put16 v) = 2" "length (le_put16 v) = 2" "length (be_put32 w) = 4"
  by (simp_all add: be_put16_def le_put16_def be_put32_def)

text \<open>\<open>order.Uint16(s)\<close> needs two elements (it indexes \<open>b[1]\<close> first).\<close>

definition get16_at :: "(u8 \<Rightarrow> u8 \<Rightarrow> u16) \<Rightarrow> u8 slice \<Rightarrow> u16 option" where
  "get16_at get s = do { b1 \<leftarrow> sl_idx s 1; b0 \<leftarrow> sl_idx s 0; Some (get b0 b1) }"

definition get32_at :: "u8 slice \<Rightarrow> u32 option" where
  "get32_at s = do { b3 \<leftarrow> sl_idx s 3; b2 \<leftarrow> sl_idx s 2; b1 \<leftarrow> sl_idx s 1; b0 \<leftarrow> sl_idx s 0;
     Some (be_get32 b0 b1 b2 b3) }"

lemma get16_at_two [go_slice]: "get16_at get (Slice [a, b] r) = Some (get a b)"
  by (simp add: get16_at_def sl_idx_def sl_len_def)

lemma get32_at_four [go_slice]: "get32_at (Slice [a, b, c, d] r) = Some (be_get32 a b c d)"
  by (simp add: get32_at_def sl_idx_def sl_len_def)

end
