(* ===== verification/Go_Codec.thy ===== *)
theory Go_Codec
  imports Go_Prelude
begin

text \<open>
  The two encoding interfaces of the program.  \<open>byte_codec\<close> is what a sender and a receiver
  of a byte format promise each other, \<open>fixed_codec\<close> adds a fixed width, so that encodings can
  be laid side by side.  \<open>byte_order\<close> is the part of Go's interface \<open>binary.ByteOrder\<close> the
  clients call; the word loops of the clients are verified against that interface and then
  interpreted for the two orders of the standard library.
\<close>

section \<open>Codecs\<close>

locale byte_codec =
  fixes enc :: "'a \<Rightarrow> u8 list"
    and dec :: "u8 slice \<Rightarrow> 'a option"
    and wf :: "'a \<Rightarrow> bool"
  assumes dec_enc: "wf x \<Longrightarrow> dec (Slice (enc x) r) = Some x"
begin

lemma enc_inj: "wf x \<Longrightarrow> wf y \<Longrightarrow> enc x = enc y \<Longrightarrow> x = y"
  by (metis dec_enc option.inject)

lemma enc_inj_on: "inj_on enc {x. wf x}"
  by (auto intro!: inj_onI dest: enc_inj)

end

locale fixed_codec = byte_codec enc dec wf
  for enc :: "'a \<Rightarrow> u8 list" and dec wf +
  fixes width :: nat
  assumes enc_len: "wf x \<Longrightarrow> length (enc x) = width"
begin

lemma enc_append_inj:
  assumes "wf x" "wf y" "enc x @ xs = enc y @ ys"
  shows "x = y \<and> xs = ys"
proof -
  have "length (enc x) = length (enc y)" using assms by (simp add: enc_len)
  with assms have "enc x = enc y" "xs = ys" by simp_all
  with assms enc_inj show ?thesis by blast
qed

lemma enc_concat_inj:
  assumes "0 < width" "list_all wf xs" "list_all wf ys"
    and "concat (map enc xs) = concat (map enc ys)"
  shows "xs = ys"
  using assms(2-)
proof (induction xs arbitrary: ys)
  case Nil
  then show ?case using assms(1) enc_len by (cases ys) auto
next
  case (Cons x xs)
  then obtain y ys' where ys: "ys = y # ys'"
    using assms(1) enc_len by (cases ys) auto
  with Cons.prems enc_append_inj [of x y] have "x = y" "concat (map enc xs) = concat (map enc ys')"
    by auto
  with Cons ys show ?case by simp
qed

end

section \<open>Byte orders as values\<close>

record byteOrder =
  bo_Uint16 :: "u8 \<Rightarrow> u8 \<Rightarrow> u16"
  bo_PutUint16 :: "u16 \<Rightarrow> u8 list"

definition BigEndian :: byteOrder where
  "BigEndian = \<lparr>bo_Uint16 = be_get16, bo_PutUint16 = be_put16\<rparr>"

definition LittleEndian :: byteOrder where
  "LittleEndian = \<lparr>bo_Uint16 = le_get16, bo_PutUint16 = le_put16\<rparr>"

lemma byte_order_simps [simp]:
  "bo_Uint16 BigEndian = be_get16" "bo_PutUint16 BigEndian = be_put16"
  "bo_Uint16 LittleEndian = le_get16" "bo_PutUint16 LittleEndian = le_put16"
  by (simp_all add: BigEndian_def LittleEndian_def)

text \<open>
  The loop \<open>for i := 0; i < l; i++ { order.PutUint16(bts[i*2:i*2+2], data[i]) }\<close> of the write
  operations; the second argument is the rest of \<open>data[:l]\<close>, the third is \<open>i\<close>.
\<close>

fun put_words :: "byteOrder \<Rightarrow> u16 list \<Rightarrow> nat \<Rightarrow> u8 list \<Rightarrow> u8 list" where
  "put_words bo [] i bts = bts"
| "put_words bo (w # ws) i bts =
     put_words bo ws (Suc i) (copy_at bts (i * 2) (i * 2 + 2) (bo_PutUint16 bo w))"

text \<open>
  The loop \<open>for i := 0; i < n; i++ { data[i] = order.Uint16(raw[i*2:i*2+2]) }\<close> of the read
  operations; it panics at the first slice expression out of the capacity.
\<close>

definition get_words :: "byteOrder \<Rightarrow> u8 slice \<Rightarrow> nat \<Rightarrow> u16 list option" where
  "get_words bo raw n =
     those (map (\<lambda>i. do { s \<leftarrow> sl_range raw (i * 2) (i * 2 + 2); get16_at (bo_Uint16 bo) s }) [0..<n])"

lemma those_map_Some: "(\<And>x. x \<in> set xs \<Longrightarrow> f x = Some (g x)) \<Longrightarrow> those (map f xs) = Some (map g xs)"
  by (induction xs) auto

lemma those_Some_nth: "those xs = Some ys \<Longrightarrow> length ys = length xs \<and> (\<forall>i < length xs. xs ! i = Some (ys ! i))"
proof (induction xs arbitrary: ys)
  case (Cons x xs)
  then obtain y zs where "x = Some y" "those xs = Some zs" "ys = y # zs"
    by (auto split: option.splits)
  with Cons.IH [of zs] show ?case by (auto simp: nth_Cons split: nat.splits)
qed simp

lemma those_None: "those xs = None \<longleftrightarrow> None \<in> set xs"
  by (induction xs) (auto split: option.splits)

section \<open>What the clients need of a byte order\<close>

locale byte_order =
  fixes bo :: byteOrder
  assumes put_len: "length (bo_PutUint16 bo v) = 2"
    and get_put: "bo_Uint16 bo (bo_PutUint16 bo v ! 0) (bo_PutUint16 bo v ! 1) = v"
begin

lemma put_two: "\<exists>a b. bo_PutUint16 bo v = [a, b] \<and> bo_Uint16 bo a b = v"
  using put_len [of v] get_put [of v] by (cases "bo_PutUint16 bo v") (auto simp: length_Suc_conv)

lemma put_words_concat:
  "length bts = 2 * i + 2 * length ws \<Longrightarrow>
   put_words bo ws i bts = take (2 * i) bts @ concat (map (bo_PutUint16 bo) ws)"
proof (induction ws arbitrary: i bts)
  case (Cons w ws)
  let ?b = "copy_at bts (i * 2) (i * 2 + 2) (bo_PutUint16 bo w)"
  have len: "length ?b = 2 * Suc i + 2 * length ws"
    using Cons.prems by simp
  have "take (2 * Suc i) ?b = take (2 * i) bts @ bo_PutUint16 bo w"
    using Cons.prems put_len [of w]
    by (simp add: copy_at_def go_copy_full mult.commute min_def)
  with Cons.IH [OF len] show ?case by simp
qed simp

lemma put_words_make:
  "put_words bo ws 0 (replicate (2 * length ws) 0) = concat (map (bo_PutUint16 bo) ws)"
  by (simp add: put_words_concat)

lemma length_concat_put: "length (concat (map (bo_PutUint16 bo) ws)) = 2 * length ws"
  by (induction ws) (simp_all add: put_len)

lemma concat_put_nth:
  "i < length ws \<Longrightarrow>
   take 2 (drop (i * 2) (concat (map (bo_PutUint16 bo) ws))) = bo_PutUint16 bo (ws ! i)"
proof (induction ws arbitrary: i)
  case (Cons w ws)
  then show ?case by (cases i) (auto simp: put_len)
qed simp

text \<open>Reading words back from the bytes that the writing loop produced.\<close>

lemma get_words_put_words:
  "get_words bo (Slice (concat (map (bo_PutUint16 bo) ws) @ xs) r) (length ws) = Some ws"
proof -
  let ?bs = "concat (map (bo_PutUint16 bo) ws)"
  have "sl_range (Slice (?bs @ xs) r) (i * 2) (i * 2 + 2) \<bind> get16_at (bo_Uint16 bo) = Some (ws ! i)"
    if "i < length ws" for i
  proof -
    obtain a b where ab: "bo_PutUint16 bo (ws ! i) = [a, b]" "bo_Uint16 bo a b = ws ! i"
      using put_two by blast
    have "i * 2 + 2 \<le> length ?bs" using that by (simp add: length_concat_put)
    moreover from this have "take 2 (drop (i * 2) (?bs @ xs)) = [a, b]"
      using concat_put_nth [OF that] ab by simp
    ultimately show ?thesis using ab by (simp add: go_slice)
  qed
  then have "get_words bo (Slice (?bs @ xs) r) (length ws) = Some (map ((!) ws) [0..<length ws])"
    unfolding get_words_def by (intro those_map_Some) auto
  then show ?thesis by (simp add: map_nth)
qed

end

interpretation be: byte_order BigEndian
  by unfold_locales (simp_all add: be_put16_def)

interpretation le: byte_order LittleEndian
  by unfold_locales (simp_all add: le_put16_def)

lemma get_words_total:
  assumes "2 * n \<le> length (elems raw) + length (spare raw)"
  shows "\<exists>ws. get_words bo raw n = Some ws \<and> length ws = n"
proof -
  have ok: "\<exists>w. sl_range raw (i * 2) (i * 2 + 2) \<bind> get16_at (bo_Uint16 bo) = Some w" if "i < n" for i
  proof -
    have le: "i * 2 + 2 \<le> length (elems raw @ spare raw)" using that assms by simp
    then obtain a b where "take 2 (drop (i * 2) (elems raw @ spare raw)) = [a, b]"
      by (metis (no_types, lifting) Cons_nth_drop_Suc Suc_le_lessD add_2_eq_Suc' less_imp_le_nat
          less_Suc_eq_le Suc_lessD numeral_2_eq_2 take0 take_Suc_Cons not_less_eq_eq)
    with le show ?thesis by (simp add: sl_range_def sl_cap_def go_slice)
  qed
  then have "those (map (\<lambda>i. sl_range raw (i * 2) (i * 2 + 2) \<bind> get16_at (bo_Uint16 bo)) [0..<n]) \<noteq> None"
    by (auto simp: those_None dest!: ok)
  then obtain ws where "get_words bo raw n = Some ws" unfolding get_words_def by blast
  moreover from this have "length ws = n" unfolding get_words_def by (auto dest: those_Some_nth)
  ultimately show ?thesis by blast
qed

end
