(* ===== verification/Fins_Const.thy ===== *)
theory Fins_Const
  imports Go_Prelude
begin

text \<open>
  The constants of \<open>memory_area.go\<close>, \<open>command_code.go\<close> and \<open>end_code.go\<close>, and the error
  values of \<open>error.go\<close>.  Constants the code branches on are abbreviations; the complete tables
  are association lists, so that facts about a whole table are facts about its values.
\<close>

section \<open>Memory areas\<close>

abbreviation MemoryAreaCIOBit :: u8 where "MemoryAreaCIOBit \<equiv> 0x30"
abbreviation MemoryAreaWRBit :: u8 where "MemoryAreaWRBit \<equiv> 0x31"
abbreviation MemoryAreaHRBit :: u8 where "MemoryAreaHRBit \<equiv> 0x32"
abbreviation MemoryAreaARBit :: u8 where "MemoryAreaARBit \<equiv> 0x33"
abbreviation MemoryAreaCIOWord :: u8 where "MemoryAreaCIOWord \<equiv> 0xb0"
abbreviation MemoryAreaWRWord :: u8 where "MemoryAreaWRWord \<equiv> 0xb1"
abbreviation MemoryAreaHRWord :: u8 where "MemoryAreaHRWord \<equiv> 0xb2"
abbreviation MemoryAreaARWord :: u8 where "MemoryAreaARWord \<equiv> 0xb3"
abbreviation MemoryAreaDMBit :: u8 where "MemoryAreaDMBit \<equiv> 0x02"
abbreviation MemoryAreaDMWord :: u8 where "MemoryAreaDMWord \<equiv> 0x82"

definition memory_areas :: "(string \<times> u8) list" where
  "memory_areas =
    [(''MemoryAreaCIOBit'', MemoryAreaCIOBit), (''MemoryAreaWRBit'', MemoryAreaWRBit),
     (''MemoryAreaHRBit'', MemoryAreaHRBit), (''MemoryAreaARBit'', MemoryAreaARBit),
     (''MemoryAreaCIOWord'', MemoryAreaCIOWord), (''MemoryAreaWRWord'', MemoryAreaWRWord),
     (''MemoryAreaHRWord'', MemoryAreaHRWord), (''MemoryAreaARWord'', MemoryAreaARWord),
     (''MemoryAreaTimerCounterCompletionFlag'', 0x09), (''MemoryAreaTimerCounterPV'', 0x89),
     (''MemoryAreaDMBit'', MemoryAreaDMBit), (''MemoryAreaDMWord'', MemoryAreaDMWord),
     (''MemoryAreaTaskBit'', 0x06), (''MemoryAreaTaskStatus'', 0x46),
     (''MemoryAreaIndexRegisterPV'', 0xdc), (''MemoryAreaDataRegisterPV'', 0xbc),
     (''MemoryAreaClockPulsesConditionFlagsBit'', 0x07)]"

section \<open>Command codes\<close>

abbreviation CommandCodeMemoryAreaRead :: u16 where "CommandCodeMemoryAreaRead \<equiv> 0x0101"
abbreviation CommandCodeMemoryAreaWrite :: u16 where "CommandCodeMemoryAreaWrite \<equiv> 0x0102"
abbreviation CommandCodeClockRead :: u16 where "CommandCodeClockRead \<equiv> 0x701"

definition command_codes :: "(string \<times> u16) list" where
  "command_codes =
    [(''CommandCodeMemoryAreaRead'', 0x0101), (''CommandCodeMemoryAreaWrite'', 0x0102),
     (''CommandCodeMemoryAreaFill'', 0x0103), (''CommandCodeMultipleMemoryAreaRead'', 0x0104),
     (''CommandCodeMemoryAreaTransfer'', 0x0105), (''CommandCodeParameterAreaRead'', 0x0201),
     (''CommandCodeParameterAreaWrite'', 0x0202), (''CommandCodeParameterAreaClear'', 0x0203),
     (''CommandCodeProgramAreaRead'', 0x0301), (''CommandCodeProgramAreaWrite'', 0x0302),
     (''CommandCodeProgramAreaClear'', 0x0303), (''CommandCodeRun'', 0x0401),
     (''CommandCodeStop'', 0x0402), (''CommandCodeCPUUnitDataRead'', 0x0501),
     (''CommandCodeConnectionDataRead'', 0x0502), (''CommandCodeCPUUnitStatusRead'', 0x0601),
     (''CommandCodeCycleTimeRead'', 0x0620), (''CommandCodeClockRead'', 0x701),
     (''CommandCodeClockWrite'', 0x702), (''CommandCodeMessageReadClear'', 0x0920),
     (''CommandCodeAccessRightAcquire'', 0x0c01),
     (''CommandCodeAccessRightForcedAcquire'', 0x0c02),
     (''CommandCodeAccessRightRelease'', 0x0c03), (''CommandCodeErrorClear'', 0x2101),
     (''CommandCodeErrorLogRead'', 0x2102), (''CommandCodeErrorLogClear'', 0x2103),
     (''CommandCodeFINSWriteAccessLogRead'', 0x2140),
     (''CommandCodeFINSWriteAccessLogWrite'', 0x2141), (''CommandCodeFileNameRead'', 0x2101),
     (''CommandCodeSingleFileRead'', 0x2102), (''CommandCodeSingleFileWrite'', 0x2103),
     (''CommandCodeFileMemoryFormat'', 0x2104), (''CommandCodeFileDelete'', 0x2105),
     (''CommandCodeFileCopy'', 0x2107), (''CommandCodeFileNameChange'', 0x2108),
     (''CommandCodeMemoryAreaFileTransfer'', 0x210a),
     (''CommandCodeParameterAreaFileTransfer'', 0x210b),
     (''CommandCodeProgramAreaFileTransfer'', 0x210b),
     (''CommandCodeDirectoryCreateDelete'', 0x2115),
     (''CommandCodeMemoryCassetteTransfer'', 0x2120), (''CommandCodeForcedSetReset'', 0x2301),
     (''CommandCodeForcedSetResetCancel'', 0x2302),
     (''CommandCodeConvertToCompoWayFCommand'', 0x2803),
     (''CommandCodeConvertToModbusRTUCommand'', 0x2804),
     (''CommandCodeConvertToModbusASCIICommand'', 0x2805)]"

section \<open>End codes\<close>

abbreviation EndCodeNormalCompletion :: u16 where "EndCodeNormalCompletion \<equiv> 0x0000"
abbreviation EndCodeNotSupportedByModelVersion :: u16 where "EndCodeNotSupportedByModelVersion \<equiv> 0x0402"
abbreviation EndCodeAddressRangeExceeded :: u16 where "EndCodeAddressRangeExceeded \<equiv> 0x1104"

text \<open>The table, in two halves: codes up to class 0x21, and from class 0x22 on.\<close>

definition end_codes_request :: "(string \<times> u16) list" where
  "end_codes_request =
    [(''EndCodeNormalCompletion'', 0x0000), (''EndCodeServiceInterrupted'', 0x0001),
     (''EndCodeLocalNodeNotInNetwork'', 0x0101), (''EndCodeTokenTimeout'', 0x0102),
     (''EndCodeRetriesFailed'', 0x0103), (''EndCodeTooManySendFrames'', 0x0104),
     (''EndCodeNodeAddressRangeError'', 0x0105),
     (''EndCodeNodeAddressRangeDuplication'', 0x0106),
     (''EndCodeDestinationNodeNotInNetwork'', 0x0201), (''EndCodeUnitMissing'', 0x0202),
     (''EndCodeThirdNodeMissing'', 0x0203), (''EndCodeDestinationNodeBusy'', 0x0204),
     (''EndCodeResponseTimeout'', 0x0205), (''EndCodeCommunicationsControllerError'', 0x0301),
     (''EndCodeCPUUnitError'', 0x0302), (''EndCodeControllerError'', 0x0303),
     (''EndCodeUnitNumberError'', 0x0304), (''EndCodeUndefinedCommand'', 0x0401),
     (''EndCodeNotSupportedByModelVersion'', 0x0402),
     (''EndCodeDestinationAddressSettingError'', 0x0501), (''EndCodeNoRoutingTables'', 0x0502),
     (''EndCodeRoutingTableError'', 0x0503), (''EndCodeTooManyRelays'', 0x0504),
     (''EndCodeCommandTooLong'', 0x1001), (''EndCodeCommandTooShort'', 0x1002),
     (''EndCodeElementsDataDontMatch'', 0x1003), (''EndCodeCommandFormatError'', 0x1004),
     (''EndCodeHeaderError'', 0x1005), (''EndCodeAreaClassificationMissing'', 0x1101),
     (''EndCodeAccessSizeError'', 0x1102), (''EndCodeAddressRangeError'', 0x1103),
     (''EndCodeAddressRangeExceeded'', 0x1104), (''EndCodeProgramMissing'', 0x1106),
     (''EndCodeRelationalError'', 0x1109), (''EndCodeDuplicateDataAccess'', 0x110a),
     (''EndCodeResponseTooBig'', 0x110b), (''EndCodeParameterError'', 0x110c),
     (''EndCodeReadNotPossibleProtected'', 0x2002),
     (''EndCodeReadNotPossibleTableMissing'', 0x2003),
     (''EndCodeReadNotPossibleDataMissing'', 0x2004),
     (''EndCodeReadNotPossibleProgramMissing'', 0x2005),
     (''EndCodeReadNotPossibleFileMissing'', 0x2006),
     (''EndCodeReadNotPossibleDataMismatch'', 0x2007),
     (''EndCodeWriteNotPossibleReadOnly'', 0x2101),
     (''EndCodeWriteNotPossibleProtected'', 0x2102),
     (''EndCodeWriteNotPossibleCannotRegister'', 0x2103),
     (''EndCodeWriteNotPossibleProgramMissing'', 0x2105),
     (''EndCodeWriteNotPossibleFileMissing'', 0x2106),
     (''EndCodeWriteNotPossibleFileNameAlreadyExists'', 0x2107),
     (''EndCodeWriteNotPossibleCannotChange'', 0x2108)]"

definition end_codes_unit :: "(string \<times> u16) list" where
  "end_codes_unit =
    [(''EndCodeNotExecutableInCurrentModeNotPossibleDuringExecution'', 0x2201),
     (''EndCodeNotExecutableInCurrentModeNotPossibleWhileRunning'', 0x2202),
     (''EndCodeNotExecutableInCurrentModeWrongPLCModeInProgram'', 0x2203),
     (''EndCodeNotExecutableInCurrentModeWrongPLCModeInDebug'', 0x2204),
     (''EndCodeNotExecutableInCurrentModeWrongPLCModeInMonitor'', 0x2205),
     (''EndCodeNotExecutableInCurrentModeWrongPLCModeInRun'', 0x2206),
     (''EndCodeNotExecutableInCurrentModeSpecifiedNodeNotPollingNode'', 0x2207),
     (''EndCodeNotExecutableInCurrentModeStepCannotBeExecuted'', 0x2208),
     (''EndCodeNoSuchDeviceFileDeviceMissing'', 0x2301),
     (''EndCodeNoSuchDeviceMemoryMissing'', 0x2302),
     (''EndCodeNoSuchDeviceClockMissing'', 0x2303),
     (''EndCodeCannotStartStopTableMissing'', 0x2401),
     (''EndCodeUnitErrorMemoryError'', 0x2502), (''EndCodeUnitErrorIOError'', 0x2503),
     (''EndCodeUnitErrorTooManyIOPoints'', 0x2504), (''EndCodeUnitErrorCPUBusError'', 0x2505),
     (''EndCodeUnitErrorIODuplication'', 0x2506), (''EndCodeUnitErrorIOBusError'', 0x2507),
     (''EndCodeUnitErrorSYSMACBUS2Error'', 0x2509),
     (''EndCodeUnitErrorCPUBusUnitError'', 0x250a),
     (''EndCodeUnitErrorSYSMACBusNumberDuplication'', 0x250d),
     (''EndCodeUnitErrorMemoryStatusError'', 0x250f),
     (''EndCodeUnitErrorSYSMACBusTerminatorMissing'', 0x2510),
     (''EndCodeCommandErrorNoProtection'', 0x2601),
     (''EndCodeCommandErrorIncorrectPassword'', 0x2602),
     (''EndCodeCommandErrorProtected'', 0x2604),
     (''EndCodeCommandErrorServiceAlreadyExecuting'', 0x2605),
     (''EndCodeCommandErrorServiceStopped'', 0x2606),
     (''EndCodeCommandErrorNoExecutionRight'', 0x2607),
     (''EndCodeCommandErrorSettingsNotComplete'', 0x2608),
     (''EndCodeCommandErrorNecessaryItemsNotSet'', 0x2609),
     (''EndCodeCommandErrorNumberAlreadyDefined'', 0x260a),
     (''EndCodeCommandErrorErrorWillNotClear'', 0x260b),
     (''EndCodeAccessWriteErrorNoAccessRight'', 0x3001),
     (''EndCodeAbortServiceAborted'', 0x4001)]"

definition end_codes :: "(string \<times> u16) list" where
  "end_codes = end_codes_request @ end_codes_unit"

text \<open>The three constants the simulator answers with are the table's entries.\<close>

lemma end_codes_used:
  "map_of end_codes ''EndCodeNormalCompletion'' = Some EndCodeNormalCompletion"
  "map_of end_codes ''EndCodeNotSupportedByModelVersion'' = Some EndCodeNotSupportedByModelVersion"
  "map_of end_codes ''EndCodeAddressRangeExceeded'' = Some EndCodeAddressRangeExceeded"
  by (simp_all add: end_codes_def end_codes_request_def)

section \<open>Errors\<close>

text \<open>
  The error values of the package.  The first six constructors are the types of \<open>error.go\<close>
  (durations as \<open>int\<close>); \<open>CtxError\<close> is \<open>context.Canceled\<close> or
  \<open>context.DeadlineExceeded\<close>, \<open>IOError\<close> an error of the operating system or the
  \<open>io\<close> package, and \<open>Errorf\<close> a \<open>fmt.Errorf\<close> with its format, its operands and the error
  wrapped by its last verb (\<open>None\<close> where there is none or it is \<open>nil\<close>).
\<close>

datatype ctx_error = Canceled | DeadlineExceeded

datatype io_error = EOF | UnexpectedEOF | Timeout | OSError string

datatype fmt_arg = AInt int | AStr string | ABytes "u8 list"

datatype fins_error =
    ResponseTimeoutError int
  | IncompatibleMemoryAreaError u8
  | ClientClosedError
  | EndCodeError u16
  | BCDBadDigitError string u64
  | BCDOverflowError
  | CtxError ctx_error
  | IOError io_error
  | Errorf string "fmt_arg list" "fins_error option"

text \<open>The verbs \<open>%d\<close> and \<open>%X\<close> of the \<open>Error\<close> methods, on the values they are given.\<close>

fun digits_of :: "nat \<Rightarrow> nat \<Rightarrow> nat \<Rightarrow> nat list" where
  "digits_of base 0 n = []"
| "digits_of base (Suc fuel) n =
     (if n < base then [n] else digits_of base fuel (n div base) @ [n mod base])"

definition digit_char :: "nat \<Rightarrow> char" where
  "digit_char d = char_of (if d < 10 then 48 + d else 55 + d)"

text \<open>Twenty decimal digits and sixteen hexadecimal ones hold every 64-bit value.\<close>

definition verb_d :: "int \<Rightarrow> string" where
  "verb_d i = (if i < 0 then ''-'' else '''') @ map digit_char (digits_of 10 20 (nat \<bar>i\<bar>))"

definition verb_X :: "nat \<Rightarrow> string" where
  "verb_X n = map digit_char (digits_of 16 16 n)"

text \<open>
  The \<open>Error\<close> methods of \<open>error.go\<close>; the texts of the other errors come from other packages
  or from the formats of \<open>fmt.Errorf\<close>, and are not modelled.
\<close>

fun Error_text :: "fins_error \<Rightarrow> string option" where
  "Error_text (ResponseTimeoutError d) =
     Some (''Response timeout of '' @ verb_d d @ '' has been reached'')"
| "Error_text (IncompatibleMemoryAreaError a) =
     Some (''The memory area is incompatible with the data type to be read: 0x'' @ verb_X (unat a))"
| "Error_text ClientClosedError = Some ''Client is closed''"
| "Error_text (EndCodeError c) = Some (''destination returned end code 0x'' @ verb_X (unat c))"
| "Error_text (BCDBadDigitError v x) =
     Some (''Bad digit in BCD decoding: '' @ v @ '' = '' @ verb_d (uint x))"
| "Error_text BCDOverflowError = Some ''Overflow occurred in BCD decoding''"
| "Error_text _ = None"

lemma digits_of_value:
  assumes "2 \<le> base" "n < base ^ fuel"
  shows "foldl (\<lambda>a d. a * base + d) 0 (digits_of base fuel n) = n"
  using assms(2)
proof (induction fuel arbitrary: n)
  case (Suc fuel)
  have "n div base < base ^ fuel"
    using Suc.prems assms(1) by (simp add: less_mult_imp_div_less mult.commute)
  with Suc.IH show ?case using assms(1) by simp
qed simp

section \<open>Properties\<close>

lemma end_codes_ascending: "successively (<) (map snd end_codes)"
  by (simp add: end_codes_def end_codes_request_def end_codes_unit_def)

text \<open>
  End codes are unambiguous and command codes are not.  No two end codes have the same value,
  so the code in an \<open>EndCodeError\<close> tells the condition; but four file commands have the value of
  another command.
\<close>

lemma code_tables:
  "distinct (map snd end_codes) \<and>
   map_of command_codes ''CommandCodeFileNameRead'' = map_of command_codes ''CommandCodeErrorClear'' \<and>
   map_of command_codes ''CommandCodeSingleFileRead'' = map_of command_codes ''CommandCodeErrorLogRead'' \<and>
   map_of command_codes ''CommandCodeSingleFileWrite'' = map_of command_codes ''CommandCodeErrorLogClear'' \<and>
   map_of command_codes ''CommandCodeProgramAreaFileTransfer'' =
     map_of command_codes ''CommandCodeParameterAreaFileTransfer''"
proof (intro conjI)
  have "sorted_wrt (<) (map snd end_codes)"
    using end_codes_ascending by (subst successively_conv_sorted_wrt [symmetric]) (auto intro!: transpI)
  then show "distinct (map snd end_codes)" by (simp add: strict_sorted_iff)
qed (simp_all add: command_codes_def)

end
