(* ===== verification/Fins_Driver.thy ===== *)
theory Fins_Driver
  imports Go_Codec Fins_Const
begin

text \<open>
  \<open>header.go\<close> and the frame part of \<open>driver.go\<close>: the header and its default constructors,
  memory addresses, commands, requests and responses, and their encoders and decoders.
  Decoders work on slices and panic where the slice expressions of the code do.
\<close>

section \<open>Data\<close>

record FinsAddress =
  Network :: u8
  Node :: u8
  Unit :: u8

record Header =
  messageType :: u8
  responseRequired :: bool
  src :: FinsAddress
  dst :: FinsAddress
  serviceID :: u8
  gatewayCount :: u8

abbreviation MessageTypeCommand :: u8 where "MessageTypeCommand \<equiv> 0"
abbreviation MessageTypeResponse :: u8 where "MessageTypeResponse \<equiv> 1"

definition defaultHeader :: "u8 \<Rightarrow> bool \<Rightarrow> FinsAddress \<Rightarrow> FinsAddress \<Rightarrow> u8 \<Rightarrow> Header" where
  "defaultHeader mt rr s d sid =
     \<lparr>messageType = mt, responseRequired = rr, src = s, dst = d, serviceID = sid, gatewayCount = 2\<rparr>"

definition defaultCommandHeader :: "FinsAddress \<Rightarrow> FinsAddress \<Rightarrow> u8 \<Rightarrow> Header" where
  "defaultCommandHeader s d sid = defaultHeader MessageTypeCommand True s d sid"

definition defaultResponseHeader :: "Header \<Rightarrow> Header" where
  "defaultResponseHeader ch =
     defaultHeader MessageTypeResponse False (dst ch) (src ch) (serviceID ch)"

record request =
  rq_header :: Header
  rq_commandCode :: u16
  rq_data :: "u8 slice"

record response =
  rs_header :: Header
  rs_commandCode :: u16
  rs_endCode :: u16
  rs_data :: "u8 slice"

record memoryAddress =
  memoryArea :: u8
  address :: u16
  bitOffset :: u8

definition memAddrWithBitOffset :: "u8 \<Rightarrow> u16 \<Rightarrow> u8 \<Rightarrow> memoryAddress" where
  "memAddrWithBitOffset area addr off = \<lparr>memoryArea = area, address = addr, bitOffset = off\<rparr>"

definition memAddr :: "u8 \<Rightarrow> u16 \<Rightarrow> memoryAddress" where
  "memAddr area addr = memAddrWithBitOffset area addr 0"

section \<open>Encoders\<close>

definition encodeMemoryAddress :: "memoryAddress \<Rightarrow> u8 list" where
  "encodeMemoryAddress a = [memoryArea a] @ be_put16 (address a) @ [bitOffset a]"

definition readCommand :: "memoryAddress \<Rightarrow> u16 \<Rightarrow> u8 list" where
  "readCommand a itemCount =
     be_put16 CommandCodeMemoryAreaRead @ encodeMemoryAddress a @ be_put16 itemCount"

definition writeCommand :: "memoryAddress \<Rightarrow> u16 \<Rightarrow> u8 list \<Rightarrow> u8 list" where
  "writeCommand a itemCount bytes =
     be_put16 CommandCodeMemoryAreaWrite @ encodeMemoryAddress a @ be_put16 itemCount @ bytes"

definition clockReadCommand :: "u8 list" where
  "clockReadCommand = be_put16 CommandCodeClockRead"

abbreviation icfBridgesBit :: nat where "icfBridgesBit \<equiv> 7"
abbreviation icfMessageTypeBit :: nat where "icfMessageTypeBit \<equiv> 6"
abbreviation icfResponseRequiredBit :: nat where "icfResponseRequiredBit \<equiv> 0"

definition encodeHeader :: "Header \<Rightarrow> u8 list" where
  "encodeHeader h =
     (let icf0 = push_bit icfBridgesBit 1 :: u8;
          icf1 = (if responseRequired h = False then icf0 OR push_bit icfResponseRequiredBit 1 else icf0);
          icf = (if messageType h = MessageTypeResponse then icf1 OR push_bit icfMessageTypeBit 1 else icf1)
      in [icf, 0, gatewayCount h,
          Network (dst h), Node (dst h), Unit (dst h),
          Network (src h), Node (src h), Unit (src h),
          serviceID h])"

definition encodeResponse :: "response \<Rightarrow> u8 list" where
  "encodeResponse r =
     encodeHeader (rs_header r) @ be_put16 (rs_commandCode r) @ be_put16 (rs_endCode r) @ elems (rs_data r)"

section \<open>Decoders\<close>

definition decodeMemoryAddress :: "u8 slice \<Rightarrow> memoryAddress option" where
  "decodeMemoryAddress data = do {
     area \<leftarrow> sl_idx data 0;
     addr \<leftarrow> sl_range data 1 3 \<bind> get16_at be_get16;
     off \<leftarrow> sl_idx data 3;
     Some \<lparr>memoryArea = area, address = addr, bitOffset = off\<rparr> }"

text \<open>
  In Go \<open>&\<close> and \<open><<\<close> have the same precedence and associate to the left:
  \<open>icf&1<<icfMessageTypeBit\<close> is \<open>(icf & 1) << 6\<close>.
\<close>

definition decodeHeader :: "u8 slice \<Rightarrow> Header option" where
  "decodeHeader bytes = do {
     icf \<leftarrow> sl_idx bytes 0;
     gw \<leftarrow> sl_idx bytes 2;
     d0 \<leftarrow> sl_idx bytes 3; d1 \<leftarrow> sl_idx bytes 4; d2 \<leftarrow> sl_idx bytes 5;
     s0 \<leftarrow> sl_idx bytes 6; s1 \<leftarrow> sl_idx bytes 7; s2 \<leftarrow> sl_idx bytes 8;
     sid \<leftarrow> sl_idx bytes 9;
     Some \<lparr>messageType = (if push_bit icfMessageTypeBit (icf AND 1) = 0
                          then MessageTypeCommand else MessageTypeResponse),
           responseRequired = (push_bit icfResponseRequiredBit (icf AND 1) = 0),
           src = \<lparr>Network = s0, Node = s1, Unit = s2\<rparr>,
           dst = \<lparr>Network = d0, Node = d1, Unit = d2\<rparr>,
           serviceID = sid, gatewayCount = gw\<rparr> }"

definition decodeRequest :: "u8 slice \<Rightarrow> request option" where
  "decodeRequest bytes = do {
     h \<leftarrow> sl_range bytes 0 10 \<bind> decodeHeader;
     cc \<leftarrow> sl_range bytes 10 12 \<bind> get16_at be_get16;
     d \<leftarrow> sl_from bytes 12;
     Some \<lparr>rq_header = h, rq_commandCode = cc, rq_data = d\<rparr> }"

definition decodeResponse :: "u8 slice \<Rightarrow> response option" where
  "decodeResponse bytes = do {
     h \<leftarrow> sl_range bytes 0 10 \<bind> decodeHeader;
     cc \<leftarrow> sl_range bytes 10 12 \<bind> get16_at be_get16;
     ec \<leftarrow> sl_range bytes 12 14 \<bind> get16_at be_get16;
     d \<leftarrow> sl_from bytes 14;
     Some \<lparr>rs_header = h, rs_commandCode = cc, rs_endCode = ec, rs_data = d\<rparr> }"

section \<open>Lengths\<close>

lemma encode_lengths [simp, go_len]:
  "length (encodeMemoryAddress a) = 4" "length (readCommand a n) = 8"
  "length (writeCommand a n bs) = 8 + length bs" "length clockReadCommand = 2"
  "length (encodeHeader h) = 10" "length (encodeResponse r) = 14 + length (elems (rs_data r))"
  by (simp_all add: encodeMemoryAddress_def readCommand_def writeCommand_def clockReadCommand_def
      encodeHeader_def encodeResponse_def Let_def)

lemma encodeHeader_nonempty [simp]: "encodeHeader h \<noteq> []"
  by (simp add: encodeHeader_def Let_def)

section \<open>Round trips\<close>

lemma decode_encode_memaddr:
  "decodeMemoryAddress (Slice (encodeMemoryAddress a @ xs) r) = Some a"
  by (simp add: decodeMemoryAddress_def encodeMemoryAddress_def be_put16_def sl_range_def sl_cap_def
      go_slice)

text \<open>
  What the decoder makes of an encoded header: everything is preserved but the message type,
  which it reads off the bit of \<open>responseRequired\<close>.
\<close>

lemma decode_encode_header_prefix:
  "decodeHeader (Slice (encodeHeader h @ xs) r) =
     Some (h\<lparr>messageType := if responseRequired h then MessageTypeCommand else MessageTypeResponse\<rparr>)"
proof -
  have mask: "(0x80 :: u8) AND 1 = 0" "(0x81 :: u8) AND 1 = 1" "(0xC0 :: u8) AND 1 = 0"
    "(0xC1 :: u8) AND 1 = 1" by simp_all
  show ?thesis
    by (cases "responseRequired h"; cases "messageType h = MessageTypeResponse")
       (simp_all add: decodeHeader_def encodeHeader_def Let_def go_slice mask)
qed

definition header_wf :: "Header \<Rightarrow> bool" where
  "header_wf h \<longleftrightarrow>
     messageType h = (if responseRequired h then MessageTypeCommand else MessageTypeResponse)"

lemma header_wf_defaults:
  "header_wf (defaultCommandHeader s d sid)" "header_wf (defaultResponseHeader h)"
  by (simp_all add: header_wf_def defaultCommandHeader_def defaultResponseHeader_def defaultHeader_def)

interpretation header_codec: fixed_codec encodeHeader decodeHeader header_wf 10
proof unfold_locales
  fix h r assume "header_wf h"
  then show "decodeHeader (Slice (encodeHeader h) r) = Some h"
    using decode_encode_header_prefix [of h "[]" r] by (simp add: header_wf_def)
qed simp

interpretation memaddr_codec: fixed_codec encodeMemoryAddress decodeMemoryAddress "\<lambda>_. True" 4
  by unfold_locales (simp_all add: decode_encode_memaddr [of _ "[]", simplified])

text \<open>A request frame, as \<open>sendCommand\<close> lays it out: a header and a command.\<close>

lemma decodeRequest_frame:
  "decodeRequest (Slice (encodeHeader h @ be_put16 cc @ ds) r) =
     Some \<lparr>rq_header = h\<lparr>messageType := if responseRequired h then MessageTypeCommand else MessageTypeResponse\<rparr>,
           rq_commandCode = cc, rq_data = Slice ds r\<rparr>"
  using decode_encode_header_prefix [of h "[]"]
  by (simp add: decodeRequest_def go_slice be_put16_def)

lemma decodeResponse_encode:
  "decodeResponse (Slice (encodeResponse rs) r) =
     Some (rs\<lparr>rs_header := (rs_header rs)\<lparr>messageType :=
                 if responseRequired (rs_header rs) then MessageTypeCommand else MessageTypeResponse\<rparr>,
              rs_data := Slice (elems (rs_data rs)) r\<rparr>)"
  using decode_encode_header_prefix [of "rs_header rs" "[]"]
  by (simp add: decodeResponse_def encodeResponse_def go_slice be_put16_def)

definition response_wf :: "response \<Rightarrow> bool" where
  "response_wf rs \<longleftrightarrow> header_wf (rs_header rs)"

definition response_view :: "response \<Rightarrow> Header \<times> u16 \<times> u16 \<times> u8 list" where
  "response_view rs = (rs_header rs, rs_commandCode rs, rs_endCode rs, elems (rs_data rs))"

lemma decodeResponse_None:
  "decodeResponse s = None" if "length (elems s) < 14"
  using that by (simp add: decodeResponse_def sl_from_None [THEN iffD2] split: Option.bind_splits)

lemma decodeRequest_None:
  "decodeRequest s = None" if "length (elems s) < 12"
  using that by (simp add: decodeRequest_def sl_from_None [THEN iffD2] split: Option.bind_splits)

section \<open>Properties\<close>

text \<open>
  C30: a header survives encoding and decoding exactly when its message type is the one its
  response bit suggests: the decoder takes the type from bit 0 of the ICF byte instead of bit 6, so
  a command without a response request comes back as a response.
\<close>

theorem header_round_trip_iff:
  "decodeHeader (Slice (encodeHeader h) sp) = Some h \<longleftrightarrow> header_wf h"
  using decode_encode_header_prefix [of h "[]" sp] by (cases h) (auto simp: header_wf_def)

lemma get16_at_range:
  "lo + 2 \<le> length (elems s) \<Longrightarrow> \<exists>v. sl_range s lo (lo + 2) \<bind> get16_at get = Some v"
proof -
  assume lo: "lo + 2 \<le> length (elems s)"
  then have "length (take 2 (drop lo (elems s))) = 2" by simp
  then obtain a b where "take 2 (drop lo (elems s)) = [a, b]"
    by (metis (no_types) length_0_conv length_Suc_conv numeral_2_eq_2)
  with lo show ?thesis by (simp add: go_slice)
qed

lemma decodeHeader_ten: "10 \<le> length (elems s) \<Longrightarrow> \<exists>h. sl_range s 0 10 \<bind> decodeHeader = Some h"
  by (simp add: go_slice decodeHeader_def)

text \<open>
  C31: a decoder panics exactly on frames that are too short: a request needs twelve bytes and a
  response fourteen, whatever the capacity of the buffer behind them.
\<close>

theorem decoders_panic_iff_short:
  "(decodeRequest s = None \<longleftrightarrow> length (elems s) < 12) \<and> (decodeResponse s = None \<longleftrightarrow> length (elems s) < 14)"
proof (intro conjI iffI)
  assume "decodeRequest s = None"
  then show "length (elems s) < 12"
    using decodeHeader_ten [of s] get16_at_range [of 10 s be_get16] sl_from_inside [of 12 s]
    by (fastforce simp: decodeRequest_def not_less split: Option.bind_splits)
next
  assume "decodeResponse s = None"
  then show "length (elems s) < 14"
    using decodeHeader_ten [of s] get16_at_range [of 10 s be_get16] get16_at_range [of 12 s be_get16]
      sl_from_inside [of 14 s]
    by (fastforce simp: decodeResponse_def not_less split: Option.bind_splits)
qed (simp_all add: decodeRequest_None decodeResponse_None)

text \<open>
  A response decoded from its encoding is the response itself, up to the buffer's capacity, when
  it has the header that \<open>defaultResponseHeader\<close> gives; the receiver sees source and destination
  of the request swapped.
\<close>

lemma response_round_trip:
  "map_option response_view (decodeResponse (Slice (encodeResponse
     \<lparr>rs_header = defaultResponseHeader h, rs_commandCode = cc, rs_endCode = ec, rs_data = d\<rparr>) sp)) =
   Some (\<lparr>messageType = MessageTypeResponse, responseRequired = False, src = dst h, dst = src h,
          serviceID = serviceID h, gatewayCount = 2\<rparr>, cc, ec, elems d)"
  by (simp add: decodeResponse_encode response_view_def defaultResponseHeader_def defaultHeader_def)

end
