(* ===== verification/Fins_Transport.thy ===== *)
theory Fins_Transport
  imports Go_Codec Fins_Const
begin

text \<open>
  The FINS/TCP framing of \<open>transport.go\<close> and the frame reader of \<open>server.go\<close>.  A connection's
  incoming side is the list of bytes still to arrive; when it runs out, the reader meets the
  error \<open>fin\<close> (end of file, a deadline, a reset connection).
\<close>

section \<open>Reading from a stream\<close>

text \<open>
  \<open>io.ReadFull(reader, buf)\<close> with \<open>len(buf) = n\<close>: all \<open>n\<close> bytes, or an error; an end of file
  in the middle becomes \<open>io.ErrUnexpectedEOF\<close>.
\<close>

definition ReadFull :: "io_error \<Rightarrow> nat \<Rightarrow> u8 list \<Rightarrow> fins_error + (u8 list \<times> u8 list)" where
  "ReadFull fin n stream =
     (if n \<le> length stream then Inr (take n stream, drop n stream)
      else if fin = EOF \<and> stream \<noteq> [] then Inl (IOError UnexpectedEOF)
      else Inl (IOError fin))"

section \<open>Frames\<close>

record finsTCPMessage =
  tm_command :: u32
  tm_errorCode :: u32
  tm_body :: "u8 slice"

definition finsTCPSignature :: "u8 list" where
  "finsTCPSignature = [0x46, 0x49, 0x4e, 0x53]"

abbreviation finsTCPDataCommand :: u32 where "finsTCPDataCommand \<equiv> 0x00000002"
abbreviation finsTCPHandshakeCommand :: u32 where "finsTCPHandshakeCommand \<equiv> 0x00000000"

definition finsTCPFrame :: "u32 \<Rightarrow> u8 list \<Rightarrow> u8 list" where
  "finsTCPFrame command body =
     finsTCPSignature @ be_put32 (of_nat (length body + 8)) @ be_put32 command @ be_put32 0 @ body"

text \<open>
  \<open>readTCPMessage\<close> of the server.  The reads of \<open>header[4:8]\<close>, \<open>body[0:4]\<close> and
  \<open>body[4:8]\<close> are inside buffers of at least 8 bytes, so they cannot panic; \<open>body[8:]\<close> has no
  spare capacity.
\<close>

definition readTCPMessage :: "io_error \<Rightarrow> u8 list \<Rightarrow> fins_error + (finsTCPMessage \<times> u8 list)" where
  "readTCPMessage fin stream =
     (case ReadFull fin 8 stream of
        Inl e \<Rightarrow> Inl e
      | Inr (header, stream1) \<Rightarrow>
          if take 4 header \<noteq> finsTCPSignature
          then Inl (Errorf ''invalid FINS/TCP signature: %q'' [ABytes (take 4 header)] None)
          else
            let len = be_get32 (header ! 4) (header ! 5) (header ! 6) (header ! 7) in
            if len < 8 then Inl (Errorf ''invalid FINS/TCP length: %d'' [AInt (uint len)] None)
            else case ReadFull fin (unat len) stream1 of
                Inl e \<Rightarrow> Inl e
              | Inr (body, stream2) \<Rightarrow>
                  Inr (\<lparr>tm_command = be_get32 (body ! 0) (body ! 1) (body ! 2) (body ! 3),
                        tm_errorCode = be_get32 (body ! 4) (body ! 5) (body ! 6) (body ! 7),
                        tm_body = sl_make (drop 8 body)\<rparr>, stream2))"

text \<open>
  The client's \<open>readFrame\<close>: the same parse, but a failed read reports the context's error when
  the context has one (\<open>ctxErr\<close> is \<open>ctx.Err()\<close> at that moment).
\<close>

definition readFrame ::
    "fins_error option \<Rightarrow> io_error \<Rightarrow> u8 list \<Rightarrow> fins_error + (finsTCPMessage \<times> u8 list)" where
  "readFrame ctxErr fin stream =
     (case ReadFull fin 8 stream of
        Inl e \<Rightarrow> Inl (case ctxErr of Some ce \<Rightarrow> ce | None \<Rightarrow> e)
      | Inr (header, stream1) \<Rightarrow>
          if take 4 header \<noteq> finsTCPSignature
          then Inl (Errorf ''invalid FINS/TCP signature: %q'' [ABytes (take 4 header)] None)
          else
            let len = be_get32 (header ! 4) (header ! 5) (header ! 6) (header ! 7) in
            if len < 8 then Inl (Errorf ''invalid FINS/TCP length: %d'' [AInt (uint len)] None)
            else case ReadFull fin (unat len) stream1 of
                Inl e \<Rightarrow> Inl (case ctxErr of Some ce \<Rightarrow> ce | None \<Rightarrow> e)
              | Inr (body, stream2) \<Rightarrow>
                  Inr (\<lparr>tm_command = be_get32 (body ! 0) (body ! 1) (body ! 2) (body ! 3),
                        tm_errorCode = be_get32 (body ! 4) (body ! 5) (body ! 6) (body ! 7),
                        tm_body = sl_make (drop 8 body)\<rparr>, stream2))"

text \<open>\<open>tcpTransport.Recv\<close>: the body of the next frame, whatever its command.\<close>

definition tcpRecv ::
    "fins_error option \<Rightarrow> io_error \<Rightarrow> u8 list \<Rightarrow> (fins_error + u8 slice) \<times> u8 list" where
  "tcpRecv ctxErr fin stream =
     (case readFrame ctxErr fin stream of
        Inl e \<Rightarrow> (Inl e, [])
      | Inr (frame, rest) \<Rightarrow>
          if tm_errorCode frame \<noteq> 0
          then (Inl (Errorf ''FINS/TCP error: %d'' [AInt (uint (tm_errorCode frame))] None), rest)
          else (Inr (tm_body frame), rest))"

text \<open>
  \<open>writeFrame\<close>: \<open>writeErr\<close> is the outcome of the write, \<open>ctxErr\<close> is \<open>ctx.Err()\<close> after it; the result
  has the bytes written.
\<close>

definition writeFrame ::
    "fins_error option \<Rightarrow> fins_error option \<Rightarrow> u32 \<Rightarrow> u8 list \<Rightarrow> fins_error option \<times> u8 list" where
  "writeFrame writeErr ctxErr command body =
     (case writeErr of
        Some e \<Rightarrow> (Some (case ctxErr of Some ce \<Rightarrow> ce | None \<Rightarrow> e), [])
      | None \<Rightarrow> (None, finsTCPFrame command body))"

text \<open>\<open>handshake\<close>: send an empty handshake frame and check the reply; the rest of the stream is left.\<close>

definition handshake ::
    "fins_error option \<Rightarrow> fins_error option \<Rightarrow> io_error \<Rightarrow> u8 list \<Rightarrow> fins_error option \<times> u8 list \<times> u8 list" where
  "handshake writeErr ctxErr fin stream =
     (case writeFrame writeErr ctxErr finsTCPHandshakeCommand [] of
        (Some e, sent) \<Rightarrow> (Some e, sent, stream)
      | (None, sent) \<Rightarrow>
          (case readFrame ctxErr fin stream of
            Inl e \<Rightarrow> (Some e, sent, [])
          | Inr (resp, rest) \<Rightarrow>
              if tm_command resp \<noteq> finsTCPHandshakeCommand
              then (Some (Errorf ''unexpected handshake command: %d'' [AInt (uint (tm_command resp))] None), sent, rest)
              else if tm_errorCode resp \<noteq> 0
              then (Some (Errorf ''handshake failed with error code: %d'' [AInt (uint (tm_errorCode resp))] None), sent, rest)
              else (None, sent, rest)))"

text \<open>
  The constructors, given the outcome of dialling: over TCP the bytes sent and the rest of the stream.
\<close>

definition newTCPTransport ::
    "fins_error option \<Rightarrow> fins_error option \<Rightarrow> fins_error option \<Rightarrow> io_error \<Rightarrow> u8 list \<Rightarrow> fins_error + (u8 list \<times> u8 list)" where
  "newTCPTransport dialErr writeErr ctxErr fin stream =
     (case dialErr of
        Some e \<Rightarrow> Inl e
      | None \<Rightarrow> (case handshake writeErr ctxErr fin stream of
            (Some e, _) \<Rightarrow> Inl e
          | (None, sent, rest) \<Rightarrow> Inr (sent, rest)))"

section \<open>Facts\<close>

lemma length_finsTCPFrame [simp, go_len]: "length (finsTCPFrame c b) = 16 + length b"
  by (simp add: finsTCPFrame_def finsTCPSignature_def)

lemma readFrame_eq_readTCPMessage: "readFrame None fin stream = readTCPMessage fin stream"
  unfolding readFrame_def readTCPMessage_def by (auto split: sum.splits prod.splits simp: Let_def)

lemma nth_be_put32 [simp]:
  "be_put32 v ! 0 = ucast (drop_bit 24 v)" "be_put32 v ! Suc 0 = ucast (drop_bit 16 v)"
  "be_put32 v ! 2 = ucast (drop_bit 8 v)" "be_put32 v ! 3 = ucast v"
  by (simp_all add: be_put32_def)

text \<open>A frame is read back whole, and the bytes after it are left for the next read.\<close>

lemma readTCPMessage_frame:
  assumes "length body + 8 < 2 ^ 32"
  shows "readTCPMessage fin (finsTCPFrame c body @ rest) =
    Inr (\<lparr>tm_command = c, tm_errorCode = 0, tm_body = sl_make body\<rparr>, rest)"
proof -
  let ?n = "of_nat (length body + 8) :: u32"
  have n: "unat ?n = length body + 8" using assms by (intro unat_of_nat_small) simp
  then have n8: "\<not> ?n < 8" by (simp add: word_less_nat_alt)
  define hd8 where "hd8 = finsTCPSignature @ be_put32 ?n"
  define pl where "pl = be_put32 c @ be_put32 0 @ body"
  have frame: "finsTCPFrame c body = hd8 @ pl" by (simp add: finsTCPFrame_def hd8_def pl_def)
  have len: "length hd8 = 8" "length pl = length body + 8"
    by (simp_all add: hd8_def pl_def finsTCPSignature_def)
  have hd: "take 4 hd8 = finsTCPSignature" "be_get32 (hd8 ! 4) (hd8 ! 5) (hd8 ! 6) (hd8 ! 7) = ?n"
    by (simp_all add: hd8_def finsTCPSignature_def be_put32_def)
  have pl: "be_get32 (pl ! 0) (pl ! 1) (pl ! 2) (pl ! 3) = c"
    "be_get32 (pl ! 4) (pl ! 5) (pl ! 6) (pl ! 7) = 0" "drop 8 pl = body"
    by (simp_all add: pl_def be_put32_def) (simp add: be_get32_def)
  have r1: "ReadFull fin 8 (finsTCPFrame c body @ rest) = Inr (hd8, pl @ rest)"
    using len by (simp add: ReadFull_def frame)
  have r2: "ReadFull fin (unat ?n) (pl @ rest) = Inr (pl, rest)"
    unfolding n using len by (simp add: ReadFull_def)
  show ?thesis
    unfolding readTCPMessage_def r1 using hd n8 r2 pl by (simp add: Let_def)
qed

text \<open>Every message that is read used up at least sixteen bytes.\<close>

lemma ReadFull_Inr: "ReadFull fin n s = Inr (a, r) \<Longrightarrow> s = a @ r \<and> length a = n"
  by (auto simp: ReadFull_def split: if_splits)

lemma readTCPMessage_shorter:
  assumes "readTCPMessage fin stream = Inr (m, rest)"
  shows "length rest + 16 \<le> length stream"
proof -
  obtain header s1 where h: "ReadFull fin 8 stream = Inr (header, s1)"
    and b: "(let len = be_get32 (header ! 4) (header ! 5) (header ! 6) (header ! 7)
             in \<exists>body. \<not> len < 8 \<and> ReadFull fin (unat len) s1 = Inr (body, rest))"
    using assms by (auto simp: readTCPMessage_def Let_def split: sum.splits if_splits)
  then show ?thesis
    by (auto simp: Let_def word_less_nat_alt not_less dest!: ReadFull_Inr)
qed

text \<open>The frame as a codec: the reader of a connection inverts the writer.\<close>

definition frame_dec :: "u8 slice \<Rightarrow> (u32 \<times> u8 list) option" where
  "frame_dec s = (case readTCPMessage EOF (elems s) of
     Inr (m, []) \<Rightarrow> Some (tm_command m, elems (tm_body m)) | _ \<Rightarrow> None)"

interpretation frame_codec: byte_codec "\<lambda>(c, body). finsTCPFrame c body" frame_dec
    "\<lambda>(c, body). length body + 8 < 2 ^ 32"
proof unfold_locales
  fix x :: "u32 \<times> u8 list" and r
  assume "case x of (c, body) \<Rightarrow> length body + 8 < 2 ^ 32"
  then show "frame_dec (Slice (case x of (c, body) \<Rightarrow> finsTCPFrame c body) r) = Some x"
    using readTCPMessage_frame [of "snd x" EOF "fst x" "[]"]
    by (simp add: frame_dec_def split: prod.splits)
qed

section \<open>Properties\<close>

text \<open>
  What one side frames, the other side reads: the server's and the client's readers return the
  command and the body and leave the bytes that follow for the next frame, for every body whose
  length fits the length field.
\<close>

lemma tcp_frame_round_trip:
  assumes "length body + 8 < 2 ^ 32"
  shows "readTCPMessage fin (finsTCPFrame c body @ rest) =
      Inr (\<lparr>tm_command = c, tm_errorCode = 0, tm_body = sl_make body\<rparr>, rest) \<and>
    tcpRecv None fin (finsTCPFrame c body @ rest) = (Inr (sl_make body), rest)"
  using readTCPMessage_frame [OF assms, of fin c rest]
  by (simp add: tcpRecv_def readFrame_eq_readTCPMessage)

lemma tcp_frame_round_trip_example:
  "readTCPMessage EOF (finsTCPFrame 2 [7, 8] @ [9]) =
     Inr (\<lparr>tm_command = 2, tm_errorCode = 0, tm_body = sl_make [7, 8]\<rparr>, [9]) \<and>
   tcpRecv None EOF (finsTCPFrame 2 [7, 8] @ [9]) = (Inr (sl_make [7, 8]), [9])"
  using tcp_frame_round_trip [of "[7, 8]" EOF 2 "[9]"] by simp

lemma ReadFull_short: "length s < n \<Longrightarrow> ReadFull fin n s =
    Inl (IOError (if fin = EOF \<and> s \<noteq> [] then UnexpectedEOF else fin))"
  by (simp add: ReadFull_def)

text \<open>
  A frame that is cut off is never taken for a message: every proper prefix makes both readers
  return the error of the connection (an end of file inside the frame as an unexpected one).
\<close>

lemma tcp_frame_cut_off:
  assumes "length body + 8 < 2 ^ 32" "k < length (finsTCPFrame c body)"
  shows "readTCPMessage fin (take k (finsTCPFrame c body)) =
    Inl (IOError (if fin = EOF \<and> k \<noteq> 0 \<and> k \<noteq> 8 then UnexpectedEOF else fin))"
proof (cases "k < 8")
  case True
  moreover have "finsTCPFrame c body \<noteq> []" by (simp add: finsTCPFrame_def finsTCPSignature_def)
  ultimately show ?thesis by (simp add: readTCPMessage_def ReadFull_short)
next
  case False
  let ?n = "of_nat (length body + 8) :: u32"
  define hd8 where "hd8 = finsTCPSignature @ be_put32 ?n"
  define pl where "pl = be_put32 c @ be_put32 0 @ body"
  have n: "unat ?n = length body + 8" using assms(1) by (intro unat_of_nat_small) simp
  have len: "length hd8 = 8" "length pl = length body + 8" by (simp_all add: hd8_def pl_def finsTCPSignature_def)
  have frame: "take k (finsTCPFrame c body) = hd8 @ take (k - 8) pl"
    using False len by (simp add: finsTCPFrame_def hd8_def pl_def)
  have hd: "take 4 hd8 = finsTCPSignature" "be_get32 (hd8 ! 4) (hd8 ! 5) (hd8 ! 6) (hd8 ! 7) = ?n"
    by (simp_all add: hd8_def finsTCPSignature_def be_put32_def)
  have r1: "ReadFull fin 8 (hd8 @ take (k - 8) pl) = Inr (hd8, take (k - 8) pl)"
    using len by (simp add: ReadFull_def)
  have "length (take (k - 8) pl) < unat ?n" using assms(2) False len n by simp
  then have r2: "ReadFull fin (unat ?n) (take (k - 8) pl) =
      Inl (IOError (if fin = EOF \<and> k \<noteq> 0 \<and> k \<noteq> 8 then UnexpectedEOF else fin))"
    using False len by (auto simp: ReadFull_short)
  have "\<not> ?n < 8" using n by (simp add: word_less_nat_alt)
  then show ?thesis unfolding frame readTCPMessage_def r1 using hd r2 by (simp add: Let_def)
qed

lemma tcp_frame_cut_off_example:
  "readTCPMessage EOF (take 17 (finsTCPFrame 2 [7, 8])) = Inl (IOError UnexpectedEOF)"
  using tcp_frame_cut_off [of "[7, 8]" 17 2 EOF] by simp

end
