(* ===== verification/Fins_Server.thy ===== *)
theory Fins_Server
  imports Fins_Driver Fins_Transport
begin

text \<open>
  The PLC simulator of \<open>server.go\<close>: its memory areas, the four memory operations, the request
  handler with the clock, and the UDP and TCP service loops.  The memory interface the clients
  rely on is the locale \<open>plc_memory\<close>; word and bit areas are interpretations of it.
\<close>

abbreviation DM_AREA_SIZE :: nat where "DM_AREA_SIZE \<equiv> 32768"
abbreviation SERVER_BUFFER_SIZE :: nat where "SERVER_BUFFER_SIZE \<equiv> 1024"

section \<open>State\<close>

datatype transportKind = transportUDP | transportTCP

text \<open>
  The fields that operations read or write: the two tables of areas, and \<open>closed\<close>, which also
  stands for the closed channel \<open>done\<close> (\<open>Close\<close> sets both).  \<open>dmarea\<close> and \<open>bitdmarea\<close>
  are the slices stored in the tables under the DM areas, so they are not kept twice.
\<close>

record Server =
  transport :: transportKind
  wordAreas :: "u8 \<rightharpoonup> u8 list"
  bitAreas :: "u8 \<rightharpoonup> u8 list"
  closed :: bool

definition newArea :: "u8 list" where
  "newArea = replicate DM_AREA_SIZE 0"

text \<open>
  \<open>NewPLCSimulator\<close> up to the sockets.  \<open>listenErr\<close> is the outcome of \<open>net.ListenUDP\<close> or
  \<open>net.ListenTCP\<close>, \<open>hasTCPAddr\<close> whether the address carries a TCP address.
\<close>

definition NewPLCSimulator :: "transportKind \<Rightarrow> bool \<Rightarrow> fins_error option \<Rightarrow> fins_error + Server" where
  "NewPLCSimulator kind hasTCPAddr listenErr =
     (let s = \<lparr>transport = kind,
               wordAreas = [MemoryAreaDMWord \<mapsto> newArea, MemoryAreaWRWord \<mapsto> newArea,
                            MemoryAreaHRWord \<mapsto> newArea, MemoryAreaARWord \<mapsto> newArea,
                            MemoryAreaCIOWord \<mapsto> newArea],
               bitAreas = [MemoryAreaDMBit \<mapsto> newArea, MemoryAreaWRBit \<mapsto> newArea,
                           MemoryAreaHRBit \<mapsto> newArea, MemoryAreaARBit \<mapsto> newArea,
                           MemoryAreaCIOBit \<mapsto> newArea],
               closed = False\<rparr>
      in case kind of
           transportUDP \<Rightarrow> (case listenErr of Some e \<Rightarrow> Inl e | None \<Rightarrow> Inr s)
         | transportTCP \<Rightarrow>
             if \<not> hasTCPAddr then Inl (Errorf ''TCP address is required for TCP simulator'' [] None)
             else (case listenErr of Some e \<Rightarrow> Inl e | None \<Rightarrow> Inr s))"

definition IsClosed :: "Server \<Rightarrow> bool" where
  "IsClosed s = closed s"

text \<open>\<open>Close\<close>: \<open>connErr\<close> is the outcome of closing the socket; a second call does nothing.\<close>

definition Close :: "fins_error option \<Rightarrow> Server \<Rightarrow> Server \<times> fins_error option" where
  "Close connErr s = (if closed s then (s, None) else (s\<lparr>closed := True\<rparr>, connErr))"

section \<open>Memory operations\<close>

text \<open>
  All sums are in \<open>uint16\<close> and wrap; the comparison with the area size is made on the wrapped
  sum, and the slice expression panics when the wrapped end lies before the start.
\<close>

definition readWords :: "Server \<Rightarrow> u8 \<Rightarrow> u16 \<Rightarrow> u16 \<Rightarrow> (u8 list \<times> u16) option" where
  "readWords s area addr count =
     (case wordAreas s area of
        None \<Rightarrow> Some ([], EndCodeNotSupportedByModelVersion)
      | Some buf \<Rightarrow>
          if addr + count * 2 > of_nat DM_AREA_SIZE then Some ([], EndCodeAddressRangeExceeded)
          else do { d \<leftarrow> sl_range (sl_make buf) (unat addr) (unat (addr + count * 2));
                    Some (elems d, EndCodeNormalCompletion) })"

definition writeWords :: "Server \<Rightarrow> u8 \<Rightarrow> u16 \<Rightarrow> u16 \<Rightarrow> u8 list \<Rightarrow> (Server \<times> u16) option" where
  "writeWords s area addr count payload =
     (case wordAreas s area of
        None \<Rightarrow> Some (s, EndCodeNotSupportedByModelVersion)
      | Some buf \<Rightarrow>
          if addr + count * 2 > of_nat DM_AREA_SIZE then Some (s, EndCodeAddressRangeExceeded)
          else do { _ \<leftarrow> sl_range (sl_make buf) (unat addr) (unat (addr + count * 2));
                    Some (s\<lparr>wordAreas := (wordAreas s)
                              (area \<mapsto> copy_at buf (unat addr) (unat (addr + count * 2)) payload)\<rparr>,
                          EndCodeNormalCompletion) })"

definition readBits :: "Server \<Rightarrow> u8 \<Rightarrow> u16 \<Rightarrow> u8 \<Rightarrow> u16 \<Rightarrow> (u8 list \<times> u16) option" where
  "readBits s area addr off count =
     (case bitAreas s area of
        None \<Rightarrow> Some ([], EndCodeNotSupportedByModelVersion)
      | Some buf \<Rightarrow>
          let start = addr + ucast off in
          if start + count > of_nat DM_AREA_SIZE then Some ([], EndCodeAddressRangeExceeded)
          else do { d \<leftarrow> sl_range (sl_make buf) (unat start) (unat (start + count));
                    Some (elems d, EndCodeNormalCompletion) })"

definition writeBits :: "Server \<Rightarrow> u8 \<Rightarrow> u16 \<Rightarrow> u8 \<Rightarrow> u16 \<Rightarrow> u8 list \<Rightarrow> (Server \<times> u16) option" where
  "writeBits s area addr off count payload =
     (case bitAreas s area of
        None \<Rightarrow> Some (s, EndCodeNotSupportedByModelVersion)
      | Some buf \<Rightarrow>
          let start = addr + ucast off in
          if start + count > of_nat DM_AREA_SIZE then Some (s, EndCodeAddressRangeExceeded)
          else do { _ \<leftarrow> sl_range (sl_make buf) (unat start) (unat (start + count));
                    Some (s\<lparr>bitAreas := (bitAreas s)
                              (area \<mapsto> copy_at buf (unat start) (unat (start + count)) payload)\<rparr>,
                          EndCodeNormalCompletion) })"

section \<open>The clock\<close>

record goTime =
  Year :: int
  Month :: int
  Day :: int
  Hour :: int
  Minute :: int
  Second :: int

text \<open>\<open>byte((v/10)<<4 | (v % 10))\<close> on an \<open>int\<close> below 100 in absolute value.\<close>

definition bcdByte :: "int \<Rightarrow> u8" where
  "bcdByte v0 = (let v = go_mod v0 100 in word_of_int (push_bit 4 (go_div v 10) OR go_mod v 10))"

definition encodeClock :: "goTime \<Rightarrow> u8 list" where
  "encodeClock t = [bcdByte (go_mod (Year t) 100), bcdByte (Month t), bcdByte (Day t),
     bcdByte (Hour t), bcdByte (Minute t), bcdByte (Second t)]"

section \<open>The handler\<close>

definition wordAreaCodes :: "u8 list" where
  "wordAreaCodes = [MemoryAreaDMWord, MemoryAreaWRWord, MemoryAreaHRWord, MemoryAreaARWord, MemoryAreaCIOWord]"

definition bitAreaCodes :: "u8 list" where
  "bitAreaCodes = [MemoryAreaDMBit, MemoryAreaWRBit, MemoryAreaHRBit, MemoryAreaARBit, MemoryAreaCIOBit]"

text \<open>
  The payload of a write is sliced before the operation checks anything, and against the capacity
  of the request's buffer: \<open>r.data[6:6+ic*2]\<close> with \<open>6+ic*2\<close> in \<open>uint16\<close>.
\<close>

definition handler :: "Server \<Rightarrow> goTime \<Rightarrow> request \<Rightarrow> (Server \<times> response) option" where
  "handler s now r = do {
     (s', data, endCode) \<leftarrow>
       (if rq_commandCode r = CommandCodeMemoryAreaRead \<or> rq_commandCode r = CommandCodeMemoryAreaWrite
        then do {
          ma \<leftarrow> sl_range (rq_data r) 0 4 \<bind> decodeMemoryAddress;
          ic \<leftarrow> sl_range (rq_data r) 4 6 \<bind> get16_at be_get16;
          if memoryArea ma \<in> set wordAreaCodes
          then (if rq_commandCode r = CommandCodeMemoryAreaRead
                then do { (d, ec) \<leftarrow> readWords s (memoryArea ma) (address ma) ic; Some (s, d, ec) }
                else do { p \<leftarrow> sl_range (rq_data r) 6 (unat (6 + ic * 2));
                          (s', ec) \<leftarrow> writeWords s (memoryArea ma) (address ma) ic (elems p);
                          Some (s', [], ec) })
          else if memoryArea ma \<in> set bitAreaCodes
          then (if rq_commandCode r = CommandCodeMemoryAreaRead
                then do { (d, ec) \<leftarrow> readBits s (memoryArea ma) (address ma) (bitOffset ma) ic; Some (s, d, ec) }
                else do { p \<leftarrow> sl_range (rq_data r) 6 (unat (6 + ic));
                          (s', ec) \<leftarrow> writeBits s (memoryArea ma) (address ma) (bitOffset ma) ic (elems p);
                          Some (s', [], ec) })
          else Some (s, [], EndCodeNotSupportedByModelVersion) }
        else if rq_commandCode r = CommandCodeClockRead
        then Some (s, encodeClock now, EndCodeNormalCompletion)
        else Some (s, [], EndCodeNotSupportedByModelVersion));
     Some (s', \<lparr>rs_header = defaultResponseHeader (rq_header r), rs_commandCode = rq_commandCode r,
                rs_endCode = endCode, rs_data = sl_make data\<rparr>) }"

section \<open>The UDP service loop\<close>

text \<open>
  What happens to the loop, in order: a datagram arrives (with the time of day and the outcome of
  the reply's write), the read fails, another goroutine enters \<open>Close\<close> and sets \<open>closed\<close>, or the
  \<open>select\<close> finds the channel \<open>done\<close> closed.  Between the last two the loop goes on: it may serve
  datagrams until \<open>done\<close> is closed, and the one it is waiting for until the connection is closed.
\<close>

datatype udp_event =
    Datagram "u8 list" goTime "fins_error option"
  | ReadFails fins_error
  | Closing
  | DoneSeen

text \<open>\<open>ReadFromUDP(buf[:])\<close> keeps what fits and leaves the rest of the buffer as it was.\<close>

definition udp_receive :: "u8 list \<Rightarrow> u8 list \<Rightarrow> u8 list \<times> nat" where
  "udp_receive buf dgram = (go_copy buf dgram, min (length dgram) (length buf))"

text \<open>The result: the server, the buffer, the datagrams sent and the errors put on \<open>errChan\<close>.\<close>

fun udpLoop ::
    "Server \<Rightarrow> u8 list \<Rightarrow> udp_event list \<Rightarrow> (Server \<times> u8 list \<times> u8 list list \<times> fins_error list) option" where
  "udpLoop s buf [] = Some (s, buf, [], [])"
| "udpLoop s buf (Closing # evs) = udpLoop (fst (Close None s)) buf evs"
| "udpLoop s buf (DoneSeen # evs) = (if closed s then Some (s, buf, [], []) else udpLoop s buf evs)"
| "udpLoop s buf (ReadFails e # evs) =
     (if closed s then Some (s, buf, [], [])
      else Some (s, buf, [], [Errorf ''server read error: %w'' [] (Some e)]))"
| "udpLoop s buf (Datagram dgram now werr # evs) =
     (let (buf', rlen) = udp_receive buf dgram in
      if rlen > 0
      then do {
        req \<leftarrow> decodeRequest (Slice (take rlen buf') (drop rlen buf'));
        (s', resp) \<leftarrow> handler s now req;
        (case werr of
           Some e \<Rightarrow> Some (s', buf', [], if closed s' then [] else [Errorf ''server write error: %w'' [] (Some e)])
         | None \<Rightarrow> do { (s'', b'', out, errs) \<leftarrow> udpLoop s' buf' evs;
                        Some (s'', b'', encodeResponse resp # out, errs) }) }
      else udpLoop s buf' evs)"

section \<open>A TCP connection\<close>

text \<open>
  The loop of \<open>handleTCPConn\<close> after the handshake: \<open>clk k\<close> and \<open>werr k\<close> are the time of day
  and the outcome of the write at the \<open>k\<close>-th reply.  The result carries the bytes written and the
  error put on \<open>errChan\<close>.
\<close>

function tcp_serve ::
    "Server \<Rightarrow> io_error \<Rightarrow> (nat \<Rightarrow> goTime) \<Rightarrow> (nat \<Rightarrow> fins_error option) \<Rightarrow> nat \<Rightarrow> u8 list \<Rightarrow>
     (Server \<times> u8 list \<times> fins_error option) option" where
  "tcp_serve s fin clk werr k stream =
     (case readTCPMessage fin stream of
        Inl e \<Rightarrow> Some (s, [], if closed s then None else Some (Errorf ''read error: %w'' [] (Some e)))
      | Inr (msg, rest) \<Rightarrow>
          if tm_command msg \<noteq> finsTCPDataCommand then tcp_serve s fin clk werr k rest
          else do {
            req \<leftarrow> decodeRequest (tm_body msg);
            (s', resp) \<leftarrow> handler s (clk k) req;
            (case werr k of
               Some e \<Rightarrow> Some (s', [], if closed s' then None else Some (Errorf ''write error: %w'' [] (Some e)))
             | None \<Rightarrow> do {
                 (s'', out, err) \<leftarrow> tcp_serve s' fin clk werr (Suc k) rest;
                 Some (s'', finsTCPFrame finsTCPDataCommand (encodeResponse resp) @ out, err) }) })"
  by pat_completeness auto
termination
  by (relation "measure (\<lambda>(s, fin, clk, werr, k, stream). length stream)")
     (use readTCPMessage_shorter in fastforce)+

declare tcp_serve.simps [simp del]

definition handleTCPConn ::
    "Server \<Rightarrow> io_error \<Rightarrow> (nat \<Rightarrow> goTime) \<Rightarrow> fins_error option \<Rightarrow> (nat \<Rightarrow> fins_error option) \<Rightarrow>
     u8 list \<Rightarrow> (Server \<times> u8 list \<times> fins_error option) option" where
  "handleTCPConn s fin clk hsErr werr stream =
     (case readTCPMessage fin stream of
        Inl e \<Rightarrow> Some (s, [], if closed s then None else Some (Errorf ''handshake read error: %w'' [] (Some e)))
      | Inr (msg, rest) \<Rightarrow>
          if tm_command msg \<noteq> finsTCPHandshakeCommand then Some (s, [], None)
          else (case hsErr of
              Some e \<Rightarrow> Some (s, [], if closed s then None else Some (Errorf ''handshake write error: %w'' [] (Some e)))
            | None \<Rightarrow> do {
                (s', out, err) \<leftarrow> tcp_serve s fin clk werr 0 rest;
                Some (s', finsTCPFrame finsTCPHandshakeCommand [] @ out, err) }))"

text \<open>
  \<open>tcpAcceptLoop\<close> over the outcomes of \<open>AcceptTCP\<close>: the connections it starts a goroutine for, and
  what it sends on the error channel.
\<close>

fun tcpAcceptLoop :: "Server \<Rightarrow> (fins_error + 'conn) list \<Rightarrow> 'conn list \<times> fins_error list" where
  "tcpAcceptLoop s [] = ([], [])"
| "tcpAcceptLoop s (Inr conn # es) = (let (conns, errs) = tcpAcceptLoop s es in (conn # conns, errs))"
| "tcpAcceptLoop s (Inl e # es) = ([], if closed s then [] else [Errorf ''accept error: %w'' [] (Some e)])"

end
