(* ===== verification/Fins_Memory.thy ===== *)
theory Fins_Memory
  imports Fins_Server
begin

text \<open>
  The contract of the simulator's memory.  The locale \<open>plc_memory\<close> states what a client may
  assume of a read and a write at a location: what was written is read back, a write touches only
  its own cells, a failed write changes nothing, and reads and writes fail on the same ranges.
  Word areas and bit areas both satisfy it.
\<close>

section \<open>Well-formed servers\<close>

definition server_ok :: "Server \<Rightarrow> bool" where
  "server_ok s \<longleftrightarrow>
     dom (wordAreas s) = set wordAreaCodes \<and> (\<forall>buf \<in> ran (wordAreas s). length buf = DM_AREA_SIZE) \<and>
     dom (bitAreas s) = set bitAreaCodes \<and> (\<forall>buf \<in> ran (bitAreas s). length buf = DM_AREA_SIZE)"

lemma server_ok_word: "server_ok s \<Longrightarrow> wordAreas s a = Some buf \<Longrightarrow> length buf = DM_AREA_SIZE"
  by (auto simp: server_ok_def ran_def)

lemma server_ok_bit: "server_ok s \<Longrightarrow> bitAreas s a = Some buf \<Longrightarrow> length buf = DM_AREA_SIZE"
  by (auto simp: server_ok_def ran_def)

lemma ran_upd_subset: "ran (m(k \<mapsto> v)) \<subseteq> insert v (ran m)"
  by (auto simp: ran_def)

lemma server_ok_upd_word:
  "server_ok s \<Longrightarrow> wordAreas s a = Some buf \<Longrightarrow> length b = DM_AREA_SIZE \<Longrightarrow>
   server_ok (s\<lparr>wordAreas := (wordAreas s)(a \<mapsto> b)\<rparr>)"
  using ran_upd_subset [of "wordAreas s" a b] by (auto simp: server_ok_def)

lemma server_ok_upd_bit:
  "server_ok s \<Longrightarrow> bitAreas s a = Some buf \<Longrightarrow> length b = DM_AREA_SIZE \<Longrightarrow>
   server_ok (s\<lparr>bitAreas := (bitAreas s)(a \<mapsto> b)\<rparr>)"
  using ran_upd_subset [of "bitAreas s" a b] by (auto simp: server_ok_def)

lemma newArea_length: "length newArea = DM_AREA_SIZE"
  by (simp add: newArea_def)

lemma server_ok_word_area: "server_ok s \<Longrightarrow> a \<in> set wordAreaCodes \<Longrightarrow> \<exists>buf. wordAreas s a = Some buf"
  by (metis domD server_ok_def)

lemma server_ok_bit_area: "server_ok s \<Longrightarrow> a \<in> set bitAreaCodes \<Longrightarrow> \<exists>buf. bitAreas s a = Some buf"
  by (metis domD server_ok_def)

lemma server_ok_new:
  assumes "NewPLCSimulator kind hasTCP err = Inr s"
  shows "server_ok s" "\<not> closed s"
proof -
  have fields: "wordAreas s = [MemoryAreaDMWord \<mapsto> newArea, MemoryAreaWRWord \<mapsto> newArea,
       MemoryAreaHRWord \<mapsto> newArea, MemoryAreaARWord \<mapsto> newArea, MemoryAreaCIOWord \<mapsto> newArea]"
    "bitAreas s = [MemoryAreaDMBit \<mapsto> newArea, MemoryAreaWRBit \<mapsto> newArea,
       MemoryAreaHRBit \<mapsto> newArea, MemoryAreaARBit \<mapsto> newArea, MemoryAreaCIOBit \<mapsto> newArea]"
    "\<not> closed s"
    using assms by (auto simp: NewPLCSimulator_def Let_def split: transportKind.splits option.splits if_splits)
  have "ran (wordAreas s) \<subseteq> {newArea}" "ran (bitAreas s) \<subseteq> {newArea}"
    by (auto simp: fields ran_def split: if_splits)
  moreover have "dom (wordAreas s) = set wordAreaCodes" "dom (bitAreas s) = set bitAreaCodes"
    by (auto simp: fields wordAreaCodes_def bitAreaCodes_def)
  ultimately show "server_ok s" by (auto simp: server_ok_def newArea_length)
  show "\<not> closed s" by (rule fields)
qed

section \<open>The sums of a range\<close>

lemma past_end: "of_nat DM_AREA_SIZE < (w :: u16) \<longleftrightarrow> DM_AREA_SIZE < unat w"
  by (simp add: word_less_nat_alt)

lemma readWords_cases:
  assumes "server_ok s"
  shows "readWords s a addr n =
    (case wordAreas s a of
       None \<Rightarrow> Some ([], EndCodeNotSupportedByModelVersion)
     | Some buf \<Rightarrow>
         if DM_AREA_SIZE < unat (addr + n * 2) then Some ([], EndCodeAddressRangeExceeded)
         else if unat (addr + n * 2) < unat addr then None
         else Some (take (unat (addr + n * 2) - unat addr) (drop (unat addr) buf), EndCodeNormalCompletion))"
  using server_ok_word [OF assms]
  unfolding readWords_def past_end by (auto split: option.splits simp: sl_range_def not_less)

lemma writeWords_cases:
  assumes "server_ok s"
  shows "writeWords s a addr n p =
    (case wordAreas s a of
       None \<Rightarrow> Some (s, EndCodeNotSupportedByModelVersion)
     | Some buf \<Rightarrow>
         if DM_AREA_SIZE < unat (addr + n * 2) then Some (s, EndCodeAddressRangeExceeded)
         else if unat (addr + n * 2) < unat addr then None
         else Some (s\<lparr>wordAreas := (wordAreas s)(a \<mapsto> copy_at buf (unat addr) (unat (addr + n * 2)) p)\<rparr>,
                    EndCodeNormalCompletion))"
  using server_ok_word [OF assms]
  unfolding writeWords_def past_end by (auto split: option.splits simp: sl_range_def not_less)

lemma readBits_cases:
  assumes "server_ok s"
  shows "readBits s a addr off n =
    (case bitAreas s a of
       None \<Rightarrow> Some ([], EndCodeNotSupportedByModelVersion)
     | Some buf \<Rightarrow>
         if DM_AREA_SIZE < unat (addr + ucast off + n) then Some ([], EndCodeAddressRangeExceeded)
         else if unat (addr + ucast off + n) < unat (addr + ucast off) then None
         else Some (take (unat (addr + ucast off + n) - unat (addr + ucast off)) (drop (unat (addr + ucast off)) buf),
                    EndCodeNormalCompletion))"
  using server_ok_bit [OF assms]
  unfolding readBits_def past_end Let_def by (auto split: option.splits simp: sl_range_def not_less)

lemma writeBits_cases:
  assumes "server_ok s"
  shows "writeBits s a addr off n p =
    (case bitAreas s a of
       None \<Rightarrow> Some (s, EndCodeNotSupportedByModelVersion)
     | Some buf \<Rightarrow>
         if DM_AREA_SIZE < unat (addr + ucast off + n) then Some (s, EndCodeAddressRangeExceeded)
         else if unat (addr + ucast off + n) < unat (addr + ucast off) then None
         else Some (s\<lparr>bitAreas := (bitAreas s)
                       (a \<mapsto> copy_at buf (unat (addr + ucast off)) (unat (addr + ucast off + n)) p)\<rparr>,
                    EndCodeNormalCompletion))"
  using server_ok_bit [OF assms]
  unfolding writeBits_def past_end Let_def by (auto split: option.splits simp: sl_range_def not_less)

section \<open>The memory interface\<close>

text \<open>
  \<open>rd m l n\<close> and \<open>wr m l n p\<close> read and write \<open>n\<close> items at the location \<open>l\<close>; \<open>cells l n\<close> are
  the memory cells they touch.
\<close>

locale plc_memory =
  fixes rd :: "'m \<Rightarrow> 'l \<Rightarrow> u16 \<Rightarrow> (u8 list \<times> u16) option"
    and wr :: "'m \<Rightarrow> 'l \<Rightarrow> u16 \<Rightarrow> u8 list \<Rightarrow> ('m \<times> u16) option"
    and cells :: "'l \<Rightarrow> u16 \<Rightarrow> (u8 \<times> nat) set"
    and inv :: "'m \<Rightarrow> bool"
  assumes wr_inv: "inv m \<Longrightarrow> wr m l n p = Some (m', ec) \<Longrightarrow> inv m'"
    and wr_failed: "inv m \<Longrightarrow> wr m l n p = Some (m', ec) \<Longrightarrow> ec \<noteq> EndCodeNormalCompletion \<Longrightarrow> m' = m"
    and rd_wr_same: "inv m \<Longrightarrow> wr m l n p = Some (m', EndCodeNormalCompletion) \<Longrightarrow>
      length p = card (cells l n) \<Longrightarrow> rd m' l n = Some (p, EndCodeNormalCompletion)"
    and rd_wr_other: "inv m \<Longrightarrow> wr m l n p = Some (m', ec) \<Longrightarrow> cells l n \<inter> cells l' n' = {} \<Longrightarrow>
      rd m' l' n' = rd m l' n'"
    and rd_wr_codes: "inv m \<Longrightarrow> map_option snd (rd m l n) = map_option snd (wr m l n p)"
begin

text \<open>A run of writes, as a client issues them: it stops at the first one that is not served.\<close>

fun wr_all :: "'m \<Rightarrow> ('l \<times> u16 \<times> u8 list) list \<Rightarrow> 'm option" where
  "wr_all m [] = Some m"
| "wr_all m ((l, n, p) # ws) =
     (case wr m l n p of Some (m', ec) \<Rightarrow> if ec = EndCodeNormalCompletion then wr_all m' ws else None
      | None \<Rightarrow> None)"

lemma wr_all_inv: "inv m \<Longrightarrow> wr_all m ws = Some m' \<Longrightarrow> inv m'"
  by (induction m ws rule: wr_all.induct) (auto split: option.splits if_splits dest: wr_inv)

lemma rd_wr_all_other:
  "inv m \<Longrightarrow> wr_all m ws = Some m' \<Longrightarrow> (\<forall>(l, n, p) \<in> set ws. cells l n \<inter> cells l' n' = {}) \<Longrightarrow>
   rd m' l' n' = rd m l' n'"
proof (induction m ws rule: wr_all.induct)
  case (2 m l n p ws)
  then obtain m1 where m1: "wr m l n p = Some (m1, EndCodeNormalCompletion)" "wr_all m1 ws = Some m'"
    by (auto split: option.splits if_splits)
  have "rd m' l' n' = rd m1 l' n'" using 2 m1 wr_inv by auto
  also have "\<dots> = rd m l' n'" using 2 m1 rd_wr_other by auto
  finally show ?case .
qed simp

lemma wr_all_append: "wr_all m (xs @ ys) = (case wr_all m xs of Some m' \<Rightarrow> wr_all m' ys | None \<Rightarrow> None)"
  by (induction m xs rule: wr_all.induct) (auto split: option.splits)

text \<open>The last write of a run wins: later writes elsewhere do not disturb what it stored.\<close>

lemma rd_last_write:
  assumes "inv m" "wr_all m (xs @ (l, n, p) # ys) = Some m'" "length p = card (cells l n)"
    and "\<forall>(l2, n2, p2) \<in> set ys. cells l2 n2 \<inter> cells l n = {}"
  shows "rd m' l n = Some (p, EndCodeNormalCompletion)"
proof -
  obtain m1 m2 where m: "wr_all m xs = Some m1" "wr m1 l n p = Some (m2, EndCodeNormalCompletion)"
    "wr_all m2 ys = Some m'"
    using assms(2) by (auto simp: wr_all_append split: option.splits if_splits)
  have "inv m1" using assms(1) m(1) by (rule wr_all_inv)
  moreover from this have "inv m2" using m(2) by (rule wr_inv)
  ultimately show ?thesis
    using rd_wr_same [OF _ m(2)] rd_wr_all_other [OF _ m(3), of l n] assms(3,4) by auto
qed

end

section \<open>The areas of the simulator\<close>

definition word_cells :: "u8 \<times> u16 \<Rightarrow> u16 \<Rightarrow> (u8 \<times> nat) set" where
  "word_cells l n = {fst l} \<times> {unat (snd l) ..< unat (snd l + n * 2)}"

definition bit_cells :: "u8 \<times> u16 \<times> u8 \<Rightarrow> u16 \<Rightarrow> (u8 \<times> nat) set" where
  "bit_cells l n = (case l of (a, addr, off) \<Rightarrow>
     {a} \<times> {unat (addr + ucast off) ..< unat (addr + ucast off + n)})"

lemma card_cells:
  "card (word_cells (a, addr) n) = unat (addr + n * 2) - unat addr"
  "card (bit_cells (a, addr, off) n) = unat (addr + ucast off + n) - unat (addr + ucast off)"
  by (simp_all add: word_cells_def bit_cells_def card_cartesian_product_singleton)

text \<open>Two ranges of one buffer that share no cell: one is empty or ends before the other starts.\<close>

lemma disjoint_ranges:
  assumes "{lo..<hi} \<inter> {lo'..<hi'} = {}" "lo \<le> hi" "lo' \<le> (hi' :: nat)"
  shows "hi \<le> lo' \<or> hi' \<le> lo \<or> lo = hi \<or> lo' = hi'"
proof (rule ccontr)
  assume "\<not> ?thesis"
  then have "max lo lo' \<in> {lo..<hi} \<inter> {lo'..<hi'}" using assms(2,3) by auto
  with assms(1) show False by blast
qed

lemma copy_at_disjoint:
  assumes "{lo..<hi} \<inter> {lo'..<hi'} = {}" "lo \<le> hi" "hi \<le> length buf" "lo' \<le> hi'" "hi' \<le> length buf"
  shows "take (hi' - lo') (drop lo' (copy_at buf lo hi p)) = take (hi' - lo') (drop lo' buf)"
proof -
  from disjoint_ranges [OF assms(1,2,4)] consider "hi \<le> lo' \<or> hi' \<le> lo" | "lo = hi" | "lo' = hi'" by blast
  then show ?thesis
  proof cases
    case 1
    with assms show ?thesis by (intro copy_at_frame) auto
  next
    case 2
    then show ?thesis by (simp add: copy_at_def go_copy_def)
  qed simp
qed

text \<open>A served write, and the contents of the area after it.\<close>

lemma writeWords_served:
  assumes "server_ok s" "writeWords s a addr n p = Some (s', EndCodeNormalCompletion)"
  obtains buf where "wordAreas s a = Some buf" "length buf = DM_AREA_SIZE"
    "unat addr \<le> unat (addr + n * 2)" "unat (addr + n * 2) \<le> DM_AREA_SIZE"
    "s' = s\<lparr>wordAreas := (wordAreas s)(a \<mapsto> copy_at buf (unat addr) (unat (addr + n * 2)) p)\<rparr>"
  using assms(2) server_ok_word [OF assms(1)]
  unfolding writeWords_cases [OF assms(1)] by (auto split: option.splits if_splits)

lemma writeBits_served:
  assumes "server_ok s" "writeBits s a addr off n p = Some (s', EndCodeNormalCompletion)"
  obtains buf where "bitAreas s a = Some buf" "length buf = DM_AREA_SIZE"
    "unat (addr + ucast off) \<le> unat (addr + ucast off + n)" "unat (addr + ucast off + n) \<le> DM_AREA_SIZE"
    "s' = s\<lparr>bitAreas := (bitAreas s)
              (a \<mapsto> copy_at buf (unat (addr + ucast off)) (unat (addr + ucast off + n)) p)\<rparr>"
  using assms(2) server_ok_bit [OF assms(1)]
  unfolding writeBits_cases [OF assms(1)] by (auto split: option.splits if_splits)

lemma writeWords_failed:
  "server_ok s \<Longrightarrow> writeWords s a addr n p = Some (s', ec) \<Longrightarrow> ec \<noteq> EndCodeNormalCompletion \<Longrightarrow> s' = s"
  by (auto simp: writeWords_cases split: option.splits if_splits)

lemma writeBits_failed:
  "server_ok s \<Longrightarrow> writeBits s a addr off n p = Some (s', ec) \<Longrightarrow> ec \<noteq> EndCodeNormalCompletion \<Longrightarrow> s' = s"
  by (auto simp: writeBits_cases split: option.splits if_splits)

lemma writeWords_ok: "server_ok s \<Longrightarrow> writeWords s a addr n p = Some (s', ec) \<Longrightarrow> server_ok s'"
  by (auto simp: writeWords_cases server_ok_word split: option.splits if_splits intro!: server_ok_upd_word)

lemma writeBits_ok: "server_ok s \<Longrightarrow> writeBits s a addr off n p = Some (s', ec) \<Longrightarrow> server_ok s'"
  by (auto simp: writeBits_cases server_ok_bit split: option.splits if_splits intro!: server_ok_upd_bit)

definition rdWords :: "Server \<Rightarrow> u8 \<times> u16 \<Rightarrow> u16 \<Rightarrow> (u8 list \<times> u16) option" where
  "rdWords s l n = readWords s (fst l) (snd l) n"

definition wrWords :: "Server \<Rightarrow> u8 \<times> u16 \<Rightarrow> u16 \<Rightarrow> u8 list \<Rightarrow> (Server \<times> u16) option" where
  "wrWords s l n p = writeWords s (fst l) (snd l) n p"

definition rdBits :: "Server \<Rightarrow> u8 \<times> u16 \<times> u8 \<Rightarrow> u16 \<Rightarrow> (u8 list \<times> u16) option" where
  "rdBits s l n = readBits s (fst l) (fst (snd l)) (snd (snd l)) n"

definition wrBits :: "Server \<Rightarrow> u8 \<times> u16 \<times> u8 \<Rightarrow> u16 \<Rightarrow> u8 list \<Rightarrow> (Server \<times> u16) option" where
  "wrBits s l n p = writeBits s (fst l) (fst (snd l)) (snd (snd l)) n p"

lemma singleton_times_disjoint: "({a} \<times> A) \<inter> ({a} \<times> B) = {} \<Longrightarrow> A \<inter> B = {}"
  by blast

lemma words_read_other:
  assumes "server_ok s" "writeWords s a addr n p = Some (s', ec)"
    and "word_cells (a, addr) n \<inter> word_cells (a', addr') n' = {}"
  shows "readWords s' a' addr' n' = readWords s a' addr' n'"
proof (cases "ec = EndCodeNormalCompletion")
  case False
  then show ?thesis using assms writeWords_failed by blast
next
  case True
  with assms obtain buf where buf: "wordAreas s a = Some buf" "length buf = DM_AREA_SIZE"
    "unat addr \<le> unat (addr + n * 2)" "unat (addr + n * 2) \<le> DM_AREA_SIZE"
    "s' = s\<lparr>wordAreas := (wordAreas s)(a \<mapsto> copy_at buf (unat addr) (unat (addr + n * 2)) p)\<rparr>"
    using writeWords_served by blast
  have ok': "server_ok s'" using assms(1,2) by (rule writeWords_ok)
  show ?thesis
  proof (cases "a' = a \<and> unat addr' \<le> unat (addr' + n' * 2) \<and> unat (addr' + n' * 2) \<le> DM_AREA_SIZE")
    case False
    then show ?thesis
      unfolding readWords_cases [OF assms(1)] readWords_cases [OF ok'] using buf by auto
  next
    case True
    then have "{unat addr..<unat (addr + n * 2)} \<inter> {unat addr'..<unat (addr' + n' * 2)} = {}"
      using assms(3) True unfolding word_cells_def bit_cells_def by - (rule singleton_times_disjoint [of a], simp)
    then have same: "take (unat (addr' + n' * 2) - unat addr') (drop (unat addr') (copy_at buf (unat addr) (unat (addr + n * 2)) p)) =
        take (unat (addr' + n' * 2) - unat addr') (drop (unat addr') buf)"
      using True buf by (intro copy_at_disjoint) simp_all
    show ?thesis
      unfolding readWords_cases [OF assms(1)] readWords_cases [OF ok'] using buf(1,5) True same by simp
  qed
qed

lemma bits_read_other:
  assumes "server_ok s" "writeBits s a addr off n p = Some (s', ec)"
    and "bit_cells (a, addr, off) n \<inter> bit_cells (a', addr', off') n' = {}"
  shows "readBits s' a' addr' off' n' = readBits s a' addr' off' n'"
proof (cases "ec = EndCodeNormalCompletion")
  case False
  then show ?thesis using assms writeBits_failed by blast
next
  case True
  let ?st = "addr + ucast off" and ?st' = "addr' + ucast off'"
  from True assms obtain buf where buf: "bitAreas s a = Some buf" "length buf = DM_AREA_SIZE"
    "unat ?st \<le> unat (?st + n)" "unat (?st + n) \<le> DM_AREA_SIZE"
    "s' = s\<lparr>bitAreas := (bitAreas s)(a \<mapsto> copy_at buf (unat ?st) (unat (?st + n)) p)\<rparr>"
    using writeBits_served by blast
  have ok': "server_ok s'" using assms(1,2) by (rule writeBits_ok)
  show ?thesis
  proof (cases "a' = a \<and> unat ?st' \<le> unat (?st' + n') \<and> unat (?st' + n') \<le> DM_AREA_SIZE")
    case False
    then show ?thesis
      unfolding readBits_cases [OF assms(1)] readBits_cases [OF ok'] using buf by auto
  next
    case True
    then have "{unat ?st..<unat (?st + n)} \<inter> {unat ?st'..<unat (?st' + n')} = {}"
      using assms(3) True unfolding word_cells_def bit_cells_def by - (rule singleton_times_disjoint [of a], simp)
    then have same: "take (unat (?st' + n') - unat ?st') (drop (unat ?st') (copy_at buf (unat ?st) (unat (?st + n)) p)) =
        take (unat (?st' + n') - unat ?st') (drop (unat ?st') buf)"
      using True buf by (intro copy_at_disjoint) simp_all
    show ?thesis
      unfolding readBits_cases [OF assms(1)] readBits_cases [OF ok'] using buf(1,5) True same by simp
  qed
qed

lemma words_read_back:
  assumes "server_ok s" "writeWords s a addr n p = Some (s', EndCodeNormalCompletion)"
    and "length p = card (word_cells (a, addr) n)"
  shows "readWords s' a addr n = Some (p, EndCodeNormalCompletion)"
proof -
  obtain buf where buf: "wordAreas s a = Some buf" "length buf = DM_AREA_SIZE"
    "unat addr \<le> unat (addr + n * 2)" "unat (addr + n * 2) \<le> DM_AREA_SIZE"
    "s' = s\<lparr>wordAreas := (wordAreas s)(a \<mapsto> copy_at buf (unat addr) (unat (addr + n * 2)) p)\<rparr>"
    using writeWords_served [OF assms(1,2)] by blast
  have ok': "server_ok s'" using assms(1,2) by (rule writeWords_ok)
  show ?thesis
    unfolding readWords_cases [OF ok'] using buf assms(3) by (auto simp: card_cells copy_at_read_back)
qed

lemma bits_read_back:
  assumes "server_ok s" "writeBits s a addr off n p = Some (s', EndCodeNormalCompletion)"
    and "length p = card (bit_cells (a, addr, off) n)"
  shows "readBits s' a addr off n = Some (p, EndCodeNormalCompletion)"
proof -
  let ?st = "addr + ucast off"
  obtain buf where buf: "bitAreas s a = Some buf" "length buf = DM_AREA_SIZE"
    "unat ?st \<le> unat (?st + n)" "unat (?st + n) \<le> DM_AREA_SIZE"
    "s' = s\<lparr>bitAreas := (bitAreas s)(a \<mapsto> copy_at buf (unat ?st) (unat (?st + n)) p)\<rparr>"
    using writeBits_served [OF assms(1,2)] by blast
  have ok': "server_ok s'" using assms(1,2) by (rule writeBits_ok)
  show ?thesis
    unfolding readBits_cases [OF ok'] using buf assms(3) by (auto simp: card_cells copy_at_read_back)
qed

interpretation words: plc_memory rdWords wrWords word_cells server_ok
proof unfold_locales
  fix s :: Server and l :: "u8 \<times> u16" and n p s' ec l' n'
  assume ok: "server_ok s"
  show "map_option snd (rdWords s l n) = map_option snd (wrWords s l n p)"
    unfolding rdWords_def wrWords_def readWords_cases [OF ok] writeWords_cases [OF ok]
    by (auto split: option.splits)
  { assume w: "wrWords s l n p = Some (s', ec)"
    show "server_ok s'" using ok w unfolding wrWords_def by (rule writeWords_ok)
    show "s' = s" if "ec \<noteq> EndCodeNormalCompletion"
      using ok w that unfolding wrWords_def by (rule writeWords_failed)
    show "rdWords s' l' n' = rdWords s l' n'" if "word_cells l n \<inter> word_cells l' n' = {}"
      using words_read_other [of s "fst l" "snd l"] ok w that by (simp add: wrWords_def rdWords_def) }
  assume w: "wrWords s l n p = Some (s', EndCodeNormalCompletion)" "length p = card (word_cells l n)"
  then show "rdWords s' l n = Some (p, EndCodeNormalCompletion)"
    using words_read_back [of s "fst l" "snd l"] ok by (simp add: wrWords_def rdWords_def)
qed

interpretation bits: plc_memory rdBits wrBits bit_cells server_ok
proof unfold_locales
  fix s :: Server and l :: "u8 \<times> u16 \<times> u8" and n p s' ec l' n'
  assume ok: "server_ok s"
  show "map_option snd (rdBits s l n) = map_option snd (wrBits s l n p)"
    unfolding rdBits_def wrBits_def readBits_cases [OF ok] writeBits_cases [OF ok]
    by (auto split: option.splits)
  { assume w: "wrBits s l n p = Some (s', ec)"
    show "server_ok s'" using ok w unfolding wrBits_def by (rule writeBits_ok)
    show "s' = s" if "ec \<noteq> EndCodeNormalCompletion"
      using ok w that unfolding wrBits_def by (rule writeBits_failed)
    show "rdBits s' l' n' = rdBits s l' n'" if "bit_cells l n \<inter> bit_cells l' n' = {}"
      using bits_read_other [of s "fst l" "fst (snd l)" "snd (snd l)"] ok w that
      by (simp add: wrBits_def rdBits_def) }
  assume w: "wrBits s l n p = Some (s', EndCodeNormalCompletion)" "length p = card (bit_cells l n)"
  then show "rdBits s' l n = Some (p, EndCodeNormalCompletion)"
    using bits_read_back [of s "fst l" "fst (snd l)" "snd (snd l)"] ok by (simp add: wrBits_def rdBits_def)
qed

section \<open>In-range requests\<close>

text \<open>Where the range does not wrap, \<open>uint16\<close> sums are the sums of naturals.\<close>

lemma word_end_nowrap:
  "unat addr + 2 * unat n < 65536 \<Longrightarrow> unat (addr + n * 2 :: u16) = unat addr + 2 * unat n"
proof -
  assume h: "unat addr + 2 * unat n < 65536"
  have "unat (n * 2) = unat n * 2" using h by (subst unat_mult_nowrap) simp_all
  with h show ?thesis by (subst unat_add_nowrap) simp_all
qed

lemma bit_end_nowrap:
  assumes "unat addr + unat off + unat n < 65536"
  shows "unat (addr + ucast (off :: u8) + n :: u16) = unat addr + unat off + unat n"
    and "unat (addr + ucast off :: u16) = unat addr + unat off"
proof -
  have off: "unat (ucast off :: u16) = unat off"
    using u8_bound [of off] by (simp add: unsigned_ucast_eq take_bit_nat_eq_self)
  show start: "unat (addr + ucast off :: u16) = unat addr + unat off"
    using assms off by (subst unat_add_nowrap) simp_all
  show "unat (addr + ucast off + n :: u16) = unat addr + unat off + unat n"
    using assms start by (subst unat_add_nowrap) simp_all
qed

lemma writeWords_in_range:
  assumes "server_ok s" "a \<in> set wordAreaCodes" "unat addr + 2 * unat n \<le> DM_AREA_SIZE"
  shows "\<exists>s'. writeWords s a addr n p = Some (s', EndCodeNormalCompletion)"
proof -
  obtain buf where "wordAreas s a = Some buf" using server_ok_word_area assms(1,2) by blast
  then show ?thesis
    using assms(3) word_end_nowrap [of addr n] by (simp add: writeWords_cases [OF assms(1)])
qed

lemma writeBits_in_range:
  assumes "server_ok s" "a \<in> set bitAreaCodes" "unat addr + unat off + unat n \<le> DM_AREA_SIZE"
  shows "\<exists>s'. writeBits s a addr off n p = Some (s', EndCodeNormalCompletion)"
proof -
  obtain buf where "bitAreas s a = Some buf" using server_ok_bit_area assms(1,2) by blast
  then show ?thesis
    using assms(3) bit_end_nowrap [of addr off n] by (simp add: writeBits_cases [OF assms(1)])
qed

section \<open>Properties\<close>

lemma simulator_exists: "\<exists>s. NewPLCSimulator transportUDP False None = Inr s \<and> server_ok s \<and> \<not> closed s"
proof -
  obtain s where "NewPLCSimulator transportUDP False None = Inr s"
    by (simp add: NewPLCSimulator_def Let_def)
  then show ?thesis using server_ok_new by blast
qed

text \<open>
  The last write to a range of words wins.  In any sequence of writes that the simulator
  serves, if nothing written after a payload touches its cells, reading the same words returns that
  payload.  The cells are those of the wrapping \<open>uint16\<close> sums, so this includes addresses whose
  end wraps around.
\<close>

lemma word_memory_last_write:
  assumes "server_ok s" "words.wr_all s (before @ ((a, ad), n, p) # after) = Some s'"
    and "length p = card (word_cells (a, ad) n)"
    and "\<forall>(l2, n2, p2) \<in> set after. word_cells l2 n2 \<inter> word_cells (a, ad) n = {}"
  shows "readWords s' a ad n = Some (p, EndCodeNormalCompletion)"
  using words.rd_last_write [OF assms] by (simp add: rdWords_def)

lemma word_memory_last_write_example:
  "\<exists>s s'. NewPLCSimulator transportUDP False None = Inr s \<and>
     words.wr_all s [((MemoryAreaDMWord, 10), 1, [9, 9]), ((MemoryAreaDMWord, 10), 1, [1, 2]),
                     ((MemoryAreaDMWord, 12), 1, [3, 4])] = Some s' \<and>
     readWords s' MemoryAreaDMWord 10 1 = Some ([1, 2], EndCodeNormalCompletion)"
proof -
  let ?l = "[((MemoryAreaDMWord, 10 :: u16), 1 :: u16, [9, 9 :: u8]), ((MemoryAreaDMWord, 10), 1, [1, 2]),
     ((MemoryAreaDMWord, 12), 1, [3, 4])]"
  obtain s where s: "NewPLCSimulator transportUDP False None = Inr s" "server_ok s" using simulator_exists by blast
  have w: "\<exists>s1. wrWords t (MemoryAreaDMWord, ad) 1 p = Some (s1, EndCodeNormalCompletion) \<and> server_ok s1"
    if "server_ok t" "unat ad \<le> 100" for t ad p
  proof -
    have "MemoryAreaDMWord \<in> set wordAreaCodes" by (simp add: wordAreaCodes_def)
    then show ?thesis
      using writeWords_in_range [of t MemoryAreaDMWord ad 1 p] writeWords_ok [OF that(1)] that
      by (fastforce simp: wrWords_def)
  qed
  obtain s1 where s1: "wrWords s (MemoryAreaDMWord, 10) 1 [9, 9] = Some (s1, EndCodeNormalCompletion)" "server_ok s1"
    using w [OF s(2), of 10 "[9, 9]"] by auto
  obtain s2 where s2: "wrWords s1 (MemoryAreaDMWord, 10) 1 [1, 2] = Some (s2, EndCodeNormalCompletion)" "server_ok s2"
    using w [OF s1(2), of 10 "[1, 2]"] by auto
  obtain s3 where s3: "wrWords s2 (MemoryAreaDMWord, 12) 1 [3, 4] = Some (s3, EndCodeNormalCompletion)"
    using w [OF s2(2), of 12 "[3, 4]"] by auto
  have all: "words.wr_all s ?l = Some s3" using s1 s2 s3 by simp
  moreover have "readWords s3 MemoryAreaDMWord 10 1 = Some ([1, 2], EndCodeNormalCompletion)"
  proof (rule word_memory_last_write [OF s(2)])
    show "words.wr_all s ([((MemoryAreaDMWord, 10), 1, [9, 9])] @ ((MemoryAreaDMWord, 10), 1, [1, 2]) #
        [((MemoryAreaDMWord, 12), 1, [3, 4])]) = Some s3"
      using all by (simp only: append.simps)
    have "{MemoryAreaDMWord} \<times> {12..<14 :: nat} \<inter> {MemoryAreaDMWord} \<times> {10..<12} = {}" by auto
    then show "\<forall>(l2, n2, p2) \<in> set [((MemoryAreaDMWord, 12), 1, [3, 4 :: u8])].
        word_cells l2 n2 \<inter> word_cells (MemoryAreaDMWord, 10) 1 = {}"
      by (simp add: word_cells_def)
  qed (simp add: word_cells_def)
  ultimately show ?thesis using s(1) by blast
qed

text \<open>
  C32: when a word access panics.  On a well-formed server a read of words crashes exactly when the
  area exists and the end of the range, computed in \<open>uint16\<close>, lies before its start without
  exceeding the area size: the range check does not see that the sum has wrapped.
\<close>

theorem readWords_panic_iff:
  assumes "server_ok s"
  shows "readWords s a ad n = None \<longleftrightarrow>
    a \<in> set wordAreaCodes \<and> unat (ad + n * 2) \<le> DM_AREA_SIZE \<and> unat (ad + n * 2) < unat ad"
proof -
  have "a \<in> set wordAreaCodes \<longleftrightarrow> wordAreas s a \<noteq> None" using assms by (auto simp: server_ok_def)
  then show ?thesis by (auto simp: readWords_cases [OF assms] split: option.splits)
qed

theorem readWords_panic_iff_witness:
  "\<exists>s. NewPLCSimulator transportUDP False None = Inr s \<and>
     readWords s MemoryAreaDMWord 0xFFFF 1 = None \<and> readWords s MemoryAreaDMWord 0x8000 1 \<noteq> None"
proof -
  obtain s where s: "NewPLCSimulator transportUDP False None = Inr s" "server_ok s" using simulator_exists by blast
  have "readWords s MemoryAreaDMWord 0xFFFF 1 = None" "readWords s MemoryAreaDMWord 0x8000 1 \<noteq> None"
    unfolding readWords_panic_iff [OF s(2)] by (simp_all add: wordAreaCodes_def)
  then show ?thesis using s(1) by blast
qed

text \<open>
  Two bits share a cell.  The bit offset is added to the address, so the bit after
  \<open>(address, offset)\<close> is both \<open>(address, offset + 1)\<close> and \<open>(address + 1, offset)\<close>: a write to one
  is read at the other.
\<close>

lemma bits_alias:
  "readBits s a (ad + 1) off n = readBits s a ad (off + 1) n" if "off \<noteq> 255"
proof -
  have off: "unat off + 1 < 256"
  proof -
    have "unat off \<noteq> unat (255 :: u8)" using that by (auto simp: word_unat_eq_iff)
    then show ?thesis using u8_bound [of off] by simp
  qed
  then have "unat (off + 1) = unat off + 1" by (subst unat_add_nowrap) simp_all
  then have "(ucast (off + 1) :: u16) = ucast off + 1"
    using off by (intro word_unat_eq_iff [THEN iffD2])
      (subst unat_add_nowrap, simp_all add: unsigned_ucast_eq take_bit_nat_eq_self)
  then have "ad + 1 + ucast off = ad + ucast (off + 1)" by (simp only: ac_simps)
  then show ?thesis unfolding readBits_def by (simp only:)
qed

lemma bits_alias_example: "\<forall>s. readBits s MemoryAreaDMBit 6 3 1 = readBits s MemoryAreaDMBit 5 4 1"
  using bits_alias [of 3 _ MemoryAreaDMBit 5 1] by simp

end
