(* ===== verification/Fins_Bcd.thy ===== *)
theory Fins_Bcd
  imports Fins_Const
begin

text \<open>
  The BCD part of \<open>driver.go\<close>: \<open>encodeBCD\<close>, \<open>timesTenPlusCatchingOverflow\<close> and
  \<open>decodeBCD\<close> on 64-bit words, the round trip for every 64-bit value, the exact range in which
  the overflow test is reliable, and inputs beyond it.
\<close>

section \<open>Encoding\<close>

text \<open>The loop that counts decimal digits: \<open>for xx := x; xx > 0; n++ { xx = xx / 10 }\<close>.\<close>

function bcd_digits :: "u64 \<Rightarrow> nat" where
  "bcd_digits xx = (if xx > 0 then Suc (bcd_digits (xx div 10)) else 0)"
  by pat_completeness auto
termination
  by (relation "measure unat") (auto simp: unat_div word_less_nat_alt)

declare bcd_digits.simps [simp del]

definition bcd_byte :: "u64 \<Rightarrow> u64 \<Rightarrow> u8" where
  "bcd_byte hi lo = push_bit 4 (ucast hi) OR ucast lo"

text \<open>The loop from the last pair of digits to the first; \<open>i\<close> counts the pairs still to write.\<close>

fun bcd_fill :: "nat \<Rightarrow> u64 \<Rightarrow> u8 list \<Rightarrow> u8 list" where
  "bcd_fill 0 x bcd = bcd"
| "bcd_fill (Suc i) x bcd =
     bcd_fill i (x div 100) (bcd[i := bcd_byte ((x div 10) mod 10) (x mod 10)])"

definition encodeBCD :: "u64 \<Rightarrow> u8 list" where
  "encodeBCD x =
     (if x = 0 then [0x0f]
      else let n = bcd_digits x; bcd = replicate ((n + 1) div 2) 0
           in if n mod 2 = 1
              then bcd_fill ((n - 1) div 2) (x div 10) (bcd[(n - 1) div 2 := bcd_byte (x mod 10) 0x0f])
              else bcd_fill (n div 2) x bcd)"

section \<open>Decoding\<close>

definition timesTenPlusCatchingOverflow :: "u64 \<Rightarrow> u64 \<Rightarrow> fins_error + u64" where
  "timesTenPlusCatchingOverflow x digit =
     (let x5 = push_bit 2 x + x
      in if sint x5 < 0 \<or> push_bit 1 x5 > NOT digit then Inl BCDOverflowError
         else Inr (push_bit 1 x5 + digit))"

text \<open>The loop over the bytes; the accumulator is \<open>x\<close>, and \<open>i == len(bcd)-1\<close> is an empty rest.\<close>

fun decodeBCD_from :: "u64 \<Rightarrow> u8 list \<Rightarrow> fins_error + u64" where
  "decodeBCD_from x [] = Inr x"
| "decodeBCD_from x (b # bs) =
     (let hi = ucast (drop_bit 4 b); lo = ucast (b AND 0x0f)
      in if hi > 9 then Inl (BCDBadDigitError ''hi'' hi)
         else case timesTenPlusCatchingOverflow x hi of
           Inl e \<Rightarrow> Inl e
         | Inr x1 \<Rightarrow>
             if lo = 0x0f \<and> bs = [] then Inr x1
             else if lo > 9 then Inl (BCDBadDigitError ''lo'' lo)
             else case timesTenPlusCatchingOverflow x1 lo of
               Inl e \<Rightarrow> Inl e
             | Inr x2 \<Rightarrow> decodeBCD_from x2 bs)"

definition decodeBCD :: "u8 list \<Rightarrow> fins_error + u64" where
  "decodeBCD bcd = decodeBCD_from 0 bcd"

section \<open>The overflow test\<close>

lemma x5_eq: "push_bit 2 x + x = 5 * (x :: u64)" "push_bit 1 x = 2 * x"
  by (simp_all add: push_bit_eq_mult)

lemma sint_neg_iff: "sint (w :: u64) < 0 \<longleftrightarrow> 9223372036854775808 \<le> unat w"
proof -
  have "sint w < 0 \<longleftrightarrow> bit w 63"
    using bit_last_iff [of w] by simp
  also have "\<dots> \<longleftrightarrow> odd (unat w div 2 ^ 63)"
  proof -
    have "bit w 63 \<longleftrightarrow> bit (unat w) 63" by (simp add: bit_unsigned_iff)
    then show ?thesis by (simp only: bit_iff_odd)
  qed
  also have "\<dots> \<longleftrightarrow> 9223372036854775808 \<le> unat w"
  proof -
    have "unat w div 2 ^ 63 < 2" using u64_bound [of w] by (simp add: less_mult_imp_div_less)
    moreover have "odd k \<longleftrightarrow> k \<noteq> 0" if "k < 2" for k :: nat using that by presburger
    ultimately have "odd (unat w div 2 ^ 63) \<longleftrightarrow> unat w div 2 ^ 63 \<noteq> 0" by blast
    then show ?thesis by (simp add: div_eq_0_iff not_less)
  qed
  finally show ?thesis .
qed

lemma not_digit_less: "unat (NOT (d :: u64)) = 18446744073709551615 - unat d"
proof -
  have "NOT d = - 1 - d" by (simp add: not_eq_complement)
  moreover have "unat (- 1 - d) = unat (- 1 :: u64) - unat d"
    by (rule unat_sub) simp
  moreover have "unat (- 1 :: u64) = 18446744073709551615"
    by (simp add: unsigned_minus_1_eq_mask mask_eq_exp_minus_1)
  ultimately show ?thesis by simp
qed

text \<open>
  Within \<open>x < 2^64 / 5\<close> the test is exact: it answers the value or the overflow, whichever it is.
\<close>

lemma timesTenPlus_exact:
  assumes "5 * unat x < 18446744073709551616"
  shows "timesTenPlusCatchingOverflow x d =
    (if 10 * unat x + unat d < 18446744073709551616 then Inr (10 * x + d) else Inl BCDOverflowError)"
proof -
  have u5: "unat (5 * x) = 5 * unat x"
    using assms by (subst unat_mult_nowrap) simp_all
  show ?thesis
  proof (cases "9223372036854775808 \<le> 5 * unat x")
    case True
    then show ?thesis
      by (simp add: timesTenPlusCatchingOverflow_def x5_eq Let_def sint_neg_iff u5)
  next
    case False
    have u10: "unat (2 * (5 * x)) = 10 * unat x"
      using False u5 by (subst unat_mult_nowrap) simp_all
    have "NOT d < 2 * (5 * x) \<longleftrightarrow> \<not> 10 * unat x + unat d < 18446744073709551616"
      using u64_bound [of d] unfolding word_less_nat_alt u10 not_digit_less by arith
    with False show ?thesis
      by (simp add: timesTenPlusCatchingOverflow_def x5_eq Let_def sint_neg_iff u5)
  qed
qed

lemma timesTenPlus_small:
  assumes "10 * unat x + unat d < 18446744073709551616"
  shows "timesTenPlusCatchingOverflow x d = Inr (10 * x + d)"
    and "unat (10 * x + d) = 10 * unat x + unat d"
proof -
  show "timesTenPlusCatchingOverflow x d = Inr (10 * x + d)"
    using assms by (subst timesTenPlus_exact) simp_all
  have "unat (10 * x) = 10 * unat x"
    using assms by (subst unat_mult_nowrap) simp_all
  then show "unat (10 * x + d) = 10 * unat x + unat d"
    using assms by (subst unat_add_nowrap) simp_all
qed

section \<open>The round trip\<close>

text \<open>The nibbles of an encoded byte.\<close>

lemma nibble_bits:
  assumes "w < (16 :: u64)" "bit w n"
  shows "n < 4"
proof (rule ccontr)
  assume "\<not> n < 4"
  then have "(2 :: nat) ^ 4 \<le> 2 ^ n" by (intro power_increasing) simp_all
  then have "unat w < 2 ^ n" using assms(1) by (simp add: word_less_nat_alt)
  then have "\<not> bit (unat w) n" by (simp add: bit_iff_odd)
  with assms(2) show False by (simp add: bit_unsigned_iff bit_imp_le_length)
qed

lemma split_pair: "(n :: nat) = 100 * (n div 100) + 10 * (n div 10 mod 10) + n mod 10"
proof -
  have "n div 100 = n div 10 div 10" by (simp flip: div_mult2_eq)
  moreover have "n = 10 * (n div 10) + n mod 10" "n div 10 = 10 * (n div 10 div 10) + n div 10 mod 10"
    by simp_all
  ultimately show ?thesis by linarith
qed

lemma bcd_byte_nibbles:
  assumes "hi < 16" "lo < 16"
  shows "ucast (drop_bit 4 (bcd_byte hi lo)) = hi" "ucast (bcd_byte hi lo AND 0x0f) = lo"
proof -
  have bits: "\<And>n. bit hi n \<Longrightarrow> n < 4" "\<And>n. bit lo n \<Longrightarrow> n < 4"
    using nibble_bits assms by blast+
  have mask: "(0x0f :: u8) = mask 4" by (simp add: mask_eq_exp_minus_1)
  show "ucast (drop_bit 4 (bcd_byte hi lo)) = hi"
    unfolding bcd_byte_def by (rule bit_word_eqI) (auto simp: bit_simps dest: bits)
  show "ucast (bcd_byte hi lo AND 0x0f) = lo"
    unfolding bcd_byte_def mask by (rule bit_word_eqI) (auto simp: bit_simps dest: bits)
qed

lemma u64_mod10: "unat (x mod 10 :: u64) = unat x mod 10" "unat (x div 10 :: u64) = unat x div 10"
  "unat (x div 100 :: u64) = unat x div 100"
  by (simp_all add: unat_mod unat_div)

lemma u64_mod10_less: "(x :: u64) mod 10 < 16" "x mod 10 \<le> 9"
  by (simp_all add: word_less_nat_alt word_le_nat_alt u64_mod10)

text \<open>One pair of digits, decoded after an accumulator.\<close>

lemma decode_pair:
  assumes "100 * unat a + 10 * unat hi + unat lo < 18446744073709551616" "hi \<le> 9" "lo \<le> 9"
  shows "decodeBCD_from a (bcd_byte hi lo # bs) = decodeBCD_from (10 * (10 * a + hi) + lo) bs"
    and "unat (10 * (10 * a + hi) + lo) = 100 * unat a + 10 * unat hi + unat lo"
proof -
  have d: "hi < 16" "lo < 16" "lo \<noteq> 0x0f" "\<not> 9 < hi" "\<not> 9 < lo"
    using assms(2,3) by (auto simp: word_less_nat_alt word_le_nat_alt)
  have s1: "10 * unat a + unat hi < 18446744073709551616" using assms(1) by simp
  note t1 = timesTenPlus_small [OF s1]
  have s2: "10 * unat (10 * a + hi) + unat lo < 18446744073709551616"
    using assms(1) t1(2) by simp
  note t2 = timesTenPlus_small [OF s2]
  show "decodeBCD_from a (bcd_byte hi lo # bs) = decodeBCD_from (10 * (10 * a + hi) + lo) bs"
    using d by (simp add: bcd_byte_nibbles Let_def t1(1) t2(1))
  show "unat (10 * (10 * a + hi) + lo) = 100 * unat a + 10 * unat hi + unat lo"
    using t1(2) t2(2) by simp
qed

text \<open>The bytes that \<open>bcd_fill\<close> writes, as a list from the most significant pair on.\<close>

fun base100 :: "nat \<Rightarrow> u64 \<Rightarrow> u8 list" where
  "base100 0 x = []"
| "base100 (Suc k) x = base100 k (x div 100) @ [bcd_byte ((x div 10) mod 10) (x mod 10)]"

lemma length_base100 [simp]: "length (base100 k x) = k"
  by (induction k arbitrary: x) auto

lemma bcd_fill_base100: "k \<le> length bcd \<Longrightarrow> bcd_fill k x bcd = base100 k x @ drop k bcd"
proof (induction k arbitrary: x bcd)
  case (Suc k)
  then have "drop k (bcd[k := b]) = b # drop (Suc k) bcd" for b
    by (simp add: Cons_nth_drop_Suc [symmetric])
  with Suc show ?case by simp
qed simp

lemma bcd_fill_odd: "bcd_fill k x ((replicate (Suc k) 0)[k := b]) = base100 k x @ [b]"
proof -
  have "drop k ((replicate (Suc k) (0 :: u8))[k := b]) = [b]"
    by (rule nth_equalityI) (auto simp del: replicate_Suc)
  then show ?thesis
    by (subst bcd_fill_base100) (simp_all del: replicate_Suc)
qed

lemma decode_base100:
  assumes "unat x < 100 ^ k" "unat a * 100 ^ k + unat x < 18446744073709551616"
  shows "\<exists>y. unat y = unat a * 100 ^ k + unat x \<and>
    decodeBCD_from a (base100 k x @ bs) = decodeBCD_from y bs"
  using assms
proof (induction k arbitrary: x bs)
  case 0
  then show ?case by auto
next
  case (Suc k)
  let ?hi = "(x div 10) mod 10" and ?lo = "x mod 10"
  note split = split_pair [of "unat x"]
  have lt: "unat (x div 100) < 100 ^ k"
    using Suc.prems(1) by (simp add: u64_mod10 less_mult_imp_div_less mult.commute)
  have bound: "unat a * 100 ^ k + unat (x div 100) < 18446744073709551616"
    using Suc.prems(2) split unfolding u64_mod10 power_Suc by linarith
  obtain y where y: "unat y = unat a * 100 ^ k + unat (x div 100)"
    "decodeBCD_from a (base100 k (x div 100) @ bcd_byte ?hi ?lo # bs) =
       decodeBCD_from y (bcd_byte ?hi ?lo # bs)"
    using Suc.IH [OF lt bound] by blast
  have "100 * unat y + 10 * unat ?hi + unat ?lo = unat a * 100 ^ Suc k + unat x"
    using split y(1) by (simp add: u64_mod10)
  moreover note Suc.prems(2)
  ultimately have b: "100 * unat y + 10 * unat ?hi + unat ?lo < 18446744073709551616"
    and v: "100 * unat y + 10 * unat ?hi + unat ?lo = unat a * 100 ^ Suc k + unat x" by simp_all
  note p = decode_pair [OF b u64_mod10_less(2) u64_mod10_less(2)]
  show ?case
    using y(2) p v by (intro exI [of _ "10 * (10 * y + ?hi) + ?lo"]) simp
qed

lemma bcd_digits_bounds:
  "x \<noteq> 0 \<Longrightarrow> 0 < bcd_digits x \<and> 10 ^ (bcd_digits x - 1) \<le> unat x \<and> unat x < 10 ^ bcd_digits x"
proof (induction x rule: bcd_digits.induct)
  case (1 x)
  then have pos: "x > 0" by (simp add: word_neq_0_conv)
  show ?case
  proof (cases "x div 10 = 0")
    case True
    then have "unat x div 10 = 0" by (metis u64_mod10(2) unat_0)
    then have "unat x < 10" by simp
    moreover have "bcd_digits x = 1"
      using pos True by (subst bcd_digits.simps) (simp add: bcd_digits.simps [of 0])
    moreover have "0 < unat x" using pos by (simp add: word_less_nat_alt)
    ultimately show ?thesis by simp
  next
    case False
    with 1 pos have ih: "0 < bcd_digits (x div 10)" "10 ^ (bcd_digits (x div 10) - 1) \<le> unat x div 10"
      "unat x div 10 < 10 ^ bcd_digits (x div 10)" by (simp_all add: u64_mod10)
    obtain m where m: "bcd_digits (x div 10) = Suc m" using ih(1) by (cases "bcd_digits (x div 10)") auto
    have "bcd_digits x = Suc (Suc m)" using pos m by (subst bcd_digits.simps) simp
    moreover have "10 ^ Suc m \<le> unat x" using ih(2) m by simp
    moreover have "unat x < 10 ^ Suc (Suc m)" using ih(3) m by simp
    ultimately show ?thesis by simp
  qed
qed

lemma pow_100_10: "(100 :: nat) ^ k = 10 ^ (2 * k)"
  by (simp add: power_mult)

text \<open>
  C29: BCD round trip.  Every unsigned 64-bit number is decoded back from the bytes it is encoded
  to, whether it has an even number of digits, an odd one, or is zero.
\<close>

theorem bcd_round_trip: "decodeBCD (encodeBCD x) = Inr x"
proof (cases "x = 0")
  case True
  then show ?thesis by (simp add: encodeBCD_def decodeBCD_def timesTenPlusCatchingOverflow_def)
next
  case False
  let ?n = "bcd_digits x"
  have n: "0 < ?n" "unat x < 10 ^ ?n" using bcd_digits_bounds [OF False] by auto
  show ?thesis
  proof (cases "?n mod 2 = 1")
    case True
    define k where "k = ?n div 2"
    have k: "?n = 2 * k + 1" using True unfolding k_def by presburger
    have enc: "encodeBCD x = base100 k (x div 10) @ [bcd_byte (x mod 10) 0x0f]"
      using False k by (simp add: encodeBCD_def Let_def bcd_fill_odd del: replicate_Suc)
    have "unat (x div 10) < 100 ^ k"
      using n(2) k by (simp add: u64_mod10 pow_100_10 less_mult_imp_div_less mult.commute)
    moreover have "unat (0 :: u64) * 100 ^ k + unat (x div 10) < 18446744073709551616"
      using u64_bound [of "x div 10"] by simp
    ultimately obtain y where y: "unat y = unat x div 10"
      "decodeBCD_from 0 (encodeBCD x) = decodeBCD_from y [bcd_byte (x mod 10) 0x0f]"
      using decode_base100 [of "x div 10" k 0 "[bcd_byte (x mod 10) 0x0f]"] enc by (auto simp: u64_mod10)
    have small: "10 * unat y + unat (x mod 10) < 18446744073709551616"
      using y(1) u64_bound [of x] by (simp add: u64_mod10)
    note t = timesTenPlus_small [OF small]
    have "unat (10 * y + x mod 10) = unat x" using t(2) y(1) by (simp add: u64_mod10)
    then have "10 * y + x mod 10 = x" by (simp add: word_unat_eq_iff)
    moreover have "decodeBCD_from y [bcd_byte (x mod 10) 0x0f] = Inr (10 * y + x mod 10)"
      using u64_mod10_less [of x] t(1) by (simp add: bcd_byte_nibbles Let_def not_less)
    ultimately show ?thesis using y(2) by (simp add: decodeBCD_def)
  next
    case False': False
    define k where "k = ?n div 2"
    have k: "?n = 2 * k" using False' unfolding k_def by presburger
    have enc: "encodeBCD x = base100 k x"
      using False k False' by (simp add: encodeBCD_def Let_def bcd_fill_base100)
    obtain y where "unat y = unat x" "decodeBCD_from 0 (encodeBCD x) = decodeBCD_from y []"
      using decode_base100 [of x k 0 "[]"] enc n(2) k u64_bound [of x] by (auto simp: pow_100_10)
    then show ?thesis by (simp add: decodeBCD_def word_unat_eq_iff)
  qed
qed

section \<open>A reference decoder without overflow\<close>

text \<open>
  The same digits read into a natural number: the value a decoder should return, or the bad
  digit it should report.
\<close>

fun bcd_ref_from :: "nat \<Rightarrow> u8 list \<Rightarrow> fins_error + nat" where
  "bcd_ref_from n [] = Inr n"
| "bcd_ref_from n (b # bs) =
     (let hi = ucast (drop_bit 4 b) :: u64; lo = ucast (b AND 0x0f) :: u64
      in if hi > 9 then Inl (BCDBadDigitError ''hi'' hi)
         else if lo = 0x0f \<and> bs = [] then Inr (10 * n + unat hi)
         else if lo > 9 then Inl (BCDBadDigitError ''lo'' lo)
         else bcd_ref_from (10 * (10 * n + unat hi) + unat lo) bs)"

lemma bcd_ref_from_ge: "bcd_ref_from n bs = Inr m \<Longrightarrow> n \<le> m"
  by (induction bs arbitrary: n) (fastforce simp: Let_def split: if_splits)+

lemma decode_agrees_ref:
  assumes "bcd_ref_from (unat x) bs = Inr m" "m < 18446744073709551616"
  shows "decodeBCD_from x bs = Inr (of_nat m)"
  using assms
proof (induction bs arbitrary: x)
  case Nil
  then have "m = unat x" by simp
  then show ?case by simp
next
  case (Cons b bs)
  let ?hi = "ucast (drop_bit 4 b) :: u64" and ?lo = "ucast (b AND 0x0f) :: u64"
  have hi: "\<not> ?hi > 9" using Cons.prems(1) by (auto simp: Let_def split: if_splits)
  show ?case
  proof (cases "?lo = 0x0f \<and> bs = []")
    case True
    then have m: "m = 10 * unat x + unat ?hi" using Cons.prems(1) hi by (simp add: Let_def)
    have "10 * unat x + unat ?hi < 18446744073709551616" using m Cons.prems(2) by simp
    note t = timesTenPlus_small [OF this]
    have "of_nat m = (of_nat (unat (10 * x + ?hi)) :: u64)" by (simp only: t(2) m)
    then have "of_nat m = 10 * x + ?hi" by (simp only: word_of_nat_eq_iff of_nat_unat ucast_id)
    then show ?thesis using True hi t(1) by (simp add: Let_def)
  next
    case False
    then have lo: "\<not> ?lo > 9" and rest: "bcd_ref_from (10 * (10 * unat x + unat ?hi) + unat ?lo) bs = Inr m"
      using Cons.prems(1) hi by (auto simp: Let_def split: if_splits)
    have le: "10 * (10 * unat x + unat ?hi) + unat ?lo \<le> m" using bcd_ref_from_ge [OF rest] .
    have "10 * unat x + unat ?hi < 18446744073709551616" using le Cons.prems(2) by simp
    note t1 = timesTenPlus_small [OF this]
    have "10 * unat (10 * x + ?hi) + unat ?lo < 18446744073709551616"
      using le Cons.prems(2) t1(2) by simp
    note t2 = timesTenPlus_small [OF this]
    have "decodeBCD_from (10 * (10 * x + ?hi) + ?lo) bs = Inr (of_nat m)"
      using rest t1(2) t2(2) Cons.prems(2) by (intro Cons.IH) simp_all
    then show ?thesis using False hi lo t1(1) t2(1) by (auto simp: Let_def)
  qed
qed

definition bcd_ref :: "u8 list \<Rightarrow> fins_error + nat" where
  "bcd_ref bcd = bcd_ref_from 0 bcd"

text \<open>
  Up to nineteen digits nothing can overflow, and the decoder is the reference, errors included.
\<close>

lemma decode_is_ref:
  assumes "unat x < 10 ^ k" "k + 2 * length bs \<le> 19"
  shows "decodeBCD_from x bs =
    (case bcd_ref_from (unat x) bs of Inl e \<Rightarrow> Inl e | Inr m \<Rightarrow> Inr (of_nat m))"
  using assms
proof (induction bs arbitrary: x k)
  case Nil
  then show ?case by simp
next
  case (Cons b bs)
  let ?hi = "ucast (drop_bit 4 b) :: u64" and ?lo = "ucast (b AND 0x0f) :: u64"
  have k: "k \<le> 17" using Cons.prems(2) by simp
  have "(10 :: nat) ^ k \<le> 10 ^ 17" using k by (intro power_increasing) simp_all
  then have x: "unat x < 10 ^ 17" using Cons.prems(1) by linarith
  show ?case
  proof (cases "?hi > 9")
    case True
    then show ?thesis by (simp add: Let_def)
  next
    case False
    then have hi: "unat ?hi \<le> 9" by (simp add: word_less_nat_alt)
    have "10 * unat x + unat ?hi < 18446744073709551616" using x hi by simp
    note t1 = timesTenPlus_small [OF this]
    consider "?lo = 0x0f \<and> bs = []" | "\<not> (?lo = 0x0f \<and> bs = [])" "?lo > 9"
      | "\<not> (?lo = 0x0f \<and> bs = [])" "\<not> ?lo > 9" by blast
    then show ?thesis
    proof cases
      case 1
      have "of_nat (10 * unat x + unat ?hi) = 10 * x + ?hi" by simp
      with 1 False t1(1) show ?thesis by (simp add: Let_def)
    next
      case 2
      then show ?thesis using False t1(1) by (auto simp: Let_def)
    next
      case 3
      then have lo: "unat ?lo \<le> 9" by (simp add: word_less_nat_alt)
      have "10 * unat (10 * x + ?hi) + unat ?lo < 18446744073709551616" using x hi lo t1(2) by simp
      note t2 = timesTenPlus_small [OF this]
      let ?y = "10 * (10 * x + ?hi) + ?lo"
      have y: "unat ?y = 10 * (10 * unat x + unat ?hi) + unat ?lo" using t1(2) t2(2) by simp
      have "unat ?y < 10 ^ (k + 2)"
        using y hi lo Cons.prems(1) by simp
      moreover have "k + 2 + 2 * length bs \<le> 19" using Cons.prems(2) by simp
      ultimately have "decodeBCD_from ?y bs =
        (case bcd_ref_from (unat ?y) bs of Inl e \<Rightarrow> Inl e | Inr m \<Rightarrow> Inr (of_nat m))"
        by (rule Cons.IH)
      with 3 False t1(1) t2(1) y show ?thesis by (auto simp: Let_def)
    qed
  qed
qed

section \<open>Properties\<close>

text \<open>
  On up to nine bytes the decoder is the reference reading of the digits: the same number, and
  on a bad digit the same error with the same nibble and value.
\<close>

lemma decodeBCD_reference:
  assumes "length bcd \<le> 9"
  shows "decodeBCD bcd = (case bcd_ref bcd of Inl e \<Rightarrow> Inl e | Inr m \<Rightarrow> Inr (of_nat m))"
  using decode_is_ref [of 0 0 bcd] assms by (simp add: decodeBCD_def bcd_ref_def)

lemma decodeBCD_reference_example: "decodeBCD [0x12, 0x3f] = Inr 123 \<and>
    decodeBCD [0x12, 0xa4, 0x5f] = Inl (BCDBadDigitError ''hi'' 10)"
  using decodeBCD_reference [of "[0x12, 0x3f]"] decodeBCD_reference [of "[0x12, 0xa4, 0x5f]"]
  by (simp add: bcd_ref_def)

text \<open>
  The overflow test is exact while five times the accumulator fits in 64 bits: then the step
  returns ten times the accumulator plus the digit, or an overflow error exactly when that does not fit.
\<close>

lemma overflow_test_exact:
  assumes "5 * unat x < 2 ^ 64"
  shows "timesTenPlusCatchingOverflow x digit =
    (if 10 * unat x + unat digit < 2 ^ 64 then Inr (10 * x + digit) else Inl BCDOverflowError)"
  using timesTenPlus_exact [of x digit] assms by simp

lemma overflow_test_exact_example:
  "timesTenPlusCatchingOverflow 1844674407370955161 6 = Inl BCDOverflowError \<and>
   timesTenPlusCatchingOverflow 1844674407370955161 5 = Inr 18446744073709551615"
  using overflow_test_exact [of 1844674407370955161 6] overflow_test_exact [of 1844674407370955161 5] by simp

text \<open>
  Past that bound the test is wrong: the twenty digits of 4 followed by nineteen zeros are a
  number above the 64-bit range, and the decoder returns another number instead of an error.
\<close>

lemma overflow_missed:
  "bcd_ref [0x40, 0, 0, 0, 0, 0, 0, 0, 0, 0] = Inr (4 * 10 ^ 19) \<and>
   decodeBCD [0x40, 0, 0, 0, 0, 0, 0, 0, 0, 0] = Inr 3106511852580896768 \<and> (4 * 10 ^ 19 :: nat) \<ge> 2 ^ 64"
  by (simp add: bcd_ref_def decodeBCD_def timesTenPlusCatchingOverflow_def Let_def)

end
