(* ===== verification/Fins_Handler.thy ===== *)
theory Fins_Handler
  imports Fins_Memory Fins_Bcd
begin

text \<open>
  What \<open>handler\<close> and the service loops do: the shape of every reply, the invariant of the server,
  the reply to each kind of request, and the clock.
\<close>

section \<open>Replies\<close>

definition reply :: "request \<Rightarrow> u16 \<Rightarrow> u8 list \<Rightarrow> response" where
  "reply r ec d = \<lparr>rs_header = defaultResponseHeader (rq_header r), rs_commandCode = rq_commandCode r,
     rs_endCode = ec, rs_data = sl_make d\<rparr>"

lemma reply_simps [simp]:
  "rs_header (reply r ec d) = defaultResponseHeader (rq_header r)"
  "rs_commandCode (reply r ec d) = rq_commandCode r" "rs_endCode (reply r ec d) = ec"
  "rs_data (reply r ec d) = sl_make d"
  by (simp_all add: reply_def)

text \<open>A memory request as the client encodes it: a location, an item count and the items.\<close>

definition memory_request :: "memoryAddress \<Rightarrow> u16 \<Rightarrow> u8 list \<Rightarrow> u8 list" where
  "memory_request ma n items = encodeMemoryAddress ma @ be_put16 n @ items"

lemma memory_request_parts:
  "sl_range (Slice (memory_request ma n items) sp) 0 4 \<bind> decodeMemoryAddress = Some ma"
  "sl_range (Slice (memory_request ma n items) sp) 4 6 \<bind> get16_at be_get16 = Some n"
  using decode_encode_memaddr [of ma "[]"]
  by (simp_all add: memory_request_def go_slice be_put16_def)

lemma memory_request_items:
  "k \<le> length items \<Longrightarrow>
   sl_range (Slice (memory_request ma n items) sp) 6 (6 + k) = Some (Slice (take k items) (drop k items @ sp))"
  by (simp add: memory_request_def go_slice)

lemma word_bit_codes_disjoint: "a \<in> set wordAreaCodes \<Longrightarrow> a \<notin> set bitAreaCodes"
  by (auto simp: wordAreaCodes_def bitAreaCodes_def)

lemma handler_read_words:
  assumes "rq_commandCode r = CommandCodeMemoryAreaRead" "memoryArea ma \<in> set wordAreaCodes"
    and "rq_data r = Slice (memory_request ma n items) sp"
  shows "handler s now r = map_option (\<lambda>(d, ec). (s, reply r ec d)) (readWords s (memoryArea ma) (address ma) n)"
  using assms by (simp add: handler_def memory_request_parts reply_def map_conv_bind_option comp_def
      case_prod_unfold)

lemma handler_read_bits:
  assumes "rq_commandCode r = CommandCodeMemoryAreaRead" "memoryArea ma \<in> set bitAreaCodes"
    and "rq_data r = Slice (memory_request ma n items) sp"
  shows "handler s now r =
    map_option (\<lambda>(d, ec). (s, reply r ec d)) (readBits s (memoryArea ma) (address ma) (bitOffset ma) n)"
proof -
  have "memoryArea ma \<notin> set wordAreaCodes" using assms(2) word_bit_codes_disjoint by blast
  then show ?thesis
    using assms by (simp add: handler_def memory_request_parts reply_def map_conv_bind_option comp_def
        case_prod_unfold)
qed

lemma handler_write_words:
  assumes "rq_commandCode r = CommandCodeMemoryAreaWrite" "memoryArea ma \<in> set wordAreaCodes"
    and "rq_data r = Slice (memory_request ma n items) sp"
    and "length items = 2 * unat n" "6 + 2 * unat n < 65536"
  shows "handler s now r =
    map_option (\<lambda>(s', ec). (s', reply r ec [])) (writeWords s (memoryArea ma) (address ma) n items)"
proof -
  have "unat (n * 2) = unat n * 2" using assms(5) by (subst unat_mult_nowrap) simp_all
  then have "unat (6 + n * 2) = 6 + 2 * unat n" using assms(5) by (subst unat_add_nowrap) simp_all
  then have "sl_range (rq_data r) 6 (unat (6 + n * 2)) = Some (Slice items sp)"
    using assms(3,4) memory_request_items [of "2 * unat n" items ma n sp] by simp
  then show ?thesis
    using assms by (simp add: handler_def memory_request_parts reply_def map_conv_bind_option comp_def
        case_prod_unfold)
qed

lemma handler_write_bits:
  assumes "rq_commandCode r = CommandCodeMemoryAreaWrite" "memoryArea ma \<in> set bitAreaCodes"
    and "rq_data r = Slice (memory_request ma n items) sp"
    and "length items = unat n" "6 + unat n < 65536"
  shows "handler s now r =
    map_option (\<lambda>(s', ec). (s', reply r ec [])) (writeBits s (memoryArea ma) (address ma) (bitOffset ma) n items)"
proof -
  have "unat (6 + n) = 6 + unat n" using assms(5) by (subst unat_add_nowrap) simp_all
  then have "sl_range (rq_data r) 6 (unat (6 + n)) = Some (Slice items sp)"
    using assms(3,4) memory_request_items [of "unat n" items ma n sp] by simp
  moreover have "memoryArea ma \<notin> set wordAreaCodes" using assms(2) word_bit_codes_disjoint by blast
  ultimately show ?thesis
    using assms by (simp add: handler_def memory_request_parts reply_def map_conv_bind_option comp_def
        case_prod_unfold)
qed

lemma handler_clock:
  "rq_commandCode r = CommandCodeClockRead \<Longrightarrow>
   handler s now r = Some (s, reply r EndCodeNormalCompletion (encodeClock now))"
  by (simp add: handler_def reply_def)

lemma handler_unknown:
  "rq_commandCode r \<notin> {CommandCodeMemoryAreaRead, CommandCodeMemoryAreaWrite, CommandCodeClockRead} \<Longrightarrow>
   handler s now r = Some (s, reply r EndCodeNotSupportedByModelVersion [])"
  by (simp add: handler_def reply_def)

text \<open>Every reply swaps the addresses and echoes the service id and the command code.\<close>

lemma bind_SomeE:
  assumes "x \<bind> f = Some z"
  obtains y where "x = Some y" "f y = Some z"
  using assms by (auto simp: Option.bind_eq_Some_conv)

lemma handler_reply_shape:
  assumes "handler s now r = Some (s', resp)"
  shows "\<exists>ec d. resp = reply r ec d"
  using assms unfolding handler_def reply_def by (elim bind_SomeE) (auto split: prod.splits)

section \<open>The invariant\<close>

text \<open>The changes a request can make to the server.\<close>

lemma handler_change:
  assumes "handler s now r = Some (s', resp)"
  obtains (same) "s' = s"
  | (word_write) a ad n p where "writeWords s a ad n p = Some (s', rs_endCode resp)"
  | (bit_write) a ad off n p where "writeBits s a ad off n p = Some (s', rs_endCode resp)"
proof -
  have "s' = s \<or> (\<exists>a ad n p. writeWords s a ad n p = Some (s', rs_endCode resp)) \<or>
    (\<exists>a ad off n p. writeBits s a ad off n p = Some (s', rs_endCode resp))"
  proof (cases "rq_commandCode r = CommandCodeMemoryAreaRead")
    case True
    then show ?thesis
      using assms unfolding handler_def by (auto split: if_splits prod.splits elim!: bind_SomeE)
  next
    case notRead: False
    show ?thesis
    proof (cases "rq_commandCode r = CommandCodeMemoryAreaWrite")
      case False
      then show ?thesis
        using assms notRead unfolding handler_def by (auto split: if_splits)
    next
      case True
      then show ?thesis
        using assms unfolding handler_def by (auto split: if_splits prod.splits elim!: bind_SomeE) blast+
    qed
  qed
  then show thesis using that by blast
qed

lemma handler_keeps_closed:
  assumes "handler s now r = Some (s', resp)"
  shows "closed s' = closed s"
  using assms
proof (cases rule: handler_change)
  case word_write
  then show ?thesis by (auto simp: writeWords_def split: option.splits if_splits elim!: bind_SomeE)
next
  case bit_write
  then show ?thesis by (auto simp: writeBits_def Let_def split: option.splits if_splits elim!: bind_SomeE)
qed simp

lemma handler_ok:
  assumes "server_ok s" and "handler s now r = Some (s', resp)"
  shows "server_ok s'"
  using assms(2)
proof (cases rule: handler_change)
  case word_write
  then show ?thesis using assms(1) writeWords_ok by blast
next
  case bit_write
  then show ?thesis using assms(1) writeBits_ok by blast
qed (use assms(1) in simp)

text \<open>A request that is not answered with a normal completion has not changed the server.\<close>

lemma handler_failed:
  assumes ok: "server_ok s" and h: "handler s now r = Some (s', resp)"
    and ec: "rs_endCode resp \<noteq> EndCodeNormalCompletion"
  shows "s' = s"
  using h
proof (cases rule: handler_change)
  case word_write
  then show ?thesis using ok ec writeWords_failed by blast
next
  case bit_write
  then show ?thesis using ok ec writeBits_failed by blast
qed simp

lemma server_ok_Close: "server_ok (fst (Close e s)) = server_ok s"
  by (simp add: Close_def server_ok_def)

text \<open>One datagram, taken apart.\<close>

lemma udpLoop_datagram:
  assumes "udpLoop s buf (Datagram dgram now werr # evs) = Some (s', buf', out, errs)"
    and "dgram \<noteq> []" "buf \<noteq> []"
  obtains req s1 resp where
    "decodeRequest (Slice (take (length dgram) (go_copy buf dgram)) (drop (length dgram) (go_copy buf dgram))) = Some req"
    "handler s now req = Some (s1, resp)"
    "case werr of
       Some e \<Rightarrow> s' = s1 \<and> buf' = go_copy buf dgram \<and> out = []
     | None \<Rightarrow> \<exists>out'. udpLoop s1 (go_copy buf dgram) evs = Some (s', buf', out', errs) \<and> out = encodeResponse resp # out'"
  using assms
  by (cases werr) (auto simp: udp_receive_def min_def Let_def elim!: bind_SomeE split: if_splits)

lemma udpLoop_ok:
  "server_ok s \<Longrightarrow> udpLoop s buf evs = Some (s', buf', out, errs) \<Longrightarrow> server_ok s' \<and> length buf' = length buf"
proof (induction evs arbitrary: s buf out)
  case (Cons e evs)
  show ?case
  proof (cases e)
    case (Datagram dgram now werr)
    show ?thesis
    proof (cases "dgram = [] \<or> buf = []")
      case True
      then show ?thesis
        using Cons Datagram by (auto simp: udp_receive_def go_copy_def split: if_splits)
    next
      case False
      then have f: "dgram \<noteq> []" "buf \<noteq> []" by simp_all
      obtain req s1 resp where
        "decodeRequest (Slice (take (length dgram) (go_copy buf dgram)) (drop (length dgram) (go_copy buf dgram))) = Some req"
        and h: "handler s now req = Some (s1, resp)" and
        rest: "case werr of
            Some e \<Rightarrow> s' = s1 \<and> buf' = go_copy buf dgram \<and> out = []
          | None \<Rightarrow> \<exists>out'. udpLoop s1 (go_copy buf dgram) evs = Some (s', buf', out', errs) \<and> out = encodeResponse resp # out'"
        by (rule udpLoop_datagram [OF Cons.prems(2) [unfolded Datagram] f])
      have "server_ok s1" using handler_ok [OF Cons.prems(1) h] .
      with rest Cons.IH show ?thesis by (cases werr) fastforce+
    qed
  next
    case DoneSeen
    then show ?thesis using Cons by (auto split: if_splits)
  next
    case Closing
    have "server_ok (fst (Close None s))" using Cons.prems(1) by (simp add: server_ok_Close)
    then show ?thesis using Cons.IH Cons.prems(2) Closing by simp
  qed (use Cons.prems in \<open>auto split: if_splits\<close>)
qed simp

lemma tcp_serve_ok:
  "server_ok s \<Longrightarrow> tcp_serve s fin clk werr k stream = Some (s', out, err) \<Longrightarrow> server_ok s'"
proof (induction s fin clk werr k stream arbitrary: s' out err rule: tcp_serve.induct)
  case (1 s fin clk werr k stream)
  show ?case
  proof (cases "readTCPMessage fin stream")
    case (Inl e)
    then show ?thesis using 1(3,4) by (simp add: tcp_serve.simps [of s])
  next
    case (Inr mr)
    obtain msg rest where mr: "mr = (msg, rest)" by (cases mr)
    note read = Inr [unfolded mr]
    show ?thesis
    proof (cases "tm_command msg = finsTCPDataCommand")
      case False
      then show ?thesis
        using 1(1) [OF read refl False 1(3)] 1(4) read by (simp add: tcp_serve.simps [of s])
    next
      case True
      then obtain req s1 resp where d: "decodeRequest (tm_body msg) = Some req"
        and h: "handler s (clk k) req = Some (s1, resp)"
        and rest: "(case werr k of
             Some e \<Rightarrow> Some (s1, [], if closed s1 then None else Some (Errorf ''write error: %w'' [] (Some e)))
           | None \<Rightarrow> do {
               (s'', out, err) \<leftarrow> tcp_serve s1 fin clk werr (Suc k) rest;
               Some (s'', finsTCPFrame finsTCPDataCommand (encodeResponse resp) @ out, err) }) = Some (s', out, err)"
        using 1(4) read by (auto simp: tcp_serve.simps [of s] elim!: bind_SomeE)
      have ok: "server_ok s1" using handler_ok [OF 1(3) h] .
      show ?thesis
      proof (cases "werr k")
        case None
        then obtain o2 where "tcp_serve s1 fin clk werr (Suc k) (snd mr) = Some (s', o2, err)"
          using rest by (auto simp: mr elim!: bind_SomeE)
        then show ?thesis
          using 1(2) [OF read refl _ d h refl None ok] True by (simp add: mr)
      qed (use rest ok in simp)
    qed
  qed
qed

section \<open>The clock\<close>

lemma bcdByte_nibbles:
  assumes "0 \<le> v" "v < 100"
  shows "bcdByte v = bcd_byte (word_of_int (v div 10)) (word_of_int (v mod 10))"
proof -
  have "bcdByte v = word_of_int (push_bit 4 (v div 10) OR v mod 10)"
    using assms by (simp add: bcdByte_def go_div_nonneg go_mod_nonneg)
  then show ?thesis
    unfolding bcd_byte_def by (simp only:) (rule bit_word_eqI, auto simp: bit_simps)
qed

lemma decode_bcdByte:
  assumes "0 \<le> v" "v < 100"
  shows "decodeBCD [bcdByte v] = Inr (word_of_int v)"
proof -
  let ?hi = "word_of_int (v div 10) :: u64" and ?lo = "word_of_int (v mod 10) :: u64"
  have u: "uint ?hi = v div 10" "uint ?lo = v mod 10"
    using assms by (simp_all add: uint_word_of_int)
  then have n: "unat ?hi = nat (v div 10)" "unat ?lo = nat (v mod 10)"
    by (simp_all add: nat_uint_eq [symmetric] del: nat_uint_eq)
  have small: "nat (v div 10) \<le> 9" "nat (v mod 10) \<le> 9" using assms by auto
  then have le: "?hi \<le> 9" "?lo \<le> 9" using n by (simp_all add: word_le_nat_alt)
  have "decodeBCD [bcdByte v] = Inr (10 * ?hi + ?lo)"
    using decode_pair(1) [of 0 ?hi ?lo "[]"] n small le
    by (simp add: decodeBCD_def bcdByte_nibbles [OF assms])
  also have "10 * ?hi + ?lo = word_of_int (10 * (v div 10) + v mod 10)"
    by (simp only: of_int_add of_int_mult of_int_numeral)
  finally show ?thesis by (simp only: mult_div_mod_eq)
qed

section \<open>One exchange\<close>

text \<open>What both service loops do with the bytes of one request.\<close>

definition serve_frame :: "Server \<Rightarrow> goTime \<Rightarrow> u8 slice \<Rightarrow> (Server \<times> u8 list) option" where
  "serve_frame s now bytes = do {
     req \<leftarrow> decodeRequest bytes;
     (s', resp) \<leftarrow> handler s now req;
     Some (s', encodeResponse resp) }"

lemma udpLoop_serve_frame:
  assumes "dgram \<noteq> []" "length dgram \<le> length buf"
  shows "udpLoop s buf [Datagram dgram now None] =
    map_option (\<lambda>(s', bs). (s', go_copy buf dgram, [bs], []))
      (serve_frame s now (Slice dgram (drop (length dgram) buf)))"
proof -
  have "go_copy buf dgram = dgram @ drop (length dgram) buf"
    using assms(2) by (simp add: go_copy_def)
  then show ?thesis
    using assms by (simp add: udp_receive_def serve_frame_def Let_def min_def map_conv_bind_option comp_def
        case_prod_unfold)
qed

lemma tcp_serve_frame:
  assumes "length frame + 8 < 2 ^ 32" "werr k = None"
  shows "tcp_serve s fin clk werr k (finsTCPFrame finsTCPDataCommand frame @ rest) = do {
    (s1, bs) \<leftarrow> serve_frame s (clk k) (sl_make frame);
    (s2, out, err) \<leftarrow> tcp_serve s1 fin clk werr (Suc k) rest;
    Some (s2, finsTCPFrame finsTCPDataCommand bs @ out, err) }"
  using readTCPMessage_frame [OF assms(1), of fin finsTCPDataCommand rest] assms(2)
  by (simp add: tcp_serve.simps [of s] serve_frame_def case_prod_unfold comp_def)

text \<open>The frames a client sends: a command header and one of the three commands.\<close>

lemma command_requests:
  "readCommand ma n = be_put16 CommandCodeMemoryAreaRead @ memory_request ma n []"
  "writeCommand ma n items = be_put16 CommandCodeMemoryAreaWrite @ memory_request ma n items"
  "clockReadCommand = be_put16 CommandCodeClockRead @ []"
  by (simp_all add: readCommand_def writeCommand_def clockReadCommand_def memory_request_def)

lemma decode_command:
  "decodeRequest (Slice (encodeHeader (defaultCommandHeader a b sid) @ be_put16 cc @ ds) sp) =
     Some \<lparr>rq_header = defaultCommandHeader a b sid, rq_commandCode = cc, rq_data = Slice ds sp\<rparr>"
  using header_wf_defaults(1) [of a b sid] decodeRequest_frame [of "defaultCommandHeader a b sid" cc ds sp]
  by (simp add: header_wf_def)

definition reply_bytes :: "FinsAddress \<Rightarrow> FinsAddress \<Rightarrow> u8 \<Rightarrow> u16 \<Rightarrow> u16 \<Rightarrow> u8 list \<Rightarrow> u8 list" where
  "reply_bytes a b sid cc ec d =
     encodeHeader (defaultResponseHeader (defaultCommandHeader a b sid)) @ be_put16 cc @ be_put16 ec @ d"

lemma encode_reply:
  "rq_header r = defaultCommandHeader a b sid \<Longrightarrow>
   encodeResponse (reply r ec d) = reply_bytes a b sid (rq_commandCode r) ec d"
  by (simp add: encodeResponse_def reply_bytes_def)

lemma serve_read_words:
  assumes "memoryArea ma \<in> set wordAreaCodes"
  shows "serve_frame s now (Slice (encodeHeader (defaultCommandHeader a b sid) @ readCommand ma n) sp) =
    map_option (\<lambda>(d, ec). (s, reply_bytes a b sid CommandCodeMemoryAreaRead ec d))
      (readWords s (memoryArea ma) (address ma) n)"
  using assms
  by (simp add: serve_frame_def command_requests decode_command handler_read_words [of _ ma n "[]" sp]
      encode_reply map_conv_bind_option comp_def case_prod_unfold)

lemma serve_read_bits:
  assumes "memoryArea ma \<in> set bitAreaCodes"
  shows "serve_frame s now (Slice (encodeHeader (defaultCommandHeader a b sid) @ readCommand ma n) sp) =
    map_option (\<lambda>(d, ec). (s, reply_bytes a b sid CommandCodeMemoryAreaRead ec d))
      (readBits s (memoryArea ma) (address ma) (bitOffset ma) n)"
  using assms
  by (simp add: serve_frame_def command_requests decode_command handler_read_bits [of _ ma n "[]" sp]
      encode_reply map_conv_bind_option comp_def case_prod_unfold)

lemma serve_write_words:
  assumes "memoryArea ma \<in> set wordAreaCodes" "length items = 2 * unat n" "6 + 2 * unat n < 65536"
  shows "serve_frame s now (Slice (encodeHeader (defaultCommandHeader a b sid) @ writeCommand ma n items) sp) =
    map_option (\<lambda>(s', ec). (s', reply_bytes a b sid CommandCodeMemoryAreaWrite ec []))
      (writeWords s (memoryArea ma) (address ma) n items)"
  using assms
  by (simp add: serve_frame_def command_requests decode_command handler_write_words [of _ ma n items sp]
      encode_reply map_conv_bind_option comp_def case_prod_unfold)

lemma serve_write_bits:
  assumes "memoryArea ma \<in> set bitAreaCodes" "length items = unat n" "6 + unat n < 65536"
  shows "serve_frame s now (Slice (encodeHeader (defaultCommandHeader a b sid) @ writeCommand ma n items) sp) =
    map_option (\<lambda>(s', ec). (s', reply_bytes a b sid CommandCodeMemoryAreaWrite ec []))
      (writeBits s (memoryArea ma) (address ma) (bitOffset ma) n items)"
  using assms
  by (simp add: serve_frame_def command_requests decode_command handler_write_bits [of _ ma n items sp]
      encode_reply map_conv_bind_option comp_def case_prod_unfold)

lemma serve_clock:
  "serve_frame s now (Slice (encodeHeader (defaultCommandHeader a b sid) @ clockReadCommand) sp) =
    Some (s, reply_bytes a b sid CommandCodeClockRead EndCodeNormalCompletion (encodeClock now))"
  unfolding clockReadCommand_def
  using decode_command [of a b sid CommandCodeClockRead "[]" sp]
  by (simp add: serve_frame_def handler_clock encode_reply)

text \<open>What the client decodes from a reply.\<close>

lemma decode_reply_bytes:
  "decodeResponse (Slice (reply_bytes a b sid cc ec d) sp) =
     Some \<lparr>rs_header = defaultResponseHeader (defaultCommandHeader a b sid), rs_commandCode = cc,
           rs_endCode = ec, rs_data = Slice d sp\<rparr>"
  using decodeResponse_encode [of "\<lparr>rs_header = defaultResponseHeader (defaultCommandHeader a b sid),
      rs_commandCode = cc, rs_endCode = ec, rs_data = sl_make d\<rparr>" sp]
    header_wf_defaults(2) [of "defaultCommandHeader a b sid"]
  by (simp add: encodeResponse_def reply_bytes_def header_wf_def)

text \<open>
  A client that connects over TCP and the simulator that accepts it agree: the server takes the
  client's handshake and serves what follows, the client takes the server's and finds the replies.
\<close>

lemma tcp_connect:
  assumes "tcp_serve s fin clk werr 0 data = Some (s', out, err)"
  shows "\<exists>sent reply. newTCPTransport None None None fin' (reply @ out) = Inr (sent, out) \<and>
    handleTCPConn s fin clk None werr (sent @ data) = Some (s', reply @ out, err)"
proof -
  let ?hs = "finsTCPFrame finsTCPHandshakeCommand []"
  have "readTCPMessage f (?hs @ rest) =
      Inr (\<lparr>tm_command = finsTCPHandshakeCommand, tm_errorCode = 0, tm_body = sl_make []\<rparr>, rest)" for f rest
    by (rule readTCPMessage_frame) simp
  then show ?thesis
    using assms
    by (intro exI [of _ ?hs]) (simp add: newTCPTransport_def handshake_def writeFrame_def readFrame_eq_readTCPMessage handleTCPConn_def)
qed

section \<open>Properties\<close>

text \<open>
  C25: the simulator's invariant.  Whatever datagrams arrive, well-formed or not, and in whatever
  order with failing reads, a close and the end of the loop, as long as the loop does not panic the areas keep their
  names and sizes and the receive buffer its length.
\<close>

theorem udp_server_invariant:
  assumes "server_ok s" "udpLoop s buf evs = Some (s', buf', out, errs)"
  shows "server_ok s' \<and> length buf' = length buf"
  using udpLoop_ok [OF assms] by blast

text \<open>
  Over TCP the invariant holds too, for every byte stream a peer may send after the handshake.
\<close>

lemma tcp_server_invariant:
  assumes "server_ok s" "tcp_serve s fin clk werr k stream = Some (s', out, err)"
  shows "server_ok s'"
  using assms by (rule tcp_serve_ok)

lemma clock_exchange:
  assumes "server_ok s"
  shows "udpLoop s (replicate SERVER_BUFFER_SIZE 0) [Datagram (encodeHeader (defaultCommandHeader a b sid) @ clockReadCommand) t None] =
    Some (s, go_copy (replicate SERVER_BUFFER_SIZE 0) (encodeHeader (defaultCommandHeader a b sid) @ clockReadCommand),
      [reply_bytes a b sid CommandCodeClockRead EndCodeNormalCompletion (encodeClock t)], [])"
  using assms serve_clock
  by (subst udpLoop_serve_frame) simp_all

definition leap_day :: goTime where
  "leap_day = \<lparr>Year = 2024, Month = 2, Day = 29, Hour = 1, Minute = 2, Second = 3\<rparr>"

theorem udp_server_invariant_witness:
  "\<exists>s s' buf' out. NewPLCSimulator transportUDP False None = Inr s \<and>
     udpLoop s (replicate SERVER_BUFFER_SIZE 0) [Datagram (encodeHeader (defaultCommandHeader
        \<lparr>Network = 0, Node = 2, Unit = 0\<rparr> \<lparr>Network = 0, Node = 3, Unit = 0\<rparr> 1) @ clockReadCommand) leap_day None] =
       Some (s', buf', out, []) \<and> server_ok s' \<and> length buf' = length (replicate SERVER_BUFFER_SIZE (0 :: u8))"
proof -
  obtain s where s: "NewPLCSimulator transportUDP False None = Inr s" "server_ok s" "\<not> closed s"
    using simulator_exists by blast
  note run = clock_exchange [OF s(2), of "\<lparr>Network = 0, Node = 2, Unit = 0\<rparr>" "\<lparr>Network = 0, Node = 3, Unit = 0\<rparr>" 1 leap_day]
  show ?thesis
    using s(1) run udp_server_invariant [OF s(2) run] by blast
qed

lemma tcp_server_invariant_example:
  "\<exists>s s' err. NewPLCSimulator transportUDP False None = Inr s \<and>
     tcp_serve s EOF (\<lambda>_. leap_day) (\<lambda>_. None) 0 [1, 2, 3] = Some (s', [], err) \<and> server_ok s'"
proof -
  obtain s where s: "NewPLCSimulator transportUDP False None = Inr s" "server_ok s" using simulator_exists by blast
  have run: "tcp_serve s EOF (\<lambda>_. leap_day) (\<lambda>_. None) 0 [1, 2, 3] =
      Some (s, [], if closed s then None else Some (Errorf ''read error: %w'' [] (Some (IOError UnexpectedEOF))))"
    by (simp add: tcp_serve.simps [of s] readTCPMessage_def ReadFull_def)
  then show ?thesis using s(1) tcp_server_invariant [OF s(2) run] by blast
qed

text \<open>
  C26: a request that is not answered with a normal completion leaves the simulator as it was, and
  every answer carries the service id and the command code of its request with the addresses swapped.
\<close>

theorem failed_request_changes_nothing:
  assumes "server_ok s" "handler s now r = Some (s', resp)"
  shows "(rs_endCode resp = EndCodeNormalCompletion \<or> s' = s) \<and>
    rs_header resp = defaultResponseHeader (rq_header r) \<and> rs_commandCode resp = rq_commandCode r"
  using handler_failed [OF assms] handler_reply_shape [OF assms(2)] by auto

theorem failed_request_changes_nothing_witness:
  "\<exists>s r. NewPLCSimulator transportUDP False None = Inr s \<and>
     rq_commandCode r = 0x0501 \<and> handler s leap_day r = Some (s, reply r EndCodeNotSupportedByModelVersion [])"
proof -
  let ?r = "\<lparr>rq_header = defaultCommandHeader \<lparr>Network = 0, Node = 2, Unit = 0\<rparr> \<lparr>Network = 0, Node = 3, Unit = 0\<rparr> 7,
    rq_commandCode = 0x0501, rq_data = sl_make []\<rparr>"
  obtain s where s: "NewPLCSimulator transportUDP False None = Inr s" "server_ok s" using simulator_exists by blast
  have h: "handler s leap_day ?r = Some (s, reply ?r EndCodeNotSupportedByModelVersion [])"
    by (rule handler_unknown) simp
  have "rs_commandCode (reply ?r EndCodeNotSupportedByModelVersion []) = rq_commandCode ?r"
    using failed_request_changes_nothing [OF s(2) h] by simp
  then show ?thesis using s(1) h by (intro exI [of _ s] exI [of _ ?r]) simp
qed

end
