(* ===== verification/Fins_Access.thy ===== *)
theory Fins_Access
  imports Fins_Handler
begin

text \<open>
  The four memory operations of \<open>server.go\<close> at the grain of their lock \<open>memMu\<close>: what each of them
  decides before it takes the lock, and the copy it makes byte by byte while it holds it.  A whole
  operation is the decision followed by the copy done at once (\<open>perform\<close>); the theory on connections
  shows that the lock makes the copies look that way whatever the interleaving.
\<close>

section \<open>Before the lock\<close>

datatype area_kind = WordArea | BitArea

text \<open>
  A copy out of, or into, the range \<open>[lo, hi)\<close> of an area.  \<open>Copy_out\<close> is
  \<open>append([]byte(nil), buf[lo:hi]...)\<close>, \<open>Copy_in\<close> is \<open>copy(buf[lo:hi], payload)\<close>.
\<close>

datatype access =
    Copy_out area_kind u8 nat nat
  | Copy_in area_kind u8 nat nat "u8 list"

fun area_of :: "area_kind \<Rightarrow> Server \<Rightarrow> u8 \<rightharpoonup> u8 list" where
  "area_of WordArea s = wordAreas s"
| "area_of BitArea s = bitAreas s"

fun put_area :: "area_kind \<Rightarrow> u8 \<Rightarrow> u8 list \<Rightarrow> Server \<Rightarrow> Server" where
  "put_area WordArea a buf s = s\<lparr>wordAreas := (wordAreas s)(a \<mapsto> buf)\<rparr>"
| "put_area BitArea a buf s = s\<lparr>bitAreas := (bitAreas s)(a \<mapsto> buf)\<rparr>"

text \<open>The checks of \<open>readWords\<close> and \<open>writeWords\<close>: an end code, or the range to copy.\<close>

definition word_range :: "Server \<Rightarrow> u8 \<Rightarrow> u16 \<Rightarrow> u16 \<Rightarrow> u16 + nat \<times> nat" where
  "word_range s area addr count =
     (if wordAreas s area = None then Inl EndCodeNotSupportedByModelVersion
      else if addr + count * 2 > of_nat DM_AREA_SIZE then Inl EndCodeAddressRangeExceeded
      else Inr (unat addr, unat (addr + count * 2)))"

text \<open>The checks of \<open>readBits\<close> and \<open>writeBits\<close>.\<close>

definition bit_range :: "Server \<Rightarrow> u8 \<Rightarrow> u16 \<Rightarrow> u8 \<Rightarrow> u16 \<Rightarrow> u16 + nat \<times> nat" where
  "bit_range s area addr off count =
     (if bitAreas s area = None then Inl EndCodeNotSupportedByModelVersion
      else let start = addr + ucast off in
        if start + count > of_nat DM_AREA_SIZE then Inl EndCodeAddressRangeExceeded
        else Inr (unat start, unat (start + count)))"

text \<open>
  How far \<open>handler\<close> gets on its own: the answer when the memory is not touched, or the copy to make
  under the lock, whose answer is a normal completion.
\<close>

datatype handler_plan = Answer "u8 list" u16 | Needs access

fun plan_range :: "(nat \<Rightarrow> nat \<Rightarrow> access) \<Rightarrow> u16 + nat \<times> nat \<Rightarrow> handler_plan" where
  "plan_range f (Inl ec) = Answer [] ec"
| "plan_range f (Inr (lo, hi)) = Needs (f lo hi)"

definition handler_prepare :: "Server \<Rightarrow> goTime \<Rightarrow> request \<Rightarrow> handler_plan option" where
  "handler_prepare s now r =
     (if rq_commandCode r = CommandCodeMemoryAreaRead \<or> rq_commandCode r = CommandCodeMemoryAreaWrite
      then do {
        ma \<leftarrow> sl_range (rq_data r) 0 4 \<bind> decodeMemoryAddress;
        ic \<leftarrow> sl_range (rq_data r) 4 6 \<bind> get16_at be_get16;
        if memoryArea ma \<in> set wordAreaCodes
        then (if rq_commandCode r = CommandCodeMemoryAreaRead
              then Some (plan_range (Copy_out WordArea (memoryArea ma))
                           (word_range s (memoryArea ma) (address ma) ic))
              else do { p \<leftarrow> sl_range (rq_data r) 6 (unat (6 + ic * 2));
                        Some (plan_range (\<lambda>lo hi. Copy_in WordArea (memoryArea ma) lo hi (elems p))
                                (word_range s (memoryArea ma) (address ma) ic)) })
        else if memoryArea ma \<in> set bitAreaCodes
        then (if rq_commandCode r = CommandCodeMemoryAreaRead
              then Some (plan_range (Copy_out BitArea (memoryArea ma))
                           (bit_range s (memoryArea ma) (address ma) (bitOffset ma) ic))
              else do { p \<leftarrow> sl_range (rq_data r) 6 (unat (6 + ic));
                        Some (plan_range (\<lambda>lo hi. Copy_in BitArea (memoryArea ma) lo hi (elems p))
                                (bit_range s (memoryArea ma) (address ma) (bitOffset ma) ic)) })
        else Some (Answer [] EndCodeNotSupportedByModelVersion) }
      else if rq_commandCode r = CommandCodeClockRead
      then Some (Answer (encodeClock now) EndCodeNormalCompletion)
      else Some (Answer [] EndCodeNotSupportedByModelVersion))"

section \<open>A whole operation\<close>

text \<open>The copy done at once; \<open>None\<close> is the panic of the slice expression.\<close>

fun perform :: "Server \<Rightarrow> access \<Rightarrow> (Server \<times> u8 list) option" where
  "perform s (Copy_out k a lo hi) = do {
     buf \<leftarrow> area_of k s a; d \<leftarrow> sl_range (sl_make buf) lo hi; Some (s, elems d) }"
| "perform s (Copy_in k a lo hi p) = do {
     buf \<leftarrow> area_of k s a; _ \<leftarrow> sl_range (sl_make buf) lo hi;
     Some (put_area k a (copy_at buf lo hi p) s, []) }"

lemma readWords_perform:
  "readWords s a addr n = (case word_range s a addr n of Inl ec \<Rightarrow> Some ([], ec)
     | Inr (lo, hi) \<Rightarrow> map_option (\<lambda>(_, d). (d, EndCodeNormalCompletion)) (perform s (Copy_out WordArea a lo hi)))"
  by (auto simp: readWords_def word_range_def map_conv_bind_option split: option.splits)

lemma writeWords_perform:
  "writeWords s a addr n p = (case word_range s a addr n of Inl ec \<Rightarrow> Some (s, ec)
     | Inr (lo, hi) \<Rightarrow> map_option (\<lambda>(s', _). (s', EndCodeNormalCompletion)) (perform s (Copy_in WordArea a lo hi p)))"
  by (auto simp: writeWords_def word_range_def map_conv_bind_option split: option.splits)

lemma readBits_perform:
  "readBits s a addr off n = (case bit_range s a addr off n of Inl ec \<Rightarrow> Some ([], ec)
     | Inr (lo, hi) \<Rightarrow> map_option (\<lambda>(_, d). (d, EndCodeNormalCompletion)) (perform s (Copy_out BitArea a lo hi)))"
  by (auto simp: readBits_def bit_range_def Let_def map_conv_bind_option split: option.splits)

lemma writeBits_perform:
  "writeBits s a addr off n p = (case bit_range s a addr off n of Inl ec \<Rightarrow> Some (s, ec)
     | Inr (lo, hi) \<Rightarrow> map_option (\<lambda>(s', _). (s', EndCodeNormalCompletion)) (perform s (Copy_in BitArea a lo hi p)))"
  by (auto simp: writeBits_def bit_range_def Let_def map_conv_bind_option split: option.splits)

text \<open>The handler is its preparation followed by the copy.\<close>

definition finish_handler :: "Server \<Rightarrow> request \<Rightarrow> handler_plan \<Rightarrow> (Server \<times> response) option" where
  "finish_handler s r pl = (case pl of
     Answer d ec \<Rightarrow> Some (s, reply r ec d)
   | Needs acc \<Rightarrow> map_option (\<lambda>(s', d). (s', reply r EndCodeNormalCompletion d)) (perform s acc))"

lemma finish_plan_range:
  "finish_handler s r (plan_range f x) = (case x of Inl ec \<Rightarrow> Some (s, reply r ec [])
     | Inr (lo, hi) \<Rightarrow> map_option (\<lambda>(s', d). (s', reply r EndCodeNormalCompletion d)) (perform s (f lo hi)))"
  by (auto simp: finish_handler_def split: sum.splits)

lemma handler_prepare_finish:
  "handler s now r = handler_prepare s now r \<bind> finish_handler s r"
proof -
  let ?mem = "rq_commandCode r = CommandCodeMemoryAreaRead \<or> rq_commandCode r = CommandCodeMemoryAreaWrite"
  note ops = readWords_perform writeWords_perform readBits_perform writeBits_perform
  show ?thesis
  proof (cases ?mem)
    case False
    then show ?thesis by (auto simp: handler_def handler_prepare_def finish_handler_def reply_def)
  next
    case True
    show ?thesis
    proof (cases "sl_range (rq_data r) 0 4 \<bind> decodeMemoryAddress")
      case None
      with True show ?thesis by (simp add: handler_def handler_prepare_def)
    next
      case (Some ma)
      note ma = this
      show ?thesis
      proof (cases "sl_range (rq_data r) 4 6 \<bind> get16_at be_get16")
        case None
        with True ma show ?thesis by (simp add: handler_def handler_prepare_def)
      next
        case (Some ic)
        show ?thesis
          unfolding handler_def handler_prepare_def ma Some bind.bind_lunit if_P [OF True] ops
          by (cases "word_range s (memoryArea ma) (address ma) ic";
              cases "bit_range s (memoryArea ma) (address ma) (bitOffset ma) ic";
              cases "sl_range (rq_data r) 6 (unat (6 + ic * 2))"; cases "sl_range (rq_data r) 6 (unat (6 + ic))")
             (auto simp: finish_handler_def reply_def map_conv_bind_option case_prod_unfold comp_def
               split: option.split)
      qed
    qed
  qed
qed

end
