(* ===== verification/Fins_Conns.thy ===== *)
theory Fins_Conns
  imports Fins_Access
begin

text \<open>
  The TCP simulator as the goroutines it is made of: \<open>tcpAcceptLoop\<close>, one \<open>handleTCPConn\<close> per
  connection, the operations of in-process clients, and the application that calls \<open>Close\<close> and
  receives from \<open>Err()\<close>.  They share the memory under \<open>memMu\<close> and the channel \<open>errChan\<close>.  A run is
  a list of actions, one goroutine moving per action, so every interleaving is a run.
\<close>

section \<open>A copy under the lock\<close>

text \<open>
  \<open>AtLock\<close>: about to call \<open>RLock\<close> or \<open>Lock\<close>; \<open>Reading\<close> and \<open>Storing\<close>: the bytes copied so far, with
  the lock held; \<open>Unlocked\<close>: after the unlock, with the bytes read.
\<close>

datatype copy_pc =
    AtLock access
  | Reading area_kind u8 nat nat "u8 list"
  | Storing area_kind u8 nat nat "u8 list" nat
  | Unlocked "u8 list"

fun is_storing :: "copy_pc \<Rightarrow> bool" where
  "is_storing (Storing k a lo hi p n) = True"
| "is_storing _ = False"

fun is_holding :: "copy_pc \<Rightarrow> bool" where
  "is_holding (Storing k a lo hi p n) = True"
| "is_holding (Reading k a lo hi acc) = True"
| "is_holding _ = False"

datatype copy_outcome = CopyWaits | CopyPanics | CopyGoes Server copy_pc

text \<open>
  \<open>sync.RWMutex\<close> as documented: \<open>RLock\<close> waits while a writer holds the lock (\<open>writing\<close>), \<open>Lock\<close> while
  anybody does (\<open>held\<close>).  The slice expression is evaluated with the lock held.
\<close>

fun copy_step :: "bool \<Rightarrow> bool \<Rightarrow> Server \<Rightarrow> copy_pc \<Rightarrow> copy_outcome" where
  "copy_step writing held s (AtLock (Copy_out k a lo hi)) =
     (if writing then CopyWaits
      else case area_of k s a \<bind> (\<lambda>buf. sl_range (sl_make buf) lo hi) of
          None \<Rightarrow> CopyPanics | Some _ \<Rightarrow> CopyGoes s (Reading k a lo hi []))"
| "copy_step writing held s (AtLock (Copy_in k a lo hi p)) =
     (if held then CopyWaits
      else case area_of k s a \<bind> (\<lambda>buf. sl_range (sl_make buf) lo hi) of
          None \<Rightarrow> CopyPanics | Some _ \<Rightarrow> CopyGoes s (Storing k a lo hi p 0))"
| "copy_step writing held s (Reading k a lo hi acc) =
     (if length acc < hi - lo
      then CopyGoes s (Reading k a lo hi (acc @ [the (area_of k s a) ! (lo + length acc)]))
      else CopyGoes s (Unlocked acc))"
| "copy_step writing held s (Storing k a lo hi p n) =
     (if n < min (hi - lo) (length p)
      then CopyGoes (put_area k a ((the (area_of k s a))[lo + n := p ! n]) s) (Storing k a lo hi p (Suc n))
      else CopyGoes s (Unlocked []))"
| "copy_step writing held s (Unlocked d) = CopyWaits"

section \<open>In-process operations\<close>

text \<open>What the invokers of an \<open>InlineClient\<close> call on the server.\<close>

datatype mem_call =
    Call_readWords u8 u16 u16
  | Call_writeWords u8 u16 u16 "u8 list"
  | Call_readBits u8 u16 u8 u16
  | Call_writeBits u8 u16 u8 u16 "u8 list"

fun prepare_call :: "Server \<Rightarrow> mem_call \<Rightarrow> handler_plan" where
  "prepare_call s (Call_readWords a addr n) = plan_range (Copy_out WordArea a) (word_range s a addr n)"
| "prepare_call s (Call_writeWords a addr n p) =
     plan_range (\<lambda>lo hi. Copy_in WordArea a lo hi p) (word_range s a addr n)"
| "prepare_call s (Call_readBits a addr off n) = plan_range (Copy_out BitArea a) (bit_range s a addr off n)"
| "prepare_call s (Call_writeBits a addr off n p) =
     plan_range (\<lambda>lo hi. Copy_in BitArea a lo hi p) (bit_range s a addr off n)"

text \<open>The call as a whole, with the bytes read (none for a write) and the end code.\<close>

fun run_call :: "Server \<Rightarrow> mem_call \<Rightarrow> (Server \<times> u8 list \<times> u16) option" where
  "run_call s (Call_readWords a addr n) = map_option (\<lambda>(d, ec). (s, d, ec)) (readWords s a addr n)"
| "run_call s (Call_writeWords a addr n p) = map_option (\<lambda>(s', ec). (s', [], ec)) (writeWords s a addr n p)"
| "run_call s (Call_readBits a addr off n) = map_option (\<lambda>(d, ec). (s, d, ec)) (readBits s a addr off n)"
| "run_call s (Call_writeBits a addr off n p) =
     map_option (\<lambda>(s', ec). (s', [], ec)) (writeBits s a addr off n p)"

section \<open>Goroutines\<close>

datatype go_pc =
    AwaitHandshake
  | SendHandshake
  | AwaitRequest
  | InHandler goTime request copy_pc
  | SendReply "u8 list"
  | ReportError fins_error
  | Finished
  | InlineOp mem_call copy_pc
  | InlineDone mem_call "u8 list" u16

text \<open>
  A connection: all the bytes its peer sends (\<open>g_arrived\<close>), those not read yet (\<open>g_stream\<close>), the
  error the reader meets when they run out, and the bytes written back.
\<close>

record goroutine =
  g_pc :: go_pc
  g_arrived :: "u8 list"
  g_stream :: "u8 list"
  g_fin :: io_error
  g_sent :: "u8 list"

fun copy_of :: "go_pc \<Rightarrow> copy_pc option" where
  "copy_of (InHandler now r p) = Some p"
| "copy_of (InlineOp call p) = Some p"
| "copy_of _ = None"

definition storing :: "goroutine \<Rightarrow> bool" where
  "storing g = (case copy_of (g_pc g) of Some p \<Rightarrow> is_storing p | None \<Rightarrow> False)"

definition holding :: "goroutine \<Rightarrow> bool" where
  "holding g = (case copy_of (g_pc g) of Some p \<Rightarrow> is_holding p | None \<Rightarrow> False)"

datatype go_outcome = GoWaits | GoPanics | GoMoves Server goroutine | GoReports fins_error goroutine

text \<open>An error is reported unless the server is closed; either way the goroutine returns.\<close>

definition fails_with :: "Server \<Rightarrow> string \<Rightarrow> fins_error \<Rightarrow> go_pc" where
  "fails_with s msg e = (if IsClosed s then Finished else ReportError (Errorf msg [] (Some e)))"

definition data_frame :: "response \<Rightarrow> u8 list" where
  "data_frame resp = finsTCPFrame finsTCPDataCommand (encodeResponse resp)"

text \<open>
  One step of a goroutine: the service loop of \<open>handleTCPConn\<close>, its handshake, the memory copy in the
  handler.  \<open>now\<close> is the time of day, \<open>werr\<close> the outcome of a write to the connection; \<open>room\<close> and
  \<open>chClosed\<close> describe \<open>errChan\<close>.  Sending on a closed channel panics.
\<close>

definition go_step ::
    "Server \<Rightarrow> bool \<Rightarrow> bool \<Rightarrow> bool \<Rightarrow> bool \<Rightarrow> goTime \<Rightarrow> fins_error option \<Rightarrow> goroutine \<Rightarrow> go_outcome" where
  "go_step s writing held room chClosed now werr g =
     (case g_pc g of
        AwaitHandshake \<Rightarrow>
          (case readTCPMessage (g_fin g) (g_stream g) of
             Inl e \<Rightarrow> GoMoves s (g\<lparr>g_pc := fails_with s ''handshake read error: %w'' e\<rparr>)
           | Inr (msg, rest) \<Rightarrow> GoMoves s (g\<lparr>g_stream := rest,
               g_pc := if tm_command msg \<noteq> finsTCPHandshakeCommand then Finished else SendHandshake\<rparr>))
      | SendHandshake \<Rightarrow>
          (case werr of
             Some e \<Rightarrow> GoMoves s (g\<lparr>g_pc := fails_with s ''handshake write error: %w'' e\<rparr>)
           | None \<Rightarrow> GoMoves s (g\<lparr>g_sent := g_sent g @ finsTCPFrame finsTCPHandshakeCommand [],
               g_pc := AwaitRequest\<rparr>))
      | AwaitRequest \<Rightarrow>
          (case readTCPMessage (g_fin g) (g_stream g) of
             Inl e \<Rightarrow> GoMoves s (g\<lparr>g_pc := fails_with s ''read error: %w'' e\<rparr>)
           | Inr (msg, rest) \<Rightarrow>
               if tm_command msg \<noteq> finsTCPDataCommand then GoMoves s (g\<lparr>g_stream := rest\<rparr>)
               else (case decodeRequest (tm_body msg) of
                   None \<Rightarrow> GoPanics
                 | Some r \<Rightarrow>
                     (case handler_prepare s now r of
                        None \<Rightarrow> GoPanics
                      | Some (Answer d ec) \<Rightarrow>
                          GoMoves s (g\<lparr>g_stream := rest, g_pc := SendReply (data_frame (reply r ec d))\<rparr>)
                      | Some (Needs acc) \<Rightarrow>
                          GoMoves s (g\<lparr>g_stream := rest, g_pc := InHandler now r (AtLock acc)\<rparr>))))
      | InHandler now' r (Unlocked d) \<Rightarrow>
          GoMoves s (g\<lparr>g_pc := SendReply (data_frame (reply r EndCodeNormalCompletion d))\<rparr>)
      | InHandler now' r p \<Rightarrow>
          (case copy_step writing held s p of
             CopyWaits \<Rightarrow> GoWaits | CopyPanics \<Rightarrow> GoPanics
           | CopyGoes s' p' \<Rightarrow> GoMoves s' (g\<lparr>g_pc := InHandler now' r p'\<rparr>))
      | SendReply bs \<Rightarrow>
          (case werr of
             Some e \<Rightarrow> GoMoves s (g\<lparr>g_pc := fails_with s ''write error: %w'' e\<rparr>)
           | None \<Rightarrow> GoMoves s (g\<lparr>g_sent := g_sent g @ bs, g_pc := AwaitRequest\<rparr>))
      | ReportError e \<Rightarrow>
          if chClosed then GoPanics
          else if room then GoReports e (g\<lparr>g_pc := Finished\<rparr>) else GoWaits
      | Finished \<Rightarrow> GoWaits
      | InlineOp call (Unlocked d) \<Rightarrow> GoMoves s (g\<lparr>g_pc := InlineDone call d EndCodeNormalCompletion\<rparr>)
      | InlineOp call p \<Rightarrow>
          (case copy_step writing held s p of
             CopyWaits \<Rightarrow> GoWaits | CopyPanics \<Rightarrow> GoPanics
           | CopyGoes s' p' \<Rightarrow> GoMoves s' (g\<lparr>g_pc := InlineOp call p'\<rparr>))
      | InlineDone call d ec \<Rightarrow> GoWaits)"

section \<open>The simulator\<close>

datatype accept_pc = Accepting | AcceptReport fins_error | AcceptEnded

record sim =
  m_srv :: Server
  m_gos :: "goroutine list"
  m_accept :: accept_pc
  m_errs :: "fins_error list"
  m_errClosed :: bool
  m_panicked :: bool

abbreviation ERROR_CHANNEL_BUFFER :: nat where "ERROR_CHANNEL_BUFFER \<equiv> 1"

definition sim_init :: "Server \<Rightarrow> sim" where
  "sim_init s = \<lparr>m_srv = s, m_gos = [], m_accept = Accepting, m_errs = [], m_errClosed = False, m_panicked = False\<rparr>"

definition new_conn :: "u8 list \<Rightarrow> io_error \<Rightarrow> goroutine" where
  "new_conn bs fin = \<lparr>g_pc = AwaitHandshake, g_arrived = bs, g_stream = bs, g_fin = fin, g_sent = []\<rparr>"

definition new_inline :: "Server \<Rightarrow> mem_call \<Rightarrow> goroutine" where
  "new_inline s call =
     \<lparr>g_pc = (case prepare_call s call of Answer d ec \<Rightarrow> InlineDone call d ec | Needs acc \<Rightarrow> InlineOp call (AtLock acc)),
      g_arrived = [], g_stream = [], g_fin = EOF, g_sent = []\<rparr>"

text \<open>
  \<open>AcceptConn\<close>: \<open>AcceptTCP\<close> returns a connection whose peer will send these bytes.  \<open>AcceptFails\<close>: it
  fails, as it does once the listener is closed.  \<open>AcceptGoes\<close>: the accept loop, having failed on an
  open server, sends its error, and its deferred \<open>close(s.errChan)\<close> runs.
\<close>

datatype sim_action =
    AcceptConn "u8 list" io_error
  | AcceptFails fins_error
  | AcceptGoes
  | CloseServer
  | ReceiveErr
  | InlineCall mem_call
  | Go nat goTime "fins_error option"

definition sim_go :: "sim \<Rightarrow> nat \<Rightarrow> goTime \<Rightarrow> fins_error option \<Rightarrow> sim option" where
  "sim_go m i now werr =
     (if i < length (m_gos m)
      then case go_step (m_srv m) (list_ex storing (m_gos m)) (list_ex holding (m_gos m))
                  (length (m_errs m) < ERROR_CHANNEL_BUFFER) (m_errClosed m) now werr (m_gos m ! i) of
          GoWaits \<Rightarrow> None
        | GoPanics \<Rightarrow> Some (m\<lparr>m_panicked := True\<rparr>)
        | GoMoves s' g \<Rightarrow> Some (m\<lparr>m_srv := s', m_gos := (m_gos m)[i := g]\<rparr>)
        | GoReports e g \<Rightarrow> Some (m\<lparr>m_gos := (m_gos m)[i := g], m_errs := m_errs m @ [e]\<rparr>)
      else None)"

fun sim_act :: "sim \<Rightarrow> sim_action \<Rightarrow> sim option" where
  "sim_act m (AcceptConn bs fin) =
     (if m_accept m = Accepting then Some (m\<lparr>m_gos := m_gos m @ [new_conn bs fin]\<rparr>) else None)"
| "sim_act m (AcceptFails e) =
     (if m_accept m = Accepting
      then if IsClosed (m_srv m) then Some (m\<lparr>m_accept := AcceptEnded, m_errClosed := True\<rparr>)
           else Some (m\<lparr>m_accept := AcceptReport (Errorf ''accept error: %w'' [] (Some e))\<rparr>)
      else None)"
| "sim_act m AcceptGoes =
     (case m_accept m of
        AcceptReport e \<Rightarrow>
          if length (m_errs m) < ERROR_CHANNEL_BUFFER
          then Some (m\<lparr>m_accept := AcceptEnded, m_errs := m_errs m @ [e], m_errClosed := True\<rparr>) else None
      | _ \<Rightarrow> None)"
| "sim_act m CloseServer = Some (m\<lparr>m_srv := fst (Close None (m_srv m))\<rparr>)"
| "sim_act m ReceiveErr = (case m_errs m of [] \<Rightarrow> None | e # es \<Rightarrow> Some (m\<lparr>m_errs := es\<rparr>))"
| "sim_act m (InlineCall call) = Some (m\<lparr>m_gos := m_gos m @ [new_inline (m_srv m) call]\<rparr>)"
| "sim_act m (Go i now werr) = sim_go m i now werr"

text \<open>After a panic the process is gone.\<close>

definition sim_step :: "sim \<Rightarrow> sim_action \<Rightarrow> sim option" where
  "sim_step m act = (if m_panicked m then None else sim_act m act)"

fun sim_run :: "sim \<Rightarrow> sim_action list \<Rightarrow> sim option" where
  "sim_run m [] = Some m"
| "sim_run m (act # acts) = sim_step m act \<bind> (\<lambda>m'. sim_run m' acts)"

lemma sim_run_append: "sim_run m (xs @ ys) = sim_run m xs \<bind> (\<lambda>m'. sim_run m' ys)"
  by (induction xs arbitrary: m) (simp_all add: Option.bind_eq_None_conv split: bind_split)

end
