(* ===== verification/Fins_Serial.thy ===== *)
theory Fins_Serial
  imports Fins_Conns
begin

text \<open>
  The concurrent simulator is sequential to its clients.  Every run is explained by a log of whole
  operations, made one after the other on the memory: each reply a connection gets is the answer of
  \<open>handler\<close> at its place in the log, and each connection's requests stand there in the order they
  arrived.
\<close>

section \<open>Logs\<close>

datatype log_entry =
    Served nat goTime request response
  | Called nat mem_call "u8 list" u16
  | ClosedBy

fun replay_entry :: "Server \<Rightarrow> log_entry \<Rightarrow> Server option" where
  "replay_entry s (Served i now r resp) =
     (case handler s now r of Some (s', resp') \<Rightarrow> if resp' = resp then Some s' else None | None \<Rightarrow> None)"
| "replay_entry s (Called i call d ec) =
     (case run_call s call of Some (s', d', ec') \<Rightarrow> if d' = d \<and> ec' = ec then Some s' else None | None \<Rightarrow> None)"
| "replay_entry s ClosedBy = Some (fst (Close None s))"

fun replay :: "Server \<Rightarrow> log_entry list \<Rightarrow> Server option" where
  "replay s [] = Some s"
| "replay s (e # es) = replay_entry s e \<bind> (\<lambda>s'. replay s' es)"

lemma replay_append: "replay s (xs @ ys) = replay s xs \<bind> (\<lambda>s'. replay s' ys)"
  by (induction xs arbitrary: s) (simp_all split: bind_split)

text \<open>What the log holds of one goroutine.\<close>

fun requests_of :: "nat \<Rightarrow> log_entry list \<Rightarrow> request list" where
  "requests_of i [] = []"
| "requests_of i (Served j now r resp # es) = (if j = i then r # requests_of i es else requests_of i es)"
| "requests_of i (_ # es) = requests_of i es"

fun replies_of :: "nat \<Rightarrow> log_entry list \<Rightarrow> response list" where
  "replies_of i [] = []"
| "replies_of i (Served j now r resp # es) = (if j = i then resp # replies_of i es else replies_of i es)"
| "replies_of i (_ # es) = replies_of i es"

fun calls_of :: "nat \<Rightarrow> log_entry list \<Rightarrow> (mem_call \<times> u8 list \<times> u16) list" where
  "calls_of i [] = []"
| "calls_of i (Called j call d ec # es) = (if j = i then (call, d, ec) # calls_of i es else calls_of i es)"
| "calls_of i (_ # es) = calls_of i es"

lemma requests_of_append [simp]: "requests_of i (xs @ ys) = requests_of i xs @ requests_of i ys"
  by (induction i xs rule: requests_of.induct) simp_all

lemma replies_of_append [simp]: "replies_of i (xs @ ys) = replies_of i xs @ replies_of i ys"
  by (induction i xs rule: replies_of.induct) simp_all

lemma calls_of_append [simp]: "calls_of i (xs @ ys) = calls_of i xs @ calls_of i ys"
  by (induction i xs rule: calls_of.induct) simp_all

section \<open>The requests in a stream\<close>

text \<open>The requests a peer sends: the bodies of the data frames up to the first one that is no request.\<close>

function data_requests :: "io_error \<Rightarrow> u8 list \<Rightarrow> request list" where
  "data_requests fin stream =
     (case readTCPMessage fin stream of
        Inl e \<Rightarrow> []
      | Inr (msg, rest) \<Rightarrow>
          if tm_command msg \<noteq> finsTCPDataCommand then data_requests fin rest
          else (case decodeRequest (tm_body msg) of None \<Rightarrow> [] | Some r \<Rightarrow> r # data_requests fin rest))"
  by pat_completeness auto
termination
  by (relation "measure (\<lambda>(fin, stream). length stream)") (use readTCPMessage_shorter in fastforce)+

declare data_requests.simps [simp del]

definition client_requests :: "io_error \<Rightarrow> u8 list \<Rightarrow> request list" where
  "client_requests fin stream =
     (case readTCPMessage fin stream of
        Inl e \<Rightarrow> []
      | Inr (msg, rest) \<Rightarrow> if tm_command msg \<noteq> finsTCPHandshakeCommand then [] else data_requests fin rest)"

text \<open>What a peer that made the handshake has been sent after these replies.\<close>

definition sent_replies :: "response list \<Rightarrow> u8 list" where
  "sent_replies rs = finsTCPFrame finsTCPHandshakeCommand [] @ concat (map data_frame rs)"

lemma sent_replies_snoc [simp]: "sent_replies (rs @ [r]) = sent_replies rs @ data_frame r"
  by (simp add: sent_replies_def)

section \<open>What one goroutine has done\<close>

fun copy_ok :: "Server \<Rightarrow> copy_pc \<Rightarrow> u8 list \<Rightarrow> bool" where
  "copy_ok s (AtLock acc) d = False"
| "copy_ok s (Reading k a lo hi acc) d = (\<exists>buf. area_of k s a = Some buf \<and> lo \<le> hi \<and> hi \<le> length buf \<and>
     d = take (hi - lo) (drop lo buf) \<and> acc = take (length acc) d)"
| "copy_ok s (Storing k a lo hi p n) d = (d = [] \<and> (\<exists>buf. area_of k s a = Some buf \<and> lo \<le> hi \<and>
     hi \<le> length buf \<and> n \<le> min (hi - lo) (length p) \<and> (\<forall>j<n. buf ! (lo + j) = p ! j)))"
| "copy_ok s (Unlocked d') d = (d' = d)"

text \<open>
  \<open>pc_ok s g qs rs cs pc\<close>: the goroutine \<open>g\<close> at \<open>pc\<close>, with the server's memory \<open>s\<close>, has put the
  requests \<open>qs\<close> with the replies \<open>rs\<close>, or the calls \<open>cs\<close>, on the log.
\<close>

abbreviation all_requests :: "goroutine \<Rightarrow> request list" where
  "all_requests g \<equiv> client_requests (g_fin g) (g_arrived g)"

abbreviation requests_left :: "goroutine \<Rightarrow> request list" where
  "requests_left g \<equiv> data_requests (g_fin g) (g_stream g)"

fun pc_ok :: "Server \<Rightarrow> goroutine \<Rightarrow> request list \<Rightarrow> response list \<Rightarrow> (mem_call \<times> u8 list \<times> u16) list \<Rightarrow>
    go_pc \<Rightarrow> bool" where
  "pc_ok s g qs rs cs AwaitHandshake = (qs = [] \<and> rs = [] \<and> cs = [] \<and> g_sent g = [] \<and> g_stream g = g_arrived g)"
| "pc_ok s g qs rs cs SendHandshake =
     (qs = [] \<and> rs = [] \<and> cs = [] \<and> g_sent g = [] \<and> all_requests g = requests_left g)"
| "pc_ok s g qs rs cs AwaitRequest = (cs = [] \<and> g_sent g = sent_replies rs \<and> all_requests g = qs @ requests_left g)"
| "pc_ok s g qs rs cs (InHandler now r (AtLock acc)) =
     (cs = [] \<and> g_sent g = sent_replies rs \<and> all_requests g = qs @ r # requests_left g \<and>
      (\<forall>s. server_ok s \<longrightarrow> handler_prepare s now r = Some (Needs acc)))"
| "pc_ok s g qs rs cs (InHandler now r p) =
     (cs = [] \<and> all_requests g = qs @ requests_left g \<and>
      (\<exists>xs d. rs = xs @ [reply r EndCodeNormalCompletion d] \<and> g_sent g = sent_replies xs \<and> copy_ok s p d))"
| "pc_ok s g qs rs cs (SendReply bs) =
     (cs = [] \<and> all_requests g = qs @ requests_left g \<and>
      (\<exists>xs resp. rs = xs @ [resp] \<and> g_sent g = sent_replies xs \<and> bs = data_frame resp))"
| "pc_ok s g qs rs cs (InlineOp call (AtLock acc)) =
     (qs = [] \<and> rs = [] \<and> cs = [] \<and> g_arrived g = [] \<and> g_sent g = [] \<and>
      (\<forall>s. server_ok s \<longrightarrow> prepare_call s call = Needs acc))"
| "pc_ok s g qs rs cs (InlineOp call p) =
     (qs = [] \<and> rs = [] \<and> g_arrived g = [] \<and> g_sent g = [] \<and>
      (\<exists>d. cs = [(call, d, EndCodeNormalCompletion)] \<and> copy_ok s p d))"
| "pc_ok s g qs rs cs (InlineDone call d ec) =
     (qs = [] \<and> rs = [] \<and> g_arrived g = [] \<and> g_sent g = [] \<and> cs = [(call, d, ec)])"
| "pc_ok s g qs rs cs _ = (cs = [] \<and> (\<exists>left. all_requests g = qs @ left) \<and>
     (g_sent g = [] \<and> rs = [] \<or> g_sent g = sent_replies rs \<or> rs \<noteq> [] \<and> g_sent g = sent_replies (butlast rs)))"

text \<open>The memory as it will be once the goroutine that holds the write lock has finished its copy.\<close>

fun target_pc :: "copy_pc \<Rightarrow> Server \<Rightarrow> Server" where
  "target_pc (Storing k a lo hi p n) s = put_area k a (copy_at (the (area_of k s a)) lo hi p) s"
| "target_pc _ s = s"

definition target :: "goroutine \<Rightarrow> Server \<Rightarrow> Server" where
  "target g s = (case copy_of (g_pc g) of Some p \<Rightarrow> target_pc p s | None \<Rightarrow> s)"

text \<open>Only a goroutine that holds the lock says anything of the memory.\<close>

lemma pc_ok_frame: "\<not> holding g \<Longrightarrow> pc_ok s g qs rs cs (g_pc g) \<Longrightarrow> pc_ok s' g qs rs cs (g_pc g)"
  by (cases "(s, g, qs, rs, cs, g_pc g)" rule: pc_ok.cases) (auto simp: holding_def)

section \<open>Areas\<close>

lemma area_put [simp]: "area_of k (put_area k a buf s) a = Some buf"
  by (cases k) simp_all

lemma put_put [simp]: "put_area k a b (put_area k a buf s) = put_area k a b s"
  by (cases k) simp_all

lemma put_same: "area_of k s a = Some buf \<Longrightarrow> put_area k a buf s = s"
  by (cases k) (simp_all add: map_upd_triv)

lemma closed_put [simp]: "closed (put_area k a buf s) = closed s"
  by (cases k) simp_all

lemma server_ok_area: "server_ok s \<Longrightarrow> area_of k s a = Some buf \<Longrightarrow> length buf = DM_AREA_SIZE"
  by (cases k) (auto intro: server_ok_word server_ok_bit)

lemma server_ok_put:
  "server_ok s \<Longrightarrow> area_of k s a = Some buf \<Longrightarrow> length b = DM_AREA_SIZE \<Longrightarrow> server_ok (put_area k a b s)"
  by (cases k) (auto intro: server_ok_upd_word server_ok_upd_bit)

lemma perform_ok: "server_ok s \<Longrightarrow> perform s acc = Some (s', d) \<Longrightarrow> server_ok s'"
  by (cases acc) (auto elim!: bind_SomeE simp: sl_range_def server_ok_area split: if_splits intro!: server_ok_put)

text \<open>What is decided before the lock depends only on the names of the areas.\<close>

lemma ranges_cong:
  assumes "server_ok s" "server_ok t"
  shows "word_range s a addr n = word_range t a addr n" "bit_range s a addr off n = bit_range t a addr off n"
proof -
  have "wordAreas s a = None \<longleftrightarrow> wordAreas t a = None" "bitAreas s a = None \<longleftrightarrow> bitAreas t a = None"
    using assms by (metis domIff server_ok_def)+
  then show "word_range s a addr n = word_range t a addr n" "bit_range s a addr off n = bit_range t a addr off n"
    by (simp_all add: word_range_def bit_range_def)
qed

lemma handler_prepare_cong:
  assumes "server_ok s" "server_ok t"
  shows "handler_prepare s now r = handler_prepare t now r"
  unfolding handler_prepare_def ranges_cong [OF assms] ..

lemma prepare_call_cong:
  assumes "server_ok s" "server_ok t"
  shows "prepare_call s call = prepare_call t call"
  by (cases call) (simp_all only: prepare_call.simps ranges_cong [OF assms])

definition finish_call :: "Server \<Rightarrow> handler_plan \<Rightarrow> (Server \<times> u8 list \<times> u16) option" where
  "finish_call s pl = (case pl of
     Answer d ec \<Rightarrow> Some (s, d, ec)
   | Needs acc \<Rightarrow> map_option (\<lambda>(s', d). (s', d, EndCodeNormalCompletion)) (perform s acc))"

lemma run_call_prepare: "run_call s call = finish_call s (prepare_call s call)"
  by (cases call)
     (auto simp: readWords_perform writeWords_perform readBits_perform writeBits_perform finish_call_def
       map_conv_bind_option split: sum.splits option.splits)

text \<open>A step of the byte loop does not change what the copy will have made of the area.\<close>

lemma copy_at_update:
  assumes "lo \<le> hi" "hi \<le> length buf" "n < hi - lo" "n < length p"
  shows "copy_at (buf[lo + n := p ! n]) lo hi p = copy_at buf lo hi p"
  using assms by (intro nth_equalityI) (auto simp: copy_at_nth nth_list_update)

lemma copy_at_copied:
  assumes "lo \<le> hi" "hi \<le> length buf" "\<forall>j < min (hi - lo) (length p). buf ! (lo + j) = p ! j"
  shows "copy_at buf lo hi p = buf"
proof (rule nth_equalityI)
  fix i assume "i < length (copy_at buf lo hi p)"
  then have i: "i < length buf" using assms by simp
  show "copy_at buf lo hi p ! i = buf ! i"
  proof (cases "lo \<le> i \<and> i < hi \<and> i - lo < length p")
    case True
    then have "i - lo < min (hi - lo) (length p)" by linarith
    with assms(3) have "buf ! (lo + (i - lo)) = p ! (i - lo)" by blast
    with True i assms show ?thesis by (simp add: copy_at_nth)
  next
    case False
    with i assms show ?thesis by (simp only: copy_at_nth if_False)
  qed
qed (use assms in simp)

section \<open>One step of a goroutine\<close>

text \<open>
  What a move of goroutine \<open>i\<close> does to the log, to the memory \<open>s\<close>, and to the memory \<open>m\<close> that the log
  leads to; \<open>writing\<close> and \<open>held\<close> tell whether any goroutine holds the write lock, or the lock.
\<close>

definition well_moved ::
    "bool \<Rightarrow> bool \<Rightarrow> nat \<Rightarrow> log_entry list \<Rightarrow> Server \<Rightarrow> Server \<Rightarrow> goroutine \<Rightarrow> Server \<Rightarrow> goroutine \<Rightarrow> bool" where
  "well_moved writing held i log s m g s' g' \<longleftrightarrow> (\<exists>es m'.
     replay m es = Some m' \<and>
     (\<forall>j. j \<noteq> i \<longrightarrow> requests_of j es = [] \<and> replies_of j es = [] \<and> calls_of j es = []) \<and>
     pc_ok s' g' (requests_of i log @ requests_of i es) (replies_of i log @ replies_of i es)
       (calls_of i log @ calls_of i es) (g_pc g') \<and>
     server_ok s' \<and> server_ok m' \<and>
     (storing g' \<longrightarrow> m' = target g' s') \<and>
     (\<not> storing g' \<longrightarrow> (if storing g then m' = s' else s' = s \<and> m' = m)) \<and>
     (s' \<noteq> s \<longrightarrow> storing g) \<and>
     (storing g' \<longrightarrow> storing g \<or> \<not> held) \<and> (holding g' \<longrightarrow> holding g \<or> \<not> writing))"

text \<open>A move that touches neither the lock nor the log.\<close>

lemma well_moved_silent:
  assumes "server_ok s" "server_ok m" "\<not> storing g" "\<not> holding g'" "\<not> storing g'"
    and "pc_ok s g' (requests_of i log) (replies_of i log) (calls_of i log) (g_pc g')"
  shows "well_moved writing held i log s m g s g'"
  unfolding well_moved_def using assms by (intro exI [of _ "[]"] exI [of _ m]) simp

lemma fails_with_cases: "fails_with s msg e \<in> {Finished, ReportError (Errorf msg [] (Some e))}"
  by (simp add: fails_with_def)

lemma not_storing_simps [simp]:
  "g_pc g = fails_with s msg e \<Longrightarrow> \<not> storing g" "g_pc g = fails_with s msg e \<Longrightarrow> \<not> holding g"
  by (simp_all add: storing_def holding_def fails_with_def)

lemma pc_ok_fails:
  "pc_ok s g qs rs cs (fails_with s' msg e) \<longleftrightarrow> cs = [] \<and> (\<exists>left. all_requests g = qs @ left) \<and>
     (g_sent g = [] \<and> rs = [] \<or> g_sent g = sent_replies rs \<or> rs \<noteq> [] \<and> g_sent g = sent_replies (butlast rs))"
  by (simp add: fails_with_def)

lemma moves_conn:
  assumes "go_step s writing held room ch now werr g = GoMoves s' g'"
    and "pc_ok s g (requests_of i log) (replies_of i log) (calls_of i log) (g_pc g)"
    and "server_ok s" "server_ok m" "copy_of (g_pc g) = None" "g_pc g \<noteq> AwaitRequest"
  shows "well_moved writing held i log s m g s' g'"
proof -
  have s': "s' = s"
    using assms(1,5,6) by (cases "g_pc g") (auto simp: go_step_def split: sum.splits option.splits if_splits prod.splits)
  have "\<not> storing g" "\<not> holding g'" "\<not> storing g'"
    using assms(1,5,6) by (cases "g_pc g"; auto simp: go_step_def storing_def holding_def fails_with_def
        split: sum.splits option.splits if_splits prod.splits)+
  moreover have "pc_ok s g' (requests_of i log) (replies_of i log) (calls_of i log) (g_pc g')"
    using assms(1,2,5,6)
    by (cases "g_pc g") (auto simp: go_step_def pc_ok_fails client_requests_def sent_replies_def
        split: sum.splits option.splits if_splits prod.splits)
  ultimately show ?thesis using s' assms(3,4) well_moved_silent by blast
qed

lemma served_answer:
  assumes "server_ok s" "server_ok m" "handler_prepare s now r = Some (Answer d ec)"
  shows "handler m now r = Some (m, reply r ec d)"
  using assms handler_prepare_cong [OF assms(1,2)] by (simp add: handler_prepare_finish finish_handler_def)

lemma prepared_anywhere:
  "handler_prepare s now r = Some pl \<Longrightarrow> server_ok s \<Longrightarrow> server_ok t \<Longrightarrow> handler_prepare t now r = Some pl"
  using handler_prepare_cong by metis

lemma call_prepared_anywhere:
  "prepare_call s call = pl \<Longrightarrow> server_ok s \<Longrightarrow> server_ok t \<Longrightarrow> prepare_call t call = pl"
  using prepare_call_cong by metis

lemma moves_request:
  assumes step: "go_step s writing held room ch now werr g = GoMoves s' g'"
    and inv: "pc_ok s g (requests_of i log) (replies_of i log) (calls_of i log) (g_pc g)"
    and ok: "server_ok s" "server_ok m" and pc: "g_pc g = AwaitRequest"
  shows "well_moved writing held i log s m g s' g'"
proof -
  have g: "\<not> storing g" "\<not> holding g" using pc by (simp_all add: storing_def holding_def)
  have s': "s' = s"
    using step pc by (auto simp: go_step_def split: sum.splits option.splits handler_plan.splits if_splits prod.splits)
  have g': "\<not> storing g'" "\<not> holding g'"
    using step pc by (auto simp: go_step_def storing_def holding_def fails_with_def
        split: sum.splits option.splits handler_plan.splits if_splits prod.splits)
  show ?thesis
  proof (cases "\<exists>bs. g_pc g' = SendReply bs")
    case False
    have "pc_ok s g' (requests_of i log) (replies_of i log) (calls_of i log) (g_pc g')"
      using step inv pc False ok
      by (auto simp: go_step_def pc_ok_fails data_requests.simps [of "g_fin g" "g_stream g"]
          split: sum.splits option.splits handler_plan.splits if_splits prod.splits
          dest: prepared_anywhere)
    then show ?thesis using s' ok g g' well_moved_silent by blast
  next
    case True
    then obtain msg rest r d ec where msg: "readTCPMessage (g_fin g) (g_stream g) = Inr (msg, rest)"
        "tm_command msg = finsTCPDataCommand" "decodeRequest (tm_body msg) = Some r"
        "handler_prepare s now r = Some (Answer d ec)"
      and g'_def: "g' = g\<lparr>g_stream := rest, g_pc := SendReply (data_frame (reply r ec d))\<rparr>"
      using step pc by (auto simp: go_step_def fails_with_def
          split: sum.splits option.splits handler_plan.splits if_splits prod.splits)
    show ?thesis
      unfolding well_moved_def
      by (intro exI [of _ "[Served i now r (reply r ec d)]"] exI [of _ m])
        (use g g' s' ok inv pc msg served_answer [OF ok msg(4)] in
          \<open>simp add: g'_def data_requests.simps [of "g_fin g" "g_stream g"]\<close>)
  qed
qed

text \<open>Taking the lock: from now on the log has the whole operation.\<close>

lemma sl_range_make: "sl_range (sl_make buf) lo hi =
    (if lo \<le> hi \<and> hi \<le> length buf then Some (Slice (take (hi - lo) (drop lo buf)) (drop hi buf)) else None)"
  by (simp add: sl_range_def)

lemma copy_lock:
  assumes "copy_step writing held s (AtLock acc) = CopyGoes s' p'"
  shows "s' = s \<and> is_holding p' \<and> (\<forall>acc. p' \<noteq> AtLock acc) \<and> (if is_storing p' then \<not> held else \<not> writing) \<and>
    (\<exists>d. perform s acc = Some (target_pc p' s, d) \<and> copy_ok s p' d)"
proof (cases acc)
  case (Copy_out k a lo hi)
  show ?thesis
    using assms unfolding Copy_out
    by (cases "area_of k s a") (simp_all add: sl_range_make split: if_splits, auto)
next
  case (Copy_in k a lo hi p)
  show ?thesis
    using assms unfolding Copy_in
    by (cases "area_of k s a") (simp_all add: sl_range_make split: if_splits, auto)
qed

text \<open>A step with the lock held, the unlock included.\<close>

lemma copy_reading:
  assumes "copy_step writing held s (Reading k a lo hi acc) = CopyGoes s' p'" "copy_ok s (Reading k a lo hi acc) d"
  shows "s' = s \<and> copy_ok s p' d \<and> \<not> is_storing p' \<and> (\<forall>acc. p' \<noteq> AtLock acc)"
proof -
  from assms(2) obtain buf where buf: "area_of k s a = Some buf" "lo \<le> hi" "hi \<le> length buf"
    "d = take (hi - lo) (drop lo buf)" "acc = take (length acc) d" by auto
  have len: "length acc \<le> hi - lo" using buf by (metis length_take min.cobounded2 min.bounded_iff)
  show ?thesis
  proof (cases "length acc < hi - lo")
    case True
    have "d ! length acc = buf ! (lo + length acc)" "length acc < length d" using buf True by auto
    then have "acc @ [buf ! (lo + length acc)] = take (length (acc @ [buf ! (lo + length acc)])) d"
      using buf(5) by (simp add: take_Suc_conv_app_nth)
    then show ?thesis using assms(1) buf True by (auto simp del: take_append)
  next
    case False
    then have "acc = d" using buf len by auto
    then show ?thesis using assms(1) False by auto
  qed
qed

lemma copy_storing:
  assumes "copy_step writing held s (Storing k a lo hi p n) = CopyGoes s' p'" "copy_ok s (Storing k a lo hi p n) d"
    and "server_ok s"
  shows "copy_ok s' p' d \<and> server_ok s' \<and> target_pc p' s' = target_pc (Storing k a lo hi p n) s \<and>
    (\<forall>acc. p' \<noteq> AtLock acc) \<and> (is_holding p' \<longrightarrow> is_storing p')"
proof -
  from assms(2) obtain buf where buf: "area_of k s a = Some buf" "lo \<le> hi" "hi \<le> length buf" "d = []"
    "n \<le> min (hi - lo) (length p)" "\<forall>j<n. buf ! (lo + j) = p ! j" by auto
  show ?thesis
  proof (cases "n < min (hi - lo) (length p)")
    case True
    let ?buf = "buf[lo + n := p ! n]"
    have out: "s' = put_area k a ?buf s" "p' = Storing k a lo hi p (Suc n)" using assms(1) buf True by auto
    have "\<forall>j<Suc n. ?buf ! (lo + j) = p ! j" using buf True by (auto simp: less_Suc_eq nth_list_update)
    moreover have "server_ok s'" unfolding out using assms(3) buf server_ok_area by (intro server_ok_put) auto
    ultimately show ?thesis using out buf True by (simp add: copy_at_update)
  next
    case False
    then have "n = min (hi - lo) (length p)" using buf by linarith
    then have "copy_at buf lo hi p = buf" using buf by (intro copy_at_copied) auto
    then show ?thesis using assms buf False by (auto simp: put_same)
  qed
qed

lemma in_copy_simps [simp]:
  "g_pc g = InHandler now r p \<Longrightarrow> storing g = is_storing p" "g_pc g = InHandler now r p \<Longrightarrow> holding g = is_holding p"
  "g_pc g = InHandler now r p \<Longrightarrow> target g s = target_pc p s"
  "g_pc g = InlineOp call p \<Longrightarrow> storing g = is_storing p" "g_pc g = InlineOp call p \<Longrightarrow> holding g = is_holding p"
  "g_pc g = InlineOp call p \<Longrightarrow> target g s = target_pc p s"
  by (simp_all add: storing_def holding_def target_def)

lemma pc_ok_in_handler:
  "\<forall>acc. p \<noteq> AtLock acc \<Longrightarrow> pc_ok s g qs rs cs (InHandler now r p) \<longleftrightarrow>
     cs = [] \<and> all_requests g = qs @ requests_left g \<and>
     (\<exists>xs d. rs = xs @ [reply r EndCodeNormalCompletion d] \<and> g_sent g = sent_replies xs \<and> copy_ok s p d)"
  by (cases p) simp_all

lemma pc_ok_in_call:
  "\<forall>acc. p \<noteq> AtLock acc \<Longrightarrow> pc_ok s g qs rs cs (InlineOp call p) \<longleftrightarrow>
     qs = [] \<and> rs = [] \<and> g_arrived g = [] \<and> g_sent g = [] \<and>
     (\<exists>d. cs = [(call, d, EndCodeNormalCompletion)] \<and> copy_ok s p d)"
  by (cases p) simp_all

lemma handler_performs:
  "handler_prepare s now r = Some (Needs acc) \<Longrightarrow> perform s acc = Some (s2, d) \<Longrightarrow>
   handler s now r = Some (s2, reply r EndCodeNormalCompletion d)"
  by (simp add: handler_prepare_finish finish_handler_def)

lemma call_performs:
  "prepare_call s call = Needs acc \<Longrightarrow> perform s acc = Some (s2, d) \<Longrightarrow>
   run_call s call = Some (s2, d, EndCodeNormalCompletion)"
  by (simp add: run_call_prepare finish_call_def)

lemma moves_lock:
  assumes step: "copy_step writing held s (AtLock acc) = CopyGoes s' p'"
    and ok: "server_ok s" and free: "\<not> writing \<Longrightarrow> m = s" "\<not> held \<Longrightarrow> m = s"
  obtains d m' where "s' = s" "m = s" "perform s acc = Some (m', d)" "copy_ok s p' d" "server_ok m'"
    "m' = target_pc p' s" "is_holding p'" "\<forall>acc. p' \<noteq> AtLock acc" "if is_storing p' then \<not> held else \<not> writing"
proof -
  from copy_lock [OF step] obtain d where d: "s' = s" "is_holding p'" "\<forall>acc. p' \<noteq> AtLock acc"
    "if is_storing p' then \<not> held else \<not> writing" "perform s acc = Some (target_pc p' s, d)" "copy_ok s p' d"
    by blast
  moreover have "m = s" using d(4) free by (auto split: if_splits)
  ultimately show ?thesis using that perform_ok [OF ok d(5)] by blast
qed

lemma target_not_storing: "\<not> is_storing p \<Longrightarrow> target_pc p s = s"
  by (cases p) simp_all

lemma moves_handler:
  assumes pc: "g_pc g = InHandler now' r p"
    and step: "copy_step writing held s p = CopyGoes s' p'" and g': "g' = g\<lparr>g_pc := InHandler now' r p'\<rparr>"
    and inv: "pc_ok s g (requests_of i log) (replies_of i log) (calls_of i log) (g_pc g)"
    and ok: "server_ok s" "server_ok m" and free: "\<not> writing \<Longrightarrow> m = s" "\<not> held \<Longrightarrow> m = s"
    and busy: "storing g \<Longrightarrow> m = target g s" and wh: "writing \<Longrightarrow> held"
  shows "well_moved writing held i log s m g s' g'"
proof (cases p)
  case (AtLock acc)
  obtain d m' where d: "s' = s" "m = s" "perform s acc = Some (m', d)" "copy_ok s p' d" "server_ok m'"
    "m' = target_pc p' s" "is_holding p'" "\<forall>acc. p' \<noteq> AtLock acc" "if is_storing p' then \<not> held else \<not> writing"
    using moves_lock [OF step [unfolded AtLock] ok(1) free] by blast
  have "handler s now' r = Some (m', reply r EndCodeNormalCompletion d)"
    using inv pc AtLock ok d(3) by (intro handler_performs) auto
  then show ?thesis
    unfolding well_moved_def
    by (intro exI [of _ "[Served i now' r (reply r EndCodeNormalCompletion d)]"] exI [of _ m'])
      (use d inv pc AtLock ok wh in \<open>auto simp: g' pc_ok_in_handler target_not_storing split: if_splits\<close>)
next
  case (Reading k a lo hi acc)
  then obtain d where "copy_ok s p d" using inv pc by auto
  then have c: "s' = s \<and> copy_ok s p' d' \<and> \<not> is_storing p' \<and> (\<forall>acc. p' \<noteq> AtLock acc)" if "copy_ok s p d'" for d'
    using copy_reading step Reading that by blast
  then show ?thesis
    unfolding well_moved_def
    by (intro exI [of _ "[]"] exI [of _ m])
      (use \<open>copy_ok s p d\<close> c inv pc ok Reading in \<open>auto simp: g' pc_ok_in_handler\<close>)
next
  case (Storing k a lo hi q n)
  have c: "copy_ok s' p' d' \<and> server_ok s' \<and> target_pc p' s' = target_pc p s \<and> (\<forall>acc. p' \<noteq> AtLock acc) \<and>
      (is_holding p' \<longrightarrow> is_storing p')" if "copy_ok s p d'" for d'
    using copy_storing [OF step [unfolded Storing] that [unfolded Storing] ok(1)] Storing by blast
  moreover obtain d where "copy_ok s p d" using inv pc Storing by auto
  ultimately show ?thesis
    unfolding well_moved_def
    by (intro exI [of _ "[]"] exI [of _ m])
      (use c [OF \<open>copy_ok s p d\<close>] busy inv pc ok Storing in \<open>auto simp: g' pc_ok_in_handler target_not_storing dest: c\<close>)
qed (use step in simp)

lemma moves_call:
  assumes pc: "g_pc g = InlineOp call p"
    and step: "copy_step writing held s p = CopyGoes s' p'" and g': "g' = g\<lparr>g_pc := InlineOp call p'\<rparr>"
    and inv: "pc_ok s g (requests_of i log) (replies_of i log) (calls_of i log) (g_pc g)"
    and ok: "server_ok s" "server_ok m" and free: "\<not> writing \<Longrightarrow> m = s" "\<not> held \<Longrightarrow> m = s"
    and busy: "storing g \<Longrightarrow> m = target g s" and wh: "writing \<Longrightarrow> held"
  shows "well_moved writing held i log s m g s' g'"
proof (cases p)
  case (AtLock acc)
  obtain d m' where d: "s' = s" "m = s" "perform s acc = Some (m', d)" "copy_ok s p' d" "server_ok m'"
    "m' = target_pc p' s" "is_holding p'" "\<forall>acc. p' \<noteq> AtLock acc" "if is_storing p' then \<not> held else \<not> writing"
    using moves_lock [OF step [unfolded AtLock] ok(1) free] by blast
  have "run_call s call = Some (m', d, EndCodeNormalCompletion)"
    using inv pc AtLock ok d(3) by (intro call_performs) auto
  then show ?thesis
    unfolding well_moved_def
    by (intro exI [of _ "[Called i call d EndCodeNormalCompletion]"] exI [of _ m'])
      (use d inv pc AtLock ok wh in \<open>auto simp: g' pc_ok_in_call target_not_storing split: if_splits\<close>)
next
  case (Reading k a lo hi acc)
  then obtain d where d: "copy_ok s p d" using inv pc by auto
  have c: "s' = s \<and> copy_ok s p' d' \<and> \<not> is_storing p' \<and> (\<forall>acc. p' \<noteq> AtLock acc)" if "copy_ok s p d'" for d'
    using copy_reading step Reading that by blast
  show ?thesis
    unfolding well_moved_def
    by (intro exI [of _ "[]"] exI [of _ m]) (use d c inv pc ok Reading in \<open>auto simp: g' pc_ok_in_call\<close>)
next
  case (Storing k a lo hi q n)
  have c: "copy_ok s' p' d' \<and> server_ok s' \<and> target_pc p' s' = target_pc p s \<and> (\<forall>acc. p' \<noteq> AtLock acc) \<and>
      (is_holding p' \<longrightarrow> is_storing p')" if "copy_ok s p d'" for d'
    using copy_storing [OF step [unfolded Storing] that [unfolded Storing] ok(1)] Storing by blast
  obtain d where d: "copy_ok s p d" "d = []" using inv pc Storing by auto
  show ?thesis
    unfolding well_moved_def
    by (intro exI [of _ "[]"] exI [of _ m])
      (use c [OF d(1)] d(2) busy inv pc ok Storing in \<open>auto simp: g' pc_ok_in_call target_not_storing dest: c\<close>)
qed (use step in simp)

text \<open>The answer is ready: the lock has been released.\<close>

lemma moves_unlocked:
  assumes "g_pc g = InHandler now' r (Unlocked d) \<and> g' = g\<lparr>g_pc := SendReply (data_frame (reply r EndCodeNormalCompletion d))\<rparr> \<or>
      g_pc g = InlineOp call (Unlocked d) \<and> g' = g\<lparr>g_pc := InlineDone call d EndCodeNormalCompletion\<rparr>"
    and "pc_ok s g (requests_of i log) (replies_of i log) (calls_of i log) (g_pc g)" "server_ok s" "server_ok m"
  shows "well_moved writing held i log s m g s g'"
  using assms by (intro well_moved_silent) (auto simp: storing_def holding_def)

lemma go_step_moves:
  assumes step: "go_step s writing held room ch now werr g = GoMoves s' g'"
    and inv: "pc_ok s g (requests_of i log) (replies_of i log) (calls_of i log) (g_pc g)"
    and ok: "server_ok s" "server_ok m" and free: "\<not> writing \<Longrightarrow> m = s" "\<not> held \<Longrightarrow> m = s"
    and busy: "storing g \<Longrightarrow> m = target g s" and wh: "writing \<Longrightarrow> held"
  shows "well_moved writing held i log s m g s' g'"
proof (cases "copy_of (g_pc g)")
  case None
  then show ?thesis
    using moves_conn [OF step inv ok] moves_request [OF step inv ok] by blast
next
  case (Some p)
  then consider (handler) now' r where "g_pc g = InHandler now' r p" | (call) c where "g_pc g = InlineOp c p"
    by (cases "g_pc g") auto
  then show ?thesis
  proof cases
    case handler
    show ?thesis
    proof (cases "\<exists>d. p = Unlocked d")
      case True
      then show ?thesis using step handler inv ok
        by (auto simp: go_step_def intro!: moves_unlocked)
    next
      case False
      then obtain p' where "copy_step writing held s p = CopyGoes s' p'" "g' = g\<lparr>g_pc := InHandler now' r p'\<rparr>"
        using step handler by (cases p) (auto simp: go_step_def split: copy_outcome.splits)
      then show ?thesis using moves_handler [OF handler _ _ inv ok free busy wh] by blast
    qed
  next
    case call
    show ?thesis
    proof (cases "\<exists>d. p = Unlocked d")
      case True
      then show ?thesis using step call inv ok
        by (auto simp: go_step_def intro!: moves_unlocked)
    next
      case False
      then obtain p' where "copy_step writing held s p = CopyGoes s' p'" "g' = g\<lparr>g_pc := InlineOp c p'\<rparr>"
        using step call by (cases p) (auto simp: go_step_def split: copy_outcome.splits)
      then show ?thesis using moves_call [OF call _ _ inv ok free busy wh] by blast
    qed
  qed
qed

section \<open>A step of the simulator\<close>

text \<open>
  \<open>explained s0 log x m\<close>: the log, replayed from \<open>s0\<close>, leads to the memory \<open>m\<close>, which is the one of
  the state \<open>x\<close> but for the copy in progress, and tells what each goroutine has done.
\<close>

definition explained :: "Server \<Rightarrow> log_entry list \<Rightarrow> sim \<Rightarrow> Server \<Rightarrow> bool" where
  "explained s0 log x m \<longleftrightarrow>
     replay s0 log = Some m \<and> server_ok (m_srv x) \<and> server_ok m \<and>
     (\<forall>g \<in> set (m_gos x). storing g \<longrightarrow> m = target g (m_srv x)) \<and>
     ((\<forall>g \<in> set (m_gos x). \<not> storing g) \<longrightarrow> m = m_srv x) \<and>
     (\<forall>i < length (m_gos x). \<forall>j < length (m_gos x). i \<noteq> j \<longrightarrow> storing (m_gos x ! i) \<longrightarrow> \<not> holding (m_gos x ! j)) \<and>
     (\<forall>i < length (m_gos x). pc_ok (m_srv x) (m_gos x ! i) (requests_of i log) (replies_of i log) (calls_of i log)
         (g_pc (m_gos x ! i))) \<and>
     (\<forall>i \<ge> length (m_gos x). requests_of i log = [] \<and> replies_of i log = [] \<and> calls_of i log = [])"

lemma explained_update:
  assumes ex: "explained s0 log x m" and i: "i < length (m_gos x)"
    and moved: "well_moved (list_ex storing (m_gos x)) (list_ex holding (m_gos x)) i log (m_srv x) m (m_gos x ! i) s' g'"
  shows "\<exists>es m'. explained s0 (log @ es) (x\<lparr>m_srv := s', m_gos := (m_gos x)[i := g']\<rparr>) m'"
proof -
  let ?gs = "m_gos x" and ?s = "m_srv x"
  obtain es m' where mv: "replay m es = Some m'"
    "\<forall>j. j \<noteq> i \<longrightarrow> requests_of j es = [] \<and> replies_of j es = [] \<and> calls_of j es = []"
    "pc_ok s' g' (requests_of i log @ requests_of i es) (replies_of i log @ replies_of i es)
       (calls_of i log @ calls_of i es) (g_pc g')"
    "server_ok s'" "server_ok m'" "storing g' \<longrightarrow> m' = target g' s'"
    "\<not> storing g' \<longrightarrow> (if storing (?gs ! i) then m' = s' else s' = ?s \<and> m' = m)"
    "s' \<noteq> ?s \<longrightarrow> storing (?gs ! i)" "storing g' \<longrightarrow> storing (?gs ! i) \<or> \<not> list_ex holding ?gs"
    "holding g' \<longrightarrow> holding (?gs ! i) \<or> \<not> list_ex storing ?gs"
    using moved unfolding well_moved_def by blast
  have lst: "list_ex P ?gs \<longleftrightarrow> (\<exists>j < length ?gs. P (?gs ! j))" for P by (simp add: list_ex_length)
  have excl: "storing (?gs ! j) \<Longrightarrow> \<not> holding (?gs ! k)" if "j < length ?gs" "k < length ?gs" "j \<noteq> k" for j k
    using ex that unfolding explained_def by blast
  have storing_holds: "storing g \<Longrightarrow> holding g" for g
    by (auto simp: storing_def holding_def split: option.splits elim: is_storing.elims)
  have others: "?s = s' \<and> m' = m" if "j < length ?gs" "j \<noteq> i" "storing (?gs ! j)" for j
    using mv(6-9) excl [OF that(1) i that(2,3)] storing_holds lst that by (metis (full_types))
  let ?y = "x\<lparr>m_srv := s', m_gos := ?gs[i := g']\<rparr>"
  have "replay s0 (log @ es) = Some m'" using ex mv(1) by (simp add: explained_def replay_append)
  moreover have "\<forall>g \<in> set (m_gos ?y). storing g \<longrightarrow> m' = target g (m_srv ?y)"
  proof (intro ballI impI)
    fix g assume "g \<in> set (m_gos ?y)" "storing g"
    then obtain j where j: "j < length ?gs" "g = ?gs[i := g'] ! j" by (auto simp: in_set_conv_nth)
    show "m' = target g (m_srv ?y)"
    proof (cases "j = i")
      case False
      then have g: "g = ?gs ! j" using j by simp
      then have "m = target g ?s" using ex j \<open>storing g\<close> by (simp add: explained_def)
      then show ?thesis using others [OF j(1) False] g \<open>storing g\<close> by simp
    qed (use mv(6) j i \<open>storing g\<close> in simp)
  qed
  moreover have "(\<forall>g \<in> set (m_gos ?y). \<not> storing g) \<longrightarrow> m' = m_srv ?y"
  proof
    assume none: "\<forall>g \<in> set (m_gos ?y). \<not> storing g"
    have nth: "\<not> storing (?gs[i := g'] ! j)" if "j < length ?gs" for j
      using none that by (simp add: all_set_conv_all_nth)
    have new: "\<not> storing g'" using nth [OF i] i by simp
    have old: "\<not> storing (?gs ! j)" if "j < length ?gs" "j \<noteq> i" for j using nth [OF that(1)] that(2) by simp
    show "m' = m_srv ?y"
    proof (cases "storing (?gs ! i)")
      case False
      then have "\<forall>g \<in> set ?gs. \<not> storing g" using old by (metis in_set_conv_nth)
      then have "m = ?s" using ex by (simp add: explained_def)
      then show ?thesis using mv(7) new False by simp
    qed (use mv(7) new in simp)
  qed
  moreover have "\<forall>j < length (m_gos ?y). \<forall>k < length (m_gos ?y). j \<noteq> k \<longrightarrow> storing (m_gos ?y ! j) \<longrightarrow> \<not> holding (m_gos ?y ! k)"
    using excl mv(9,10) i lst storing_holds by (simp add: nth_list_update) metis
  moreover have "\<forall>j < length (m_gos ?y). pc_ok (m_srv ?y) (m_gos ?y ! j) (requests_of j (log @ es))
      (replies_of j (log @ es)) (calls_of j (log @ es)) (g_pc (m_gos ?y ! j))"
  proof (intro allI impI)
    fix j assume j: "j < length (m_gos ?y)"
    show "pc_ok (m_srv ?y) (m_gos ?y ! j) (requests_of j (log @ es)) (replies_of j (log @ es))
        (calls_of j (log @ es)) (g_pc (m_gos ?y ! j))"
    proof (cases "j = i")
      case False
      then have old: "pc_ok ?s (?gs ! j) (requests_of j log) (replies_of j log) (calls_of j log) (g_pc (?gs ! j))"
        using ex j by (simp add: explained_def)
      have "pc_ok s' (?gs ! j) (requests_of j log) (replies_of j log) (calls_of j log) (g_pc (?gs ! j))"
        using old mv(8) excl [OF i _, of j] False j pc_ok_frame by (cases "s' = ?s") auto
      then show ?thesis using False mv(2) by simp
    qed (use mv(3) i in simp)
  qed
  moreover have "\<forall>j \<ge> length (m_gos ?y). requests_of j (log @ es) = [] \<and> replies_of j (log @ es) = [] \<and> calls_of j (log @ es) = []"
    using ex mv(2) i by (simp add: explained_def)
  ultimately have "explained s0 (log @ es) ?y m'" using mv(4,5) by (simp add: explained_def)
  then show ?thesis by blast
qed

lemma explained_cong:
  "m_srv x = m_srv y \<Longrightarrow> m_gos x = m_gos y \<Longrightarrow> explained s0 log x m = explained s0 log y m"
  by (simp add: explained_def)

lemma storing_holds: "storing g \<Longrightarrow> holding g"
  by (auto simp: storing_def holding_def split: option.splits elim: is_storing.elims)

lemma explained_spawn:
  assumes ex: "explained s0 log x m" and g: "\<not> holding g" and es: "replay m es = Some m"
    "\<forall>j. j \<noteq> length (m_gos x) \<longrightarrow> requests_of j es = [] \<and> replies_of j es = [] \<and> calls_of j es = []"
    "pc_ok (m_srv x) g (requests_of (length (m_gos x)) es) (replies_of (length (m_gos x)) es)
       (calls_of (length (m_gos x)) es) (g_pc g)"
  shows "explained s0 (log @ es) (x\<lparr>m_gos := m_gos x @ [g]\<rparr>) m"
proof -
  have "\<not> storing g" using g by (auto simp: storing_def holding_def split: option.splits elim: is_storing.elims)
  then show ?thesis
    using assms unfolding explained_def by (auto simp: replay_append nth_append less_Suc_eq)
qed

lemma Close_eq: "fst (Close e s) = s\<lparr>closed := True\<rparr>"
  by (cases s) (simp add: Close_def)

lemma area_closed [simp]: "area_of k (s\<lparr>closed := b\<rparr>) a = area_of k s a"
  by (cases k) simp_all

lemma put_closed: "put_area k a buf (s\<lparr>closed := b\<rparr>) = (put_area k a buf s)\<lparr>closed := b\<rparr>"
  by (cases k) simp_all

lemma copy_ok_closed: "copy_ok (s\<lparr>closed := b\<rparr>) p d = copy_ok s p d"
  by (cases p) simp_all

lemma pc_ok_closed: "pc_ok (s\<lparr>closed := b\<rparr>) g qs rs cs pc = pc_ok s g qs rs cs pc"
  by (cases "(s, g, qs, rs, cs, pc)" rule: pc_ok.cases) (simp_all add: copy_ok_closed)

lemma target_closed: "target g (s\<lparr>closed := b\<rparr>) = (target g s)\<lparr>closed := b\<rparr>"
proof -
  have "target_pc p (s\<lparr>closed := b\<rparr>) = (target_pc p s)\<lparr>closed := b\<rparr>" for p
    by (cases p) (simp_all add: put_closed)
  then show ?thesis by (simp add: target_def split: option.splits)
qed

lemma server_ok_closed: "server_ok (s\<lparr>closed := b\<rparr>) = server_ok s"
  by (simp add: server_ok_def)

lemma explained_close:
  "explained s0 log x m \<Longrightarrow> explained s0 (log @ [ClosedBy]) (x\<lparr>m_srv := fst (Close None (m_srv x))\<rparr>) (m\<lparr>closed := True\<rparr>)"
  unfolding explained_def Close_eq
  by (auto simp: replay_append Close_eq pc_ok_closed target_closed server_ok_closed)

lemma go_step_report:
  "go_step s writing held room ch now werr g = GoReports e g' \<Longrightarrow>
   g_pc g = ReportError e \<and> g' = g\<lparr>g_pc := Finished\<rparr> \<and> room \<and> \<not> ch"
  by (auto simp: go_step_def split: go_pc.splits sum.splits option.splits handler_plan.splits copy_pc.splits
      copy_outcome.splits if_splits prod.splits)

lemma explained_report:
  assumes ex: "explained s0 log x m" and i: "i < length (m_gos x)" and g: "g_pc (m_gos x ! i) = ReportError e"
  shows "\<exists>es m'. explained s0 (log @ es) (x\<lparr>m_gos := (m_gos x)[i := (m_gos x ! i)\<lparr>g_pc := Finished\<rparr>]\<rparr>) m'"
proof -
  let ?g = "m_gos x ! i"
  have "pc_ok (m_srv x) ?g (requests_of i log) (replies_of i log) (calls_of i log) (g_pc ?g)"
    using ex i by (simp add: explained_def)
  then have "well_moved w h i log (m_srv x) m ?g (m_srv x) (?g\<lparr>g_pc := Finished\<rparr>)" for w h
    using ex g by (intro well_moved_silent) (auto simp: explained_def storing_def holding_def)
  from explained_update [OF ex i this] show ?thesis by simp
qed

lemma explained_go:
  assumes ex: "explained s0 log x m" and step: "sim_go x i now werr = Some y"
  shows "\<exists>es m'. explained s0 (log @ es) y m'"
proof -
  let ?w = "list_ex storing (m_gos x)" and ?h = "list_ex holding (m_gos x)" and ?g = "m_gos x ! i"
  let ?go = "go_step (m_srv x) ?w ?h (length (m_errs x) < ERROR_CHANNEL_BUFFER) (m_errClosed x) now werr ?g"
  have i: "i < length (m_gos x)" using step by (simp add: sim_go_def split: if_splits)
  have free: "m = m_srv x" if "\<not> ?w" using ex that by (simp add: explained_def list_ex_iff)
  have wh: ?h if ?w
    using that storing_holds by (auto simp: list_ex_iff)
  show ?thesis
  proof (cases ?go)
    case GoPanics
    then have "y = x\<lparr>m_panicked := True\<rparr>" using step i by (simp add: sim_go_def)
    then have "explained s0 (log @ []) y m" using ex by (simp add: explained_def)
    then show ?thesis by blast
  next
    case (GoMoves s' g')
    have "well_moved ?w ?h i log (m_srv x) m ?g s' g'"
      using ex i free wh by (intro go_step_moves [OF GoMoves]) (auto simp: explained_def)
    moreover have "y = x\<lparr>m_srv := s', m_gos := (m_gos x)[i := g']\<rparr>" using step i GoMoves by (simp add: sim_go_def)
    ultimately show ?thesis using explained_update [OF ex i] by simp
  next
    case (GoReports e g')
    from go_step_report [OF this] obtain es m' where
      r: "explained s0 (log @ es) (x\<lparr>m_gos := (m_gos x)[i := g']\<rparr>) m'" using explained_report [OF ex i] by blast
    have "y = x\<lparr>m_gos := (m_gos x)[i := g'], m_errs := m_errs x @ [e]\<rparr>" using step i GoReports by (simp add: sim_go_def)
    with r have "explained s0 (log @ es) y m'" by (simp add: explained_def)
    then show ?thesis by blast
  qed (use step i in \<open>simp add: sim_go_def\<close>)
qed

lemma explained_inline:
  assumes ex: "explained s0 log x m"
  shows "\<exists>es m'. explained s0 (log @ es) (x\<lparr>m_gos := m_gos x @ [new_inline (m_srv x) call]\<rparr>) m'"
proof -
  have ok: "server_ok (m_srv x)" "server_ok m" using ex by (simp_all add: explained_def)
  show ?thesis
  proof (cases "prepare_call (m_srv x) call")
    case (Answer d ec)
    have "prepare_call m call = Answer d ec" by (rule call_prepared_anywhere [OF Answer ok])
    then have run: "run_call m call = Some (m, d, ec)" by (simp add: run_call_prepare finish_call_def)
    have "explained s0 (log @ [Called (length (m_gos x)) call d ec])
        (x\<lparr>m_gos := m_gos x @ [new_inline (m_srv x) call]\<rparr>) m"
      by (rule explained_spawn [OF ex]) (simp_all add: new_inline_def holding_def run Answer)
    then show ?thesis by blast
  next
    case (Needs acc)
    have any: "prepare_call s call = Needs acc" if "server_ok s" for s
      by (rule call_prepared_anywhere [OF Needs ok(1) that])
    have "explained s0 (log @ []) (x\<lparr>m_gos := m_gos x @ [new_inline (m_srv x) call]\<rparr>) m"
      by (rule explained_spawn [OF ex]) (simp_all add: new_inline_def holding_def Needs any)
    then show ?thesis by blast
  qed
qed

lemma explained_act:
  assumes ex: "explained s0 log x m" and step: "sim_act x act = Some y"
  shows "\<exists>es m'. explained s0 (log @ es) y m'"
proof (cases act)
  case (AcceptConn bs fin)
  have "explained s0 (log @ []) (x\<lparr>m_gos := m_gos x @ [new_conn bs fin]\<rparr>) m"
    by (rule explained_spawn [OF ex]) (simp_all add: new_conn_def holding_def)
  moreover have "y = x\<lparr>m_gos := m_gos x @ [new_conn bs fin]\<rparr>" using step AcceptConn by (simp split: if_splits)
  ultimately show ?thesis by blast
next
  case CloseServer
  then show ?thesis using step explained_close [OF ex] by auto
next
  case (InlineCall call)
  then show ?thesis using step explained_inline [OF ex] by auto
next
  case (Go i now werr)
  then show ?thesis using step explained_go [OF ex] by simp
next
  case (AcceptFails e)
  then have "m_srv y = m_srv x \<and> m_gos y = m_gos x" using step by (auto split: if_splits)
  then show ?thesis using ex explained_cong by (metis append_Nil2)
next
  case AcceptGoes
  then have "m_srv y = m_srv x \<and> m_gos y = m_gos x" using step by (auto split: if_splits accept_pc.splits)
  then show ?thesis using ex explained_cong by (metis append_Nil2)
next
  case ReceiveErr
  then have "m_srv y = m_srv x \<and> m_gos y = m_gos x" using step by (auto split: list.splits)
  then show ?thesis using ex explained_cong by (metis append_Nil2)
qed

lemma explained_run:
  "explained s0 log x m \<Longrightarrow> sim_run x acts = Some y \<Longrightarrow> \<exists>es m'. explained s0 (log @ es) y m'"
proof (induction acts arbitrary: log x m)
  case Nil
  then have "explained s0 (log @ []) y m" by simp
  then show ?case by blast
next
  case (Cons act acts)
  then obtain x' where x': "sim_act x act = Some x'" "sim_run x' acts = Some y"
    by (auto simp: sim_step_def split: bind_splits if_splits)
  from explained_act [OF Cons.prems(1) x'(1)] obtain es m' where "explained s0 (log @ es) x' m'" by blast
  from Cons.IH [OF this x'(2)] show ?case by auto
qed

lemma explained_init: "server_ok s0 \<Longrightarrow> explained s0 [] (sim_init s0) s0"
  by (simp add: explained_def sim_init_def)

end
