(* ===== verification/Fins_Simulator.thy ===== *)
theory Fins_Simulator
  imports Fins_Serial
begin

text \<open>
  What the goroutines of the TCP simulator amount to: they are served one at a time as far as any
  client can tell, a goroutine that finds the error channel full stays there, and what can make the
  process panic.
\<close>

section \<open>What a log tells\<close>

text \<open>
  \<open>told log m x\<close>: in the state \<open>x\<close> the memory is \<open>m\<close> unless a copy is in progress; every connection's
  requests are on the log in the order they arrived, its replies are those of the log, with at most
  the last one not yet written; an in-process call that has returned is on the log with its result.
\<close>

definition conn_told :: "nat \<Rightarrow> log_entry list \<Rightarrow> goroutine \<Rightarrow> bool" where
  "conn_told i log g \<longleftrightarrow>
     take (length (requests_of i log)) (client_requests (g_fin g) (g_arrived g)) = requests_of i log \<and>
     (g_sent g = [] \<or> g_sent g = sent_replies (replies_of i log) \<or> g_sent g = sent_replies (butlast (replies_of i log))) \<and>
     (g_pc g = AwaitRequest \<longrightarrow> g_sent g = sent_replies (replies_of i log)) \<and>
     (case g_pc g of InlineDone call d ec \<Rightarrow> calls_of i log = [(call, d, ec)] | _ \<Rightarrow> True)"

definition told :: "log_entry list \<Rightarrow> Server \<Rightarrow> sim \<Rightarrow> bool" where
  "told log m x \<longleftrightarrow> (list_ex storing (m_gos x) \<or> m_srv x = m) \<and>
     (\<forall>i < length (m_gos x). conn_told i log (m_gos x ! i))"

lemma pc_ok_told:
  assumes "pc_ok s g (requests_of i log) (replies_of i log) (calls_of i log) (g_pc g)"
  shows "conn_told i log g"
  using assms
  by (cases "(s, g, requests_of i log, replies_of i log, calls_of i log, g_pc g)" rule: pc_ok.cases)
     (auto simp: conn_told_def)

lemma explained_told: "explained s0 log x m \<Longrightarrow> told log m x"
  using pc_ok_told by (auto simp: explained_def told_def list_ex_iff)

text \<open>
  C6: the simulator under concurrent use.  However the goroutines of the connections, the in-process
  operations and \<open>Close\<close> interleave, down to the single bytes they copy, there is an order of whole
  operations, each request of a connection in its turn, whose replay from the initial memory by the
  sequential \<open>handler\<close> gives the replies that were sent and the memory that is left; and later steps
  only add to the end of that order.
\<close>

theorem connections_served_in_turn:
  assumes "server_ok s0" "sim_run (sim_init s0) acts = Some x" "sim_run x later = Some y"
  shows "\<exists>log m es m'. replay s0 log = Some m \<and> told log m x \<and> replay m es = Some m' \<and> told (log @ es) m' y"
proof -
  from explained_run [OF explained_init [OF assms(1)] assms(2)] obtain log m where
    x: "explained s0 log x m" by auto
  from explained_run [OF x assms(3)] obtain es m' where y: "explained s0 (log @ es) y m'" by blast
  have "replay s0 log = Some m" "replay s0 (log @ es) = Some m'" using x y by (simp_all add: explained_def)
  then have "replay m es = Some m'" by (simp add: replay_append)
  then show ?thesis using x y explained_told \<open>replay s0 log = Some m\<close> by blast
qed

text \<open>A write of two bytes and a read of them by two in-process callers, beside a connection.\<close>

definition word_of_7_8 :: mem_call where
  "word_of_7_8 = Call_writeWords MemoryAreaDMWord 0 1 [7, 8]"

definition overlapping_calls :: "sim_action list" where
  "overlapping_calls = [InlineCall word_of_7_8, InlineCall (Call_readWords MemoryAreaDMWord 0 1),
     AcceptConn (finsTCPFrame finsTCPHandshakeCommand []) EOF,
     Go 0 leap_day None, Go 2 leap_day None, Go 0 leap_day None, Go 2 leap_day None]"

definition read_after :: "sim_action list" where
  "read_after = [Go 0 leap_day None, Go 0 leap_day None, Go 1 leap_day None, Go 0 leap_day None, Go 1 leap_day None,
     Go 1 leap_day None, Go 1 leap_day None, Go 1 leap_day None]"

lemma server_dm:
  assumes "NewPLCSimulator k t e = Inr s"
  shows "wordAreas s MemoryAreaDMWord = Some newArea"
  using assms by (auto simp: NewPLCSimulator_def Let_def split: transportKind.splits option.splits if_splits)

lemma read_handshake: "readTCPMessage f (finsTCPFrame finsTCPHandshakeCommand [] @ rest) =
    Inr (\<lparr>tm_command = finsTCPHandshakeCommand, tm_errorCode = 0, tm_body = sl_make []\<rparr>, rest)"
  by (rule readTCPMessage_frame) simp

lemma read_handshake_only: "readTCPMessage f (finsTCPFrame finsTCPHandshakeCommand []) =
    Inr (\<lparr>tm_command = finsTCPHandshakeCommand, tm_errorCode = 0, tm_body = sl_make []\<rparr>, [])"
  using read_handshake [of f "[]"] by simp

lemmas sim_eval = sim_step_def sim_init_def sim_go_def go_step_def new_conn_def new_inline_def storing_def
  holding_def sl_range_make word_range_def read_handshake_only IsClosed_def fails_with_def

lemma overlapping_run:
  assumes "wordAreas s MemoryAreaDMWord = Some newArea" "\<not> closed s"
  shows "\<exists>x. sim_run (sim_init s) overlapping_calls = Some x \<and> list_ex storing (m_gos x) \<and>
    (\<exists>y. sim_run x read_after = Some y \<and>
      g_pc (m_gos y ! 1) = InlineDone (Call_readWords MemoryAreaDMWord 0 1) [7, 8] EndCodeNormalCompletion)"
  using assms by (simp add: overlapping_calls_def read_after_def word_of_7_8_def sim_eval newArea_length)

theorem connections_served_in_turn_witness:
  "\<exists>s x y log es m m'. NewPLCSimulator transportUDP False None = Inr s \<and>
     sim_run (sim_init s) overlapping_calls = Some x \<and> list_ex storing (m_gos x) \<and>
     sim_run x read_after = Some y \<and>
     g_pc (m_gos y ! 1) = InlineDone (Call_readWords MemoryAreaDMWord 0 1) [7, 8] EndCodeNormalCompletion \<and>
     replay s log = Some m \<and> told log m x \<and> replay m es = Some m' \<and> told (log @ es) m' y"
proof -
  obtain s where s: "NewPLCSimulator transportUDP False None = Inr s" "server_ok s" "\<not> closed s"
    using simulator_exists by blast
  obtain x y where "sim_run (sim_init s) overlapping_calls = Some x" "list_ex storing (m_gos x)"
    "sim_run x read_after = Some y"
    "g_pc (m_gos y ! 1) = InlineDone (Call_readWords MemoryAreaDMWord 0 1) [7, 8] EndCodeNormalCompletion"
    using overlapping_run [OF server_dm [OF s(1)] s(3)] by blast
  with connections_served_in_turn [OF s(2) this(1,3)] s(1) show ?thesis by blast
qed

section \<open>The error channel\<close>

lemma sim_run_snoc: "sim_run x (acts @ [act]) = Some y \<longleftrightarrow> (\<exists>z. sim_run x acts = Some z \<and> sim_step z act = Some y)"
  by (auto simp: sim_run_append split: bind_splits)

definition waits_to_report :: "nat \<Rightarrow> fins_error \<Rightarrow> sim \<Rightarrow> bool" where
  "waits_to_report i e x \<longleftrightarrow> i < length (m_gos x) \<and> g_pc (m_gos x ! i) = ReportError e \<and>
     length (m_errs x) = ERROR_CHANNEL_BUFFER"

lemma go_step_of_reporter:
  "g_pc g = ReportError e \<Longrightarrow> go_step s writing held room ch now werr g =
     (if ch then GoPanics else if room then GoReports e (g\<lparr>g_pc := Finished\<rparr>) else GoWaits)"
  by (simp add: go_step_def)

lemma waits_to_report_step:
  assumes "waits_to_report i e x" "sim_step x act = Some y" "act \<noteq> ReceiveErr" "\<not> m_panicked y"
  shows "waits_to_report i e y"
proof (cases act)
  case (Go j now werr)
  show ?thesis
  proof (cases "j = i")
    case True
    then show ?thesis using assms Go
      by (auto simp: sim_step_def sim_go_def waits_to_report_def go_step_of_reporter split: if_splits)
  next
    case False
    then show ?thesis using assms Go
      by (auto simp: sim_step_def sim_go_def waits_to_report_def split: if_splits go_outcome.splits
          dest!: go_step_report)
  qed
qed (use assms in \<open>auto simp: sim_step_def waits_to_report_def nth_append split: if_splits accept_pc.splits list.splits\<close>)

lemma waits_to_report_run:
  "waits_to_report i e x \<Longrightarrow> sim_run x acts = Some y \<Longrightarrow> ReceiveErr \<notin> set acts \<Longrightarrow>
   m_panicked y \<or> waits_to_report i e y"
proof (induction acts arbitrary: y rule: rev_induct)
  case (snoc act acts)
  then obtain z where z: "sim_run x acts = Some z" "sim_step z act = Some y" by (auto simp: sim_run_snoc)
  then have w: "waits_to_report i e z" using snoc by (auto simp: sim_step_def split: if_splits)
  have "act \<noteq> ReceiveErr" using snoc.prems(3) by auto
  then show ?case using waits_to_report_step [OF w z(2)] by blast
qed simp

text \<open>
  C8: the error channel of the TCP simulator has room for one error, and every connection that ends
  reports one, an orderly hang-up included.  A goroutine that finds the channel full never ends, and
  so never closes its connection, while nobody receives; and once the server has been closed and the
  accept loop has closed the channel, the goroutine's wake-up is a panic that ends the process.
\<close>

theorem full_channel_strands_reporter:
  assumes "sim_run x acts = Some y" "ReceiveErr \<notin> set acts"
    and "i < length (m_gos x)" "g_pc (m_gos x ! i) = ReportError e" "length (m_errs x) = ERROR_CHANNEL_BUFFER"
  shows "m_panicked y \<or> g_pc (m_gos y ! i) = ReportError e \<and>
    (m_errClosed y \<longrightarrow> (\<exists>z. sim_step y (Go i now werr) = Some z \<and> m_panicked z))"
proof -
  have "waits_to_report i e x" using assms(3-5) by (simp add: waits_to_report_def)
  from waits_to_report_run [OF this assms(1,2)] show ?thesis
    by (auto simp: waits_to_report_def sim_step_def sim_go_def go_step_of_reporter)
qed

text \<open>Two clients connect, make the handshake and hang up; then the server is closed.\<close>

definition two_clients :: "sim_action list" where
  "two_clients =
     [AcceptConn (finsTCPFrame finsTCPHandshakeCommand []) EOF,
      Go 0 leap_day None, Go 0 leap_day None, Go 0 leap_day None, Go 0 leap_day None,
      AcceptConn (finsTCPFrame finsTCPHandshakeCommand []) EOF,
      Go 1 leap_day None, Go 1 leap_day None, Go 1 leap_day None]"

definition closing_down :: "sim_action list" where
  "closing_down = [CloseServer, AcceptFails (IOError EOF)]"

lemma read_nothing: "readTCPMessage EOF [] = Inl (IOError EOF)"
  by (simp add: readTCPMessage_def ReadFull_def)

abbreviation hang_up_error :: fins_error where
  "hang_up_error \<equiv> Errorf ''read error: %w'' [] (Some (IOError EOF))"

lemma two_clients_run:
  assumes "\<not> closed s"
  shows "\<exists>x. sim_run (sim_init s) two_clients = Some x \<and> length (m_gos x) = 2 \<and>
    g_pc (m_gos x ! 1) = ReportError hang_up_error \<and> length (m_errs x) = ERROR_CHANNEL_BUFFER \<and>
    (\<exists>y. sim_run x closing_down = Some y \<and> m_errClosed y \<and> \<not> m_panicked y)"
  using assms by (simp add: two_clients_def closing_down_def sim_eval read_nothing Close_def)

theorem full_channel_strands_reporter_witness:
  "\<exists>s x y z. NewPLCSimulator transportTCP True None = Inr s \<and> sim_run (sim_init s) two_clients = Some x \<and>
     sim_run x closing_down = Some y \<and> \<not> m_panicked y \<and> sim_step y (Go 1 leap_day None) = Some z \<and> m_panicked z"
proof -
  obtain s where s: "NewPLCSimulator transportTCP True None = Inr s" by (simp add: NewPLCSimulator_def)
  obtain x y where x: "sim_run (sim_init s) two_clients = Some x" "length (m_gos x) = 2"
      "g_pc (m_gos x ! 1) = ReportError hang_up_error" "length (m_errs x) = ERROR_CHANNEL_BUFFER"
    and y: "sim_run x closing_down = Some y" "m_errClosed y" "\<not> m_panicked y"
    using two_clients_run [OF server_ok_new(2) [OF s]] by blast
  have "ReceiveErr \<notin> set closing_down" "1 < length (m_gos x)" using x(2) by (simp_all add: closing_down_def)
  from full_channel_strands_reporter [OF y(1) this x(3,4), of leap_day None] show ?thesis using s x(1) y by blast
qed

section \<open>Panics\<close>

text \<open>
  The request the goroutine is about to decode or is serving, or its in-process call, would make a
  simulator with no other client panic too.
\<close>

definition dies_alone :: "Server \<Rightarrow> goTime \<Rightarrow> goroutine \<Rightarrow> bool" where
  "dies_alone s now g =
     (case g_pc g of
        AwaitRequest \<Rightarrow>
          (case readTCPMessage (g_fin g) (g_stream g) of
             Inl e \<Rightarrow> False
           | Inr (msg, rest) \<Rightarrow> tm_command msg = finsTCPDataCommand \<and>
               (case decodeRequest (tm_body msg) of None \<Rightarrow> True | Some r \<Rightarrow> handler s now r = None))
      | InHandler now' r p \<Rightarrow> handler s now' r = None
      | InlineOp call p \<Rightarrow> run_call s call = None
      | _ \<Rightarrow> False)"

lemma areas_cong:
  assumes "server_ok s" "server_ok t"
  shows "map_option length (area_of k s a) = map_option length (area_of k t a)"
proof -
  have "area_of k s a = None \<longleftrightarrow> area_of k t a = None"
    using assms by (cases k) (metis area_of.simps domIff server_ok_def)+
  then show ?thesis using server_ok_area assms by (cases "area_of k s a"; cases "area_of k t a") auto
qed

lemma locked_panic:
  assumes "copy_step writing held s p = CopyPanics" "server_ok s" "server_ok t"
  obtains acc where "p = AtLock acc" "perform t acc = None"
proof (cases p)
  case (AtLock acc)
  have "perform t acc = None"
  proof (cases acc)
    case (Copy_out k a lo hi)
    then show ?thesis using assms(1) areas_cong [OF assms(2,3), of k a] unfolding AtLock Copy_out
      by (cases "area_of k s a"; cases "area_of k t a") (auto simp: sl_range_make split: if_splits)
  next
    case (Copy_in k a lo hi q)
    then show ?thesis using assms(1) areas_cong [OF assms(2,3), of k a] unfolding AtLock Copy_in
      by (cases "area_of k s a"; cases "area_of k t a") (auto simp: sl_range_make split: if_splits)
  qed
  with AtLock show ?thesis using that by blast
qed (use assms(1) in \<open>simp_all split: if_splits\<close>)

lemma go_step_panics:
  assumes step: "go_step s writing held room ch now werr g = GoPanics"
    and inv: "pc_ok s g qs rs cs (g_pc g)" and ok: "server_ok s" "server_ok t"
  shows "(\<exists>e. g_pc g = ReportError e) \<and> ch \<or> dies_alone t now g"
proof (cases "copy_of (g_pc g)")
  case None
  then show ?thesis
    using step handler_prepare_cong [OF ok]
    by (cases "g_pc g") (auto simp: go_step_def dies_alone_def handler_prepare_finish
        split: sum.splits option.splits if_splits prod.splits handler_plan.splits)
next
  case (Some p)
  then have "copy_step writing held s p = CopyPanics"
    using step by (cases "g_pc g"; cases p) (auto simp: go_step_def simp del: copy_step.simps split: copy_outcome.splits)
  then obtain acc where acc: "p = AtLock acc" "perform t acc = None" using locked_panic ok by blast
  then show ?thesis
    using Some inv ok by (cases "g_pc g") (auto simp: dies_alone_def handler_prepare_finish finish_handler_def
        run_call_prepare finish_call_def)
qed

lemma closed_channel:
  "sim_run (sim_init s) acts = Some y \<Longrightarrow> m_errClosed y \<or> m_accept y \<noteq> Accepting \<Longrightarrow> \<exists>e. AcceptFails e \<in> set acts"
proof (induction acts arbitrary: y rule: rev_induct)
  case (snoc act acts)
  then obtain z where z: "sim_run (sim_init s) acts = Some z" "sim_step z act = Some y" by (auto simp: sim_run_snoc)
  show ?case
  proof (cases "m_errClosed z \<or> m_accept z \<noteq> Accepting")
    case True
    then show ?thesis using snoc.IH [OF z(1)] by auto
  next
    case False
    then show ?thesis using z(2) snoc.prems(2)
      by (cases act) (auto simp: sim_step_def sim_go_def split: if_splits go_outcome.splits list.splits)
  qed
qed (simp add: sim_init_def)

text \<open>
  C9: what can end the process.  In a run from the start, under any interleaving, a panic is either a
  report on the error channel after the accept loop has closed it, or a request (or an in-process
  call) that would make the simulator panic on its own; interleaving adds no other.
\<close>

theorem panic_causes:
  assumes "server_ok s0" "sim_run (sim_init s0) acts = Some y" "m_panicked y"
  shows "\<exists>i < length (m_gos y). (\<exists>e. g_pc (m_gos y ! i) = ReportError e) \<and> m_errClosed y \<and> (\<exists>e. AcceptFails e \<in> set acts) \<or>
    (\<exists>now. dies_alone s0 now (m_gos y ! i))"
proof -
  have "acts \<noteq> []" using assms(2,3) by (auto simp: sim_init_def)
  then obtain before act where acts: "acts = before @ [act]" by (metis rev_exhaust)
  then obtain z where z: "sim_run (sim_init s0) before = Some z" "sim_step z act = Some y"
    using assms(2) by (auto simp: sim_run_snoc)
  from explained_run [OF explained_init [OF assms(1)] z(1)] obtain log m where ex: "explained s0 log z m" by auto
  obtain i now werr where act: "act = Go i now werr" "sim_go z i now werr = Some y"
    using z(2) assms(3) by (cases act) (auto simp: sim_step_def split: if_splits accept_pc.splits list.splits)
  have alive: "\<not> m_panicked z" using z(2) by (simp add: sim_step_def split: if_splits)
  let ?go = "go_step (m_srv z) (list_ex storing (m_gos z)) (list_ex holding (m_gos z))
      (length (m_errs z) < ERROR_CHANNEL_BUFFER) (m_errClosed z) now werr (m_gos z ! i)"
  have i: "i < length (m_gos z)" "?go = GoPanics" "y = z\<lparr>m_panicked := True\<rparr>"
    using act(2) assms(3) alive by (auto simp: sim_go_def split: if_splits go_outcome.splits)
  have "(\<exists>e. g_pc (m_gos z ! i) = ReportError e) \<and> m_errClosed z \<or> dies_alone s0 now (m_gos z ! i)"
    using ex i(1) assms(1) by (intro go_step_panics [OF i(2)]) (auto simp: explained_def)
  then show ?thesis using i closed_channel [OF assms(2)] by auto
qed

lemma short_request_run:
  "\<exists>y. sim_run (sim_init s) [AcceptConn (finsTCPFrame finsTCPHandshakeCommand [] @ finsTCPFrame finsTCPDataCommand []) EOF,
      Go 0 leap_day None, Go 0 leap_day None, Go 0 leap_day None] = Some y \<and> m_panicked y"
proof -
  have "readTCPMessage f (finsTCPFrame finsTCPDataCommand []) =
      Inr (\<lparr>tm_command = finsTCPDataCommand, tm_errorCode = 0, tm_body = sl_make []\<rparr>, [])" for f
    using readTCPMessage_frame [of "[]" f finsTCPDataCommand "[]"] by simp
  moreover have "decodeRequest (sl_make []) = None" by (simp add: decodeRequest_def sl_range_make)
  ultimately show ?thesis by (simp add: sim_eval read_handshake)
qed

theorem panic_causes_witness:
  "\<exists>s y g. NewPLCSimulator transportTCP True None = Inr s \<and>
     sim_run (sim_init s) (two_clients @ closing_down @ [Go 1 leap_day None]) = Some y \<and> m_panicked y \<and>
     g \<in> set (m_gos y) \<and> ((\<exists>e. g_pc g = ReportError e) \<and> m_errClosed y \<or> (\<exists>now. dies_alone s now g))"
proof -
  obtain s where s: "NewPLCSimulator transportTCP True None = Inr s" by (simp add: NewPLCSimulator_def)
  have run: "\<exists>y. sim_run (sim_init s) (two_clients @ closing_down @ [Go 1 leap_day None]) = Some y \<and> m_panicked y"
    using server_ok_new(2) [OF s]
    by (simp add: two_clients_def closing_down_def sim_eval read_nothing Close_def)
  then obtain y where y: "sim_run (sim_init s) (two_clients @ closing_down @ [Go 1 leap_day None]) = Some y" "m_panicked y"
    by blast
  from panic_causes [OF server_ok_new(1) [OF s] y] show ?thesis using s y by (meson nth_mem)
qed

end
