(* ===== verification/Fins_Alone.thy ===== *)
theory Fins_Alone
  imports Fins_Simulator
begin

text \<open>
  The sequential account of a TCP connection, \<open>handleTCPConn\<close> as one function, is what the goroutine of
  that connection does when it runs alone.
\<close>

definition alone :: "Server \<Rightarrow> fins_error list \<Rightarrow> goroutine \<Rightarrow> sim" where
  "alone s errs g = \<lparr>m_srv = s, m_gos = [g], m_accept = Accepting, m_errs = errs, m_errClosed = False,
     m_panicked = False\<rparr>"

definition reaches :: "sim \<Rightarrow> sim \<Rightarrow> bool" where
  "reaches x y \<longleftrightarrow> (\<exists>acts. sim_run x acts = Some y)"

lemma reaches_refl: "reaches x x"
  unfolding reaches_def by (rule exI [of _ "[]"]) simp

lemma reaches_trans [trans]: "reaches x y \<Longrightarrow> reaches y z \<Longrightarrow> reaches x z"
  unfolding reaches_def using sim_run_append by (metis bind.bind_lunit)

lemma alone_moves:
  assumes "go_step s (storing g) (holding g) (length errs < ERROR_CHANNEL_BUFFER) False now werr g = GoMoves s' g'"
  shows "reaches (alone s errs g) (alone s' errs g')"
  unfolding reaches_def using assms
  by (intro exI [of _ "[Go 0 now werr]"]) (simp add: alone_def sim_step_def sim_go_def)

lemma alone_reports: "g_pc g = ReportError e \<Longrightarrow> reaches (alone s [] g) (alone s [e] (g\<lparr>g_pc := Finished\<rparr>))"
  unfolding reaches_def
  by (intro exI [of _ "[Go 0 leap_day None]"]) (simp add: alone_def sim_step_def sim_go_def go_step_def)

section \<open>The copy\<close>

lemma copy_moves:
  assumes "g_pc g = InHandler now r p" "copy_step (is_storing p) (is_holding p) s p = CopyGoes s' p'" "\<forall>d. p \<noteq> Unlocked d"
  shows "reaches (alone s errs g) (alone s' errs (g\<lparr>g_pc := InHandler now r p'\<rparr>))"
  using assms by (intro alone_moves) (cases p; simp add: go_step_def)

lemma reading_reaches:
  assumes "g_pc g = InHandler now r (Reading k a lo hi acc)" "area_of k s a = Some buf" "hi \<le> length buf" "lo \<le> hi"
    "acc = take (length acc) (take (hi - lo) (drop lo buf))"
  shows "reaches (alone s errs g) (alone s errs (g\<lparr>g_pc := InHandler now r (Unlocked (take (hi - lo) (drop lo buf)))\<rparr>))"
  using assms
proof (induction "hi - lo - length acc" arbitrary: acc g)
  case 0
  have "length acc \<le> hi - lo" using 0 by (metis length_take min.cobounded2 min.bounded_iff)
  then have len: "length acc = hi - lo" using 0(1) by linarith
  have acc: "acc = take (hi - lo) (drop lo buf)" using 0(6) unfolding len by simp
  show ?case unfolding acc [symmetric] by (rule copy_moves [OF 0(2)]) (simp_all add: len)
next
  case (Suc n)
  let ?acc = "acc @ [buf ! (lo + length acc)]"
  have "length acc < hi - lo" using Suc.hyps(2) by linarith
  then have step: "reaches (alone s errs g) (alone s errs (g\<lparr>g_pc := InHandler now r (Reading k a lo hi ?acc)\<rparr>))"
    using Suc.prems(2) \<open>length acc < hi - lo\<close> by (intro copy_moves [OF Suc.prems(1)]) simp_all
  have "take (hi - lo) (drop lo buf) ! length acc = buf ! (lo + length acc)" "length acc < length (take (hi - lo) (drop lo buf))"
    using Suc \<open>length acc < hi - lo\<close> by auto
  then have "?acc = take (length ?acc) (take (hi - lo) (drop lo buf))"
    using Suc.prems(5) by (simp add: take_Suc_conv_app_nth del: take_take)
  then show ?case
    using reaches_trans [OF step Suc.hyps(1) [of ?acc "g\<lparr>g_pc := InHandler now r (Reading k a lo hi ?acc)\<rparr>"]] Suc by simp
qed

lemma storing_reaches:
  assumes "g_pc g = InHandler now r (Storing k a lo hi p n)" "copy_ok s (Storing k a lo hi p n) []" "server_ok s"
  shows "reaches (alone s errs g) (alone (target_pc (Storing k a lo hi p n) s) errs (g\<lparr>g_pc := InHandler now r (Unlocked [])\<rparr>))"
  using assms
proof (induction "min (hi - lo) (length p) - n" arbitrary: s n g)
  case 0
  then have go: "copy_step True True s (Storing k a lo hi p n) = CopyGoes s (Unlocked [])" by auto
  from copy_storing [OF this 0(3,4)] have "target_pc (Storing k a lo hi p n) s = s" by (metis target_pc.simps(4))
  then show ?case using go by (simp del: target_pc.simps copy_step.simps) (rule copy_moves [OF 0(2)], simp_all del: copy_step.simps)
next
  case (Suc m)
  let ?s = "put_area k a ((the (area_of k s a))[lo + n := p ! n]) s" and ?p = "Storing k a lo hi p (Suc n)"
  let ?g = "g\<lparr>g_pc := InHandler now r ?p\<rparr>"
  have go: "copy_step True True s (Storing k a lo hi p n) = CopyGoes ?s ?p" using Suc.hyps(2) by auto
  from copy_storing [OF this Suc.prems(2,3)] have ok: "copy_ok ?s ?p []" "server_ok ?s"
    "target_pc ?p ?s = target_pc (Storing k a lo hi p n) s" by blast+
  have step: "reaches (alone s errs g) (alone ?s errs ?g)"
    using go by (intro copy_moves [OF Suc.prems(1)]) (simp_all del: copy_step.simps)
  have "reaches (alone ?s errs ?g) (alone (target_pc ?p ?s) errs (?g\<lparr>g_pc := InHandler now r (Unlocked [])\<rparr>))"
    using Suc.hyps ok by (intro Suc.hyps(1)) simp_all
  then show ?case using reaches_trans [OF step] ok(3) by (simp del: target_pc.simps)
qed

lemma copy_reaches:
  assumes "g_pc g = InHandler now r (AtLock acc)" "perform s acc = Some (s', d)" "server_ok s"
  shows "reaches (alone s errs g) (alone s' errs (g\<lparr>g_pc := InHandler now r (Unlocked d)\<rparr>))"
proof (cases acc)
  case (Copy_out k a lo hi)
  then obtain buf where buf: "area_of k s a = Some buf" "lo \<le> hi" "hi \<le> length buf" "s' = s"
    "d = take (hi - lo) (drop lo buf)"
    using assms(2) by (auto simp: sl_range_make split: if_splits elim!: bind_SomeE)
  let ?g = "g\<lparr>g_pc := InHandler now r (Reading k a lo hi [])\<rparr>"
  have "reaches (alone s errs g) (alone s errs ?g)"
    using buf Copy_out by (intro copy_moves [OF assms(1)]) (simp_all add: sl_range_make)
  also have "reaches \<dots> (alone s errs (?g\<lparr>g_pc := InHandler now r (Unlocked d)\<rparr>))"
    unfolding buf(5) using buf by (intro reading_reaches [where acc = "[]"]) simp_all
  finally show ?thesis using buf(4) by simp
next
  case (Copy_in k a lo hi p)
  then obtain buf where buf: "area_of k s a = Some buf" "lo \<le> hi" "hi \<le> length buf"
    "s' = target_pc (Storing k a lo hi p 0) s" "d = []"
    using assms(2) by (auto simp: sl_range_make split: if_splits elim!: bind_SomeE)
  let ?g = "g\<lparr>g_pc := InHandler now r (Storing k a lo hi p 0)\<rparr>"
  have "reaches (alone s errs g) (alone s errs ?g)"
    using buf Copy_in by (intro copy_moves [OF assms(1)]) (simp_all add: sl_range_make)
  also have "reaches \<dots> (alone s' errs (?g\<lparr>g_pc := InHandler now r (Unlocked d)\<rparr>))"
    unfolding buf(4,5) using buf assms(3) by (intro storing_reaches) simp_all
  finally show ?thesis by simp
qed

section \<open>The service loop\<close>

definition errs_of :: "fins_error option \<Rightarrow> fins_error list" where
  "errs_of err = (case err of None \<Rightarrow> [] | Some e \<Rightarrow> [e])"

text \<open>A goroutine that fails: its report, unless the server is closed.\<close>

lemma fails_reaches:
  assumes "go_step s (storing g) (holding g) True False now werr g = GoMoves s (g'\<lparr>g_pc := fails_with s msg e\<rparr>)"
  shows "reaches (alone s [] g)
    (alone s (errs_of (if closed s then None else Some (Errorf msg [] (Some e)))) (g'\<lparr>g_pc := Finished\<rparr>))"
proof (cases "closed s")
  case True
  then show ?thesis using assms alone_moves [of s g "[]" now werr]
    by (simp add: fails_with_def IsClosed_def errs_of_def)
next
  case False
  let ?e = "Errorf msg [] (Some e)"
  have "reaches (alone s [] g) (alone s [] (g'\<lparr>g_pc := ReportError ?e\<rparr>))"
    using assms alone_moves [of s g "[]" now werr] False by (simp add: fails_with_def IsClosed_def)
  also have "reaches \<dots> (alone s [?e] ((g'\<lparr>g_pc := ReportError ?e\<rparr>)\<lparr>g_pc := Finished\<rparr>))" by (rule alone_reports) simp
  finally show ?thesis using False by (simp add: errs_of_def)
qed

lemma request_reaches:
  assumes "g_pc g = AwaitRequest" "readTCPMessage (g_fin g) (g_stream g) = Inr (msg, rest)"
    "tm_command msg = finsTCPDataCommand" "decodeRequest (tm_body msg) = Some r" "handler s now r = Some (s', resp)"
    "server_ok s"
  shows "reaches (alone s [] g) (alone s' [] (g\<lparr>g_stream := rest, g_pc := SendReply (data_frame resp)\<rparr>))"
proof -
  obtain pl where pl: "handler_prepare s now r = Some pl" "finish_handler s r pl = Some (s', resp)"
    using assms(5) by (auto simp: handler_prepare_finish elim: bind_SomeE)
  show ?thesis
  proof (cases pl)
    case (Answer d ec)
    then have "s' = s" "resp = reply r ec d" using pl(2) by (simp_all add: finish_handler_def)
    then show ?thesis using assms pl Answer by (intro alone_moves [where now = now]) (simp add: go_step_def)
  next
    case (Needs acc)
    then obtain d where d: "perform s acc = Some (s', d)" "resp = reply r EndCodeNormalCompletion d"
      using pl(2) by (auto simp: finish_handler_def)
    let ?g = "g\<lparr>g_stream := rest, g_pc := InHandler now r (AtLock acc)\<rparr>"
    let ?h = "g\<lparr>g_stream := rest, g_pc := InHandler now r (Unlocked d)\<rparr>"
    have "reaches (alone s [] g) (alone s [] ?g)"
      using assms pl Needs by (intro alone_moves [where now = now]) (simp add: go_step_def)
    also have "reaches \<dots> (alone s' [] (?g\<lparr>g_pc := InHandler now r (Unlocked d)\<rparr>))"
      using d(1) assms(6) by (intro copy_reaches) simp_all
    also have "?g\<lparr>g_pc := InHandler now r (Unlocked d)\<rparr> = ?h" by simp
    also have "reaches (alone s' [] ?h) (alone s' [] (g\<lparr>g_stream := rest, g_pc := SendReply (data_frame resp)\<rparr>))"
      unfolding d(2) by (intro alone_moves) (simp add: go_step_def)
    finally show ?thesis .
  qed
qed

text \<open>
  \<open>Close\<close> closes the listener but no connection: a client that is connected goes on being served,
  its writes change the memory, as if the server were open.
\<close>

lemma closed_server_still_serves:
  assumes "closed s" "server_ok s" "g_pc g = AwaitRequest" "readTCPMessage (g_fin g) (g_stream g) = Inr (msg, rest)"
    "tm_command msg = finsTCPDataCommand" "decodeRequest (tm_body msg) = Some r" "handler s now r = Some (s', resp)"
  shows "reaches (alone s [] g) (alone s' [] (g\<lparr>g_stream := rest, g_sent := g_sent g @ data_frame resp\<rparr>))"
proof -
  let ?g = "g\<lparr>g_stream := rest, g_pc := SendReply (data_frame resp)\<rparr>"
  have "reaches (alone s [] g) (alone s' [] ?g)" using assms by (intro request_reaches) auto
  also have "reaches \<dots> (alone s' [] (?g\<lparr>g_sent := g_sent ?g @ data_frame resp, g_pc := AwaitRequest\<rparr>))"
    by (intro alone_moves [where werr = None]) (simp add: go_step_def)
  also have "?g\<lparr>g_sent := g_sent ?g @ data_frame resp, g_pc := AwaitRequest\<rparr> =
      g\<lparr>g_stream := rest, g_sent := g_sent g @ data_frame resp\<rparr>"
    using assms(3) by (cases g) simp
  finally show ?thesis .
qed

lemma tcp_serve_reaches:
  assumes "tcp_serve s fin clk werr k stream = Some (s', out, err)" "server_ok s"
    "g_pc g = AwaitRequest" "g_fin g = fin" "g_stream g = stream"
  shows "\<exists>rest. reaches (alone s [] g)
    (alone s' (errs_of err) (g\<lparr>g_pc := Finished, g_stream := rest, g_sent := g_sent g @ out\<rparr>))"
  using assms
proof (induction s fin clk werr k stream arbitrary: g s' out err rule: tcp_serve.induct)
  case (1 s fin clk werr k stream)
  show ?case
  proof (cases "readTCPMessage fin stream")
    case (Inl e)
    then have out: "s' = s" "out = []" "err = (if closed s then None else Some (Errorf ''read error: %w'' [] (Some e)))"
      using 1(3) by (auto simp: tcp_serve.simps [of s])
    have "reaches (alone s [] g) (alone s (errs_of err) (g\<lparr>g_pc := Finished\<rparr>))"
      unfolding out(3) using Inl 1(5-7) by (intro fails_reaches) (simp add: go_step_def)
    moreover have "g\<lparr>g_pc := Finished, g_stream := stream, g_sent := g_sent g @ out\<rparr> = g\<lparr>g_pc := Finished\<rparr>"
      using out(2) 1(7) by (cases g) simp
    ultimately show ?thesis unfolding out(1) by metis
  next
    case (Inr p)
    then obtain msg rest where p: "readTCPMessage fin stream = Inr (msg, rest)" by (cases p) auto
    show ?thesis
    proof (cases "tm_command msg = finsTCPDataCommand")
      case False
      let ?g = "g\<lparr>g_stream := rest\<rparr>"
      have "reaches (alone s [] g) (alone s [] ?g)"
        using p False 1(5-7) by (intro alone_moves) (simp add: go_step_def)
      moreover obtain rest' where "reaches (alone s [] ?g)
          (alone s' (errs_of err) (?g\<lparr>g_pc := Finished, g_stream := rest', g_sent := g_sent ?g @ out\<rparr>))"
        using 1(1) [OF p refl False, of s' out err ?g] 1(3-6) p False by (auto simp: tcp_serve.simps [of s])
      ultimately show ?thesis using reaches_trans by fastforce
    next
      case True
      obtain r s1 resp where r: "decodeRequest (tm_body msg) = Some r" "handler s (clk k) r = Some (s1, resp)"
        using 1(3) p True by (auto simp: tcp_serve.simps [of s] elim!: bind_SomeE)
      let ?g = "g\<lparr>g_stream := rest, g_pc := SendReply (data_frame resp)\<rparr>"
      have ask: "reaches (alone s [] g) (alone s1 [] ?g)"
        using p True r 1(4-7) by (intro request_reaches) auto
      have ok: "server_ok s1" using handler_ok [OF 1(4) r(2)] .
      show ?thesis
      proof (cases "werr k")
        case (Some e)
        then have out: "s' = s1" "out = []" "err = (if closed s1 then None else Some (Errorf ''write error: %w'' [] (Some e)))"
          using 1(3) p True r Some by (auto simp: tcp_serve.simps [of s])
        have "reaches (alone s1 [] ?g) (alone s1 (errs_of err) (?g\<lparr>g_pc := Finished\<rparr>))"
          unfolding out(3) using Some by (intro fails_reaches [where werr = "werr k"]) (simp add: go_step_def)
        moreover have "g\<lparr>g_pc := Finished, g_stream := rest, g_sent := g_sent g @ out\<rparr> = ?g\<lparr>g_pc := Finished\<rparr>"
          using out(2) by (cases g) simp
        ultimately show ?thesis using reaches_trans [OF ask] unfolding out(1) by metis
      next
        case None
        let ?h = "g\<lparr>g_stream := rest, g_sent := g_sent g @ data_frame resp\<rparr>"
        have sent: "reaches (alone s1 [] ?g) (alone s1 [] ?h)"
          using None 1(5) by (intro alone_moves [where werr = None]) (simp add: go_step_def)
        obtain out' where rec: "tcp_serve s1 fin clk werr (Suc k) rest = Some (s', out', err)" "out = data_frame resp @ out'"
          using 1(3) p True r None by (auto simp: tcp_serve.simps [of s] data_frame_def elim!: bind_SomeE)
        have "\<exists>rest'. reaches (alone s1 [] ?h)
            (alone s' (errs_of err) (?h\<lparr>g_pc := Finished, g_stream := rest', g_sent := g_sent ?h @ out'\<rparr>))"
          using 1(5,6) rec(1) ok p True r None by (intro 1(2)) auto
        then show ?thesis using reaches_trans [OF reaches_trans [OF ask sent]] rec(2) by fastforce
      qed
    qed
  qed
qed

lemma conn_reaches:
  assumes "handleTCPConn s fin clk hsErr werr stream = Some (s', out, err)" "server_ok s"
  shows "\<exists>rest. reaches (alone s [] (new_conn stream fin))
    (alone s' (errs_of err) ((new_conn stream fin)\<lparr>g_pc := Finished, g_stream := rest, g_sent := out\<rparr>))"
proof -
  let ?g = "new_conn stream fin"
  have g: "g_pc ?g = AwaitHandshake" "g_fin ?g = fin" "g_stream ?g = stream" "g_sent ?g = []"
    by (simp_all add: new_conn_def)
  have full: "?g\<lparr>g_pc := Finished, g_stream := r, g_sent := []\<rparr> = ?g\<lparr>g_stream := r, g_pc := Finished\<rparr>" for r
    using g(4) by (simp add: new_conn_def)
  show ?thesis
  proof (cases "readTCPMessage fin stream")
    case (Inl e)
    then have out: "s' = s" "out = []" "err = (if closed s then None else Some (Errorf ''handshake read error: %w'' [] (Some e)))"
      using assms(1) by (auto simp: handleTCPConn_def)
    have "reaches (alone s [] ?g) (alone s (errs_of err) (?g\<lparr>g_pc := Finished\<rparr>))"
      unfolding out(3) using Inl g by (intro fails_reaches) (simp add: go_step_def)
    moreover have "?g\<lparr>g_pc := Finished, g_stream := stream, g_sent := []\<rparr> = ?g\<lparr>g_pc := Finished\<rparr>"
      by (simp add: new_conn_def)
    ultimately show ?thesis unfolding out(1,2) by metis
  next
    case (Inr p)
    then obtain msg rest where p: "readTCPMessage fin stream = Inr (msg, rest)" by (cases p) auto
    let ?h = "?g\<lparr>g_stream := rest, g_pc := SendHandshake\<rparr>"
    show ?thesis
    proof (cases "tm_command msg = finsTCPHandshakeCommand")
      case False
      then have out: "s' = s" "out = []" "err = None" using assms(1) p by (auto simp: handleTCPConn_def)
      have "reaches (alone s [] ?g) (alone s [] (?g\<lparr>g_stream := rest, g_pc := Finished\<rparr>))"
        using p False g by (intro alone_moves) (simp add: go_step_def)
      then show ?thesis unfolding out by (intro exI [of _ rest]) (simp add: full errs_of_def)
    next
      case True
      have took: "reaches (alone s [] ?g) (alone s [] ?h)"
        using p True g by (intro alone_moves) (simp add: go_step_def)
      show ?thesis
      proof (cases hsErr)
        case (Some e)
        then have out: "s' = s" "out = []" "err = (if closed s then None else Some (Errorf ''handshake write error: %w'' [] (Some e)))"
          using assms(1) p True by (auto simp: handleTCPConn_def)
        have "reaches (alone s [] ?h) (alone s (errs_of err) (?h\<lparr>g_pc := Finished\<rparr>))"
          unfolding out(3) using Some by (intro fails_reaches [where werr = hsErr]) (simp add: go_step_def)
        then have "reaches (alone s [] ?g) (alone s (errs_of err) (?g\<lparr>g_stream := rest, g_pc := Finished\<rparr>))"
          using reaches_trans [OF took] by simp
        then show ?thesis unfolding out(1,2) full [of rest, symmetric] by blast
      next
        case None
        let ?k = "?h\<lparr>g_sent := finsTCPFrame finsTCPHandshakeCommand [], g_pc := AwaitRequest\<rparr>"
        obtain out' where serve: "tcp_serve s fin clk werr 0 rest = Some (s', out', err)"
          "out = finsTCPFrame finsTCPHandshakeCommand [] @ out'"
          using assms(1) p True None by (auto simp: handleTCPConn_def elim!: bind_SomeE)
        have "reaches (alone s [] ?h) (alone s [] ?k)"
          using g(4) by (intro alone_moves [where werr = None]) (simp add: go_step_def)
        moreover obtain rest' where "reaches (alone s [] ?k)
            (alone s' (errs_of err) (?k\<lparr>g_pc := Finished, g_stream := rest', g_sent := g_sent ?k @ out'\<rparr>))"
          using tcp_serve_reaches [OF serve(1) assms(2), of ?k] g(2) by auto
        ultimately have "reaches (alone s [] ?g)
            (alone s' (errs_of err) (?k\<lparr>g_pc := Finished, g_stream := rest', g_sent := g_sent ?k @ out'\<rparr>))"
          using reaches_trans took by blast
        moreover have "?k\<lparr>g_pc := Finished, g_stream := rest', g_sent := g_sent ?k @ out'\<rparr> =
            ?g\<lparr>g_pc := Finished, g_stream := rest', g_sent := out\<rparr>"
          using serve(2) by (simp add: new_conn_def)
        ultimately show ?thesis by metis
      qed
    qed
  qed
qed

text \<open>
  C7: the sequential \<open>handleTCPConn\<close>, on which the read-back properties of a TCP client rest, is a run
  of the simulator's goroutines with one connection: the same memory, the same bytes sent, the same
  error on the channel, byte by byte under the lock.
\<close>

theorem lone_connection_refines:
  assumes "handleTCPConn s fin clk hsErr werr stream = Some (s', out, err)" "server_ok s"
  shows "\<exists>acts x. sim_run (sim_init s) (AcceptConn stream fin # acts) = Some x \<and> m_srv x = s' \<and>
    m_errs x = errs_of err \<and> map g_pc (m_gos x) = [Finished] \<and> map g_sent (m_gos x) = [out]"
proof -
  obtain rest acts where "sim_run (alone s [] (new_conn stream fin)) acts =
      Some (alone s' (errs_of err) ((new_conn stream fin)\<lparr>g_pc := Finished, g_stream := rest, g_sent := out\<rparr>))"
    using conn_reaches [OF assms] unfolding reaches_def by blast
  then have "sim_run (sim_init s) (AcceptConn stream fin # acts) =
      Some (alone s' (errs_of err) ((new_conn stream fin)\<lparr>g_pc := Finished, g_stream := rest, g_sent := out\<rparr>))"
    by (simp add: sim_step_def sim_init_def alone_def)
  then show ?thesis by (intro exI conjI) (assumption, simp_all add: alone_def)
qed

theorem lone_connection_refines_witness:
  "\<exists>s acts x. NewPLCSimulator transportTCP True None = Inr s \<and>
     sim_run (sim_init s) (AcceptConn (finsTCPFrame finsTCPHandshakeCommand []) EOF # acts) = Some x \<and>
     m_errs x = [hang_up_error] \<and> map g_sent (m_gos x) = [finsTCPFrame finsTCPHandshakeCommand []]"
proof -
  obtain s where s: "NewPLCSimulator transportTCP True None = Inr s" by (simp add: NewPLCSimulator_def)
  note ok = server_ok_new [OF s]
  have "handleTCPConn s EOF (\<lambda>_. leap_day) None (\<lambda>_. None) (finsTCPFrame finsTCPHandshakeCommand []) =
      Some (s, finsTCPFrame finsTCPHandshakeCommand [], Some hang_up_error)"
    using ok(2) by (simp add: handleTCPConn_def read_handshake_only tcp_serve.simps [of s] read_nothing)
  from lone_connection_refines [OF this ok(1)] show ?thesis using s unfolding errs_of_def option.case by metis
qed

end
