(* ===== verification/Fins_Spec.thy ===== *)
theory Fins_Spec
  imports Fins_Handler
begin

text \<open>
  What a PLC is to its clients, free of buffers, frames and end codes: a byte for every position
  of a word area and of a bit area.  The simulator refines this specification, and so does every
  client on top of it: the locale \<open>fins_client\<close> is the contract of a client's operations, and
  its lemmas follow from the contract alone.
\<close>

section \<open>The abstract memory\<close>

record plc =
  wmem :: "u8 \<Rightarrow> nat \<Rightarrow> u8"
  bmem :: "u8 \<Rightarrow> nat \<Rightarrow> u8"

definition load :: "(nat \<Rightarrow> u8) \<Rightarrow> nat \<Rightarrow> nat \<Rightarrow> u8 list" where
  "load m ad n = map m [ad ..< ad + n]"

definition store :: "(nat \<Rightarrow> u8) \<Rightarrow> nat \<Rightarrow> u8 list \<Rightarrow> nat \<Rightarrow> u8" where
  "store m ad bs i = (if ad \<le> i \<and> i < ad + length bs then bs ! (i - ad) else m i)"

definition store_word_bytes :: "u8 \<Rightarrow> nat \<Rightarrow> u8 list \<Rightarrow> plc \<Rightarrow> plc" where
  "store_word_bytes a ad bs p = p\<lparr>wmem := (wmem p)(a := store (wmem p a) ad bs)\<rparr>"

definition store_bit_bytes :: "u8 \<Rightarrow> nat \<Rightarrow> u8 list \<Rightarrow> plc \<Rightarrow> plc" where
  "store_bit_bytes a ad bs p = p\<lparr>bmem := (bmem p)(a := store (bmem p a) ad bs)\<rparr>"

lemma length_load [simp]: "length (load m ad n) = n"
  by (simp add: load_def)

lemma load_store_same: "load (store m ad bs) ad (length bs) = bs"
  by (rule nth_equalityI) (simp_all add: load_def store_def)

lemma load_store_other:
  "ad' + n \<le> ad \<or> ad + length bs \<le> ad' \<Longrightarrow> load (store m ad bs) ad' n = load m ad' n"
  by (auto simp: load_def store_def)

lemma store_memories [simp]:
  "wmem (store_word_bytes a ad bs p) = (wmem p)(a := store (wmem p a) ad bs)"
  "bmem (store_word_bytes a ad bs p) = bmem p"
  "bmem (store_bit_bytes a ad bs p) = (bmem p)(a := store (bmem p a) ad bs)"
  "wmem (store_bit_bytes a ad bs p) = wmem p"
  by (simp_all add: store_word_bytes_def store_bit_bytes_def)

section \<open>The simulator refines it\<close>

definition area_view :: "(u8 \<rightharpoonup> u8 list) \<Rightarrow> u8 \<Rightarrow> nat \<Rightarrow> u8" where
  "area_view areas a i = (case areas a of Some buf \<Rightarrow> if i < length buf then buf ! i else 0 | None \<Rightarrow> 0)"

definition server_view :: "Server \<Rightarrow> plc" where
  "server_view s = \<lparr>wmem = area_view (wordAreas s), bmem = area_view (bitAreas s)\<rparr>"

lemma area_view_slice:
  assumes "areas a = Some buf" "lo + n \<le> length buf"
  shows "take n (drop lo buf) = load (area_view areas a) lo n"
  by (rule nth_equalityI) (use assms in \<open>simp_all add: load_def area_view_def\<close>)

lemma area_view_upd:
  assumes "areas a = Some buf" "lo + n \<le> length buf"
  shows "area_view (areas(a \<mapsto> copy_at buf lo (lo + n) p)) = (area_view areas)(a := store (area_view areas a) lo (take n p))"
proof (intro ext)
  fix a' i
  show "area_view (areas(a \<mapsto> copy_at buf lo (lo + n) p)) a' i =
      ((area_view areas)(a := store (area_view areas a) lo (take n p))) a' i"
  proof (cases "a' = a \<and> i < length buf")
    case True
    then show ?thesis
      using assms copy_at_nth [of lo "lo + n" buf i p] by (auto simp: area_view_def store_def)
  next
    case False
    then show ?thesis using assms by (auto simp: area_view_def store_def)
  qed
qed

lemma readWords_view:
  assumes "server_ok s" "a \<in> set wordAreaCodes" "unat ad + 2 * unat n \<le> DM_AREA_SIZE"
  shows "readWords s a ad n =
    Some (load (wmem (server_view s) a) (unat ad) (2 * unat n), EndCodeNormalCompletion)"
proof -
  obtain buf where buf: "wordAreas s a = Some buf" using server_ok_word_area assms(1,2) by blast
  then show ?thesis
    using assms(3) word_end_nowrap [of ad n] area_view_slice [of "wordAreas s" a buf "unat ad" "2 * unat n"]
      server_ok_word [OF assms(1) buf] buf
    by (simp add: readWords_cases [OF assms(1)] server_view_def)
qed

text \<open>A payload that is too long is cut, one that is too short leaves the rest as it was.\<close>

lemma writeWords_view:
  assumes "server_ok s" "a \<in> set wordAreaCodes" "unat ad + 2 * unat n \<le> DM_AREA_SIZE"
  shows "\<exists>s'. writeWords s a ad n p = Some (s', EndCodeNormalCompletion) \<and> server_ok s' \<and>
    closed s' = closed s \<and> server_view s' = store_word_bytes a (unat ad) (take (2 * unat n) p) (server_view s)"
proof -
  obtain buf where buf: "wordAreas s a = Some buf" using server_ok_word_area assms(1,2) by blast
  let ?s = "s\<lparr>wordAreas := (wordAreas s)(a \<mapsto> copy_at buf (unat ad) (unat ad + 2 * unat n) p)\<rparr>"
  have "unat (ad + n * 2) = unat ad + 2 * unat n" using assms(3) word_end_nowrap [of ad n] by simp
  then have w: "writeWords s a ad n p = Some (?s, EndCodeNormalCompletion)"
    using assms(3) buf by (simp add: writeWords_cases [OF assms(1)])
  moreover have "server_view ?s = store_word_bytes a (unat ad) (take (2 * unat n) p) (server_view s)"
    using area_view_upd [of "wordAreas s" a buf "unat ad" "2 * unat n" p] assms(3) server_ok_word [OF assms(1) buf] buf
    by (simp add: server_view_def store_word_bytes_def)
  ultimately show ?thesis using writeWords_ok [OF assms(1) w] by auto
qed

lemma readBits_view:
  assumes "server_ok s" "a \<in> set bitAreaCodes" "unat ad + unat off + unat n \<le> DM_AREA_SIZE"
  shows "readBits s a ad off n =
    Some (load (bmem (server_view s) a) (unat ad + unat off) (unat n), EndCodeNormalCompletion)"
proof -
  obtain buf where buf: "bitAreas s a = Some buf" using server_ok_bit_area assms(1,2) by blast
  then show ?thesis
    using assms(3) bit_end_nowrap [of ad off n] area_view_slice [of "bitAreas s" a buf "unat ad + unat off" "unat n"]
      server_ok_bit [OF assms(1) buf] buf
    by (simp add: readBits_cases [OF assms(1)] server_view_def)
qed

lemma writeBits_view:
  assumes "server_ok s" "a \<in> set bitAreaCodes" "unat ad + unat off + unat n \<le> DM_AREA_SIZE"
  shows "\<exists>s'. writeBits s a ad off n p = Some (s', EndCodeNormalCompletion) \<and> server_ok s' \<and>
    closed s' = closed s \<and> server_view s' = store_bit_bytes a (unat ad + unat off) (take (unat n) p) (server_view s)"
proof -
  let ?lo = "unat ad + unat off"
  obtain buf where buf: "bitAreas s a = Some buf" using server_ok_bit_area assms(1,2) by blast
  let ?s = "s\<lparr>bitAreas := (bitAreas s)(a \<mapsto> copy_at buf ?lo (?lo + unat n) p)\<rparr>"
  have w: "writeBits s a ad off n p = Some (?s, EndCodeNormalCompletion)"
    using assms(3) buf bit_end_nowrap [of ad off n] by (simp add: writeBits_cases [OF assms(1)])
  moreover have "server_view ?s = store_bit_bytes a ?lo (take (unat n) p) (server_view s)"
    using area_view_upd [of "bitAreas s" a buf ?lo "unat n" p] assms(3) server_ok_bit [OF assms(1) buf] buf
    by (simp add: server_view_def store_bit_bytes_def)
  ultimately show ?thesis using writeBits_ok [OF assms(1) w] by auto
qed

end
