(* ===== verification/Fins_Interceptor.thy ===== *)
theory Fins_Interceptor
  imports Fins_Const
begin

text \<open>
  \<open>interceptor.go\<close>: operations, contexts, invokers, interceptors and their chaining; and the
  three interceptors that only watch (\<open>interceptor_logging.go\<close>, \<open>interceptor_tracing.go\<close>,
  \<open>interceptor_metrics.go\<close>), with the metrics collector.

  An operation acts on a world: the time, the lines logged, the metrics collectors (objects, so
  they are found by an identity), and whatever the record is extended with.  \<open>None\<close> is a panic,
  or a call that never returns.
\<close>

section \<open>Contexts\<close>

datatype ctx_key = SkipCoalescerKey | UserKey string

text \<open>
  A \<open>context.Context\<close>: when its cancel function is called, its deadline, its values.
  \<open>ctx.Err()\<close> at a time is the first of the two that has come (the deadline at a tie).
\<close>

record Context =
  cancelAt :: "int option"
  deadline :: "int option"
  ctxValues :: "ctx_key \<rightharpoonup> string"

definition Background :: Context where
  "Background = \<lparr>cancelAt = None, deadline = None, ctxValues = Map.empty\<rparr>"

definition due :: "int option \<Rightarrow> int \<Rightarrow> bool" where
  "due t now = (case t of None \<Rightarrow> False | Some t' \<Rightarrow> t' \<le> now)"

definition ctx_Err :: "Context \<Rightarrow> int \<Rightarrow> fins_error option" where
  "ctx_Err c now =
     (if due (deadline c) now \<and> (\<forall>t. cancelAt c = Some t \<longrightarrow> the (deadline c) \<le> t)
      then Some (CtxError DeadlineExceeded)
      else if due (cancelAt c) now then Some (CtxError Canceled)
      else if due (deadline c) now then Some (CtxError DeadlineExceeded)
      else None)"

definition WithValue :: "Context \<Rightarrow> ctx_key \<Rightarrow> string \<Rightarrow> Context" where
  "WithValue c k v = c\<lparr>ctxValues := (ctxValues c)(k \<mapsto> v)\<rparr>"

text \<open>A context that never ends, as \<open>context.Background()\<close> and what \<open>WithValue\<close> makes of it.\<close>

definition unending :: "Context \<Rightarrow> bool" where
  "unending c \<longleftrightarrow> cancelAt c = None \<and> deadline c = None"

lemma ctx_Err_unending [simp]: "unending c \<Longrightarrow> ctx_Err c now = None"
  by (simp add: unending_def ctx_Err_def due_def)

lemma ctx_Err_iff: "ctx_Err c now \<noteq> None \<longleftrightarrow> due (deadline c) now \<or> due (cancelAt c) now"
  by (auto simp: ctx_Err_def due_def split: option.splits if_splits)

lemma ctx_Err_mono: "ctx_Err c now \<noteq> None \<Longrightarrow> now \<le> now' \<Longrightarrow> ctx_Err c now' \<noteq> None"
  unfolding ctx_Err_iff by (auto simp: due_def split: option.splits)

lemma unending_simps [simp]: "unending Background" "unending (WithValue c k v) = unending c"
  by (simp_all add: unending_def Background_def WithValue_def)

section \<open>Operations and values\<close>

datatype OperationType =
    OpReadWords | OpReadBytes | OpReadString | OpReadBits | OpReadClock
  | OpWriteWords | OpWriteBytes | OpWriteString | OpWriteBits
  | OpSetBit | OpResetBit | OpToggleBit

text \<open>There are finitely many operations, so statements about all of them can be evaluated.\<close>

instantiation OperationType :: enum
begin

definition "enum_OperationType = [OpReadWords, OpReadBytes, OpReadString, OpReadBits, OpReadClock, OpWriteWords,
  OpWriteBytes, OpWriteString, OpWriteBits, OpSetBit, OpResetBit, OpToggleBit]"

definition "enum_all_OperationType P \<longleftrightarrow> list_all P (enum_class.enum :: OperationType list)"

definition "enum_ex_OperationType P \<longleftrightarrow> list_ex P (enum_class.enum :: OperationType list)"

instance
proof
  have mem: "op \<in> set enum_class.enum" for op :: OperationType
    by (cases op) (simp_all add: enum_OperationType_def)
  show univ: "UNIV = set (enum_class.enum :: OperationType list)" using mem by blast
  show "distinct (enum_class.enum :: OperationType list)" by (simp add: enum_OperationType_def)
  fix P :: "OperationType \<Rightarrow> bool"
  show "enum_class.enum_all P \<longleftrightarrow> Ball UNIV P"
    by (simp only: enum_all_OperationType_def list_all_iff univ)
  show "enum_class.enum_ex P \<longleftrightarrow> Bex UNIV P"
    by (simp only: enum_ex_OperationType_def list_ex_iff univ)
qed

end

datatype goval = VNil | VWords "u16 list" | VBytes "u8 list" | VString "u8 list" | VBools "bool list"
  | VTime "int list"

record InterceptorInfo =
  Operation :: OperationType
  MemoryArea :: u8
  Address :: u16
  BitOffset :: u8
  Count :: u16
  Data :: goval

type_synonym gores = "goval \<times> fins_error option"

section \<open>The world\<close>

record MetricsCollector =
  OperationCount :: "OperationType \<rightharpoonup> int"
  ErrorCount :: "OperationType \<rightharpoonup> int"
  TotalDuration :: "OperationType \<rightharpoonup> int"

datatype log_line =
    LogRetry int int OperationType fins_error int
  | LogTrace string OperationType u16
  | LogTraceArea string OperationType u8 u16
  | LogStarting OperationType u8 u16
  | LogFailed OperationType int fins_error
  | LogCompleted OperationType int

record world =
  w_now :: int
  w_log :: "log_line list"
  w_collectors :: "nat \<Rightarrow> MetricsCollector"

type_synonym 'w invoker = "Context \<Rightarrow> 'w \<Rightarrow> (gores \<times> 'w) option"

record 'w InterceptorCtx =
  ic_ctx :: Context
  ic_info :: InterceptorInfo
  ic_invoker :: "'w invoker"

type_synonym 'w interceptor = "'w InterceptorCtx \<Rightarrow> 'w \<Rightarrow> (gores \<times> 'w) option"

text \<open>\<open>c.Invoke(ctx)\<close>; \<open>None\<close> is a nil context.\<close>

definition Invoke :: "'w InterceptorCtx \<Rightarrow> Context option \<Rightarrow> 'w \<Rightarrow> (gores \<times> 'w) option" where
  "Invoke c cx = ic_invoker c (case cx of None \<Rightarrow> ic_ctx c | Some x \<Rightarrow> x)"

definition Sleep :: "int \<Rightarrow> 'a world_scheme \<Rightarrow> 'a world_scheme" where
  "Sleep d w = w\<lparr>w_now := w_now w + max 0 d\<rparr>"

definition Log :: "log_line \<Rightarrow> 'a world_scheme \<Rightarrow> 'a world_scheme" where
  "Log l w = w\<lparr>w_log := w_log w @ [l]\<rparr>"

section \<open>Chaining\<close>

text \<open>\<open>ChainInterceptors\<close>: \<open>None\<close> is the nil interceptor of an empty list.\<close>

fun ChainInterceptors :: "'w interceptor list \<Rightarrow> 'w interceptor option" where
  "ChainInterceptors [] = None"
| "ChainInterceptors [i] = Some i"
| "ChainInterceptors (i # j # rest) = Some (\<lambda>c. i \<lparr>ic_ctx = ic_ctx c, ic_info = ic_info c,
     ic_invoker = (\<lambda>ctx. case ChainInterceptors (j # rest) of
         None \<Rightarrow> (\<lambda>w. None)
       | Some k \<Rightarrow> k \<lparr>ic_ctx = ctx, ic_info = ic_info c, ic_invoker = ic_invoker c\<rparr>)\<rparr>)"

text \<open>\<open>invoke\<close> of both clients: through the interceptor when there is one.\<close>

definition invoke_with ::
    "'w interceptor option \<Rightarrow> Context \<Rightarrow> InterceptorInfo \<Rightarrow> 'w invoker \<Rightarrow> 'w \<Rightarrow> (gores \<times> 'w) option" where
  "invoke_with i ctx nfo ivk =
     (case i of Some f \<Rightarrow> f \<lparr>ic_ctx = ctx, ic_info = nfo, ic_invoker = ivk\<rparr> | None \<Rightarrow> ivk ctx)"

text \<open>Chaining is nesting: the head runs around the chain of the rest.\<close>

lemma chain_nonempty: "xs \<noteq> [] \<Longrightarrow> \<exists>k. ChainInterceptors xs = Some k"
  by (induction xs rule: ChainInterceptors.induct) auto

lemma chain_Cons:
  assumes "xs \<noteq> []"
  shows "ChainInterceptors (i # xs) = Some (\<lambda>c. i \<lparr>ic_ctx = ic_ctx c, ic_info = ic_info c, ic_invoker =
     (\<lambda>ctx. the (ChainInterceptors xs) \<lparr>ic_ctx = ctx, ic_info = ic_info c, ic_invoker = ic_invoker c\<rparr>)\<rparr>)"
proof -
  obtain j ys where xs: "xs = j # ys" using assms by (cases xs) auto
  moreover obtain k where "ChainInterceptors xs = Some k" using chain_nonempty [OF assms] by blast
  ultimately show ?thesis by simp
qed

lemma chain_append:
  assumes "xs \<noteq> []" "ys \<noteq> []"
  shows "ChainInterceptors (xs @ ys) =
    ChainInterceptors [the (ChainInterceptors xs), the (ChainInterceptors ys)]"
  using assms
proof (induction xs)
  case (Cons i xs)
  show ?case
  proof (cases "xs = []")
    case True
    then show ?thesis using Cons.prems by (simp add: chain_Cons)
  next
    case False
    obtain kx where kx: "ChainInterceptors xs = Some kx" using chain_nonempty [OF False] by blast
    show ?thesis
      using Cons.IH [OF False Cons.prems(2)] False Cons.prems kx
      by (simp add: chain_Cons)
  qed
qed simp

section \<open>Watching interceptors\<close>

definition LoggingInterceptor :: "('a world_scheme) interceptor" where
  "LoggingInterceptor c w = do {
     let nfo = ic_info c;
     let start = w_now w;
     let w1 = Log (LogStarting (Operation nfo) (MemoryArea nfo) (Address nfo)) w;
     ((result, err), w2) \<leftarrow> Invoke c None w1;
     let duration = wrap64 (w_now w2 - start);
     Some ((result, err),
       Log (case err of Some e \<Rightarrow> LogFailed (Operation nfo) duration e
                      | None \<Rightarrow> LogCompleted (Operation nfo) duration) w2) }"

definition TracingInterceptor :: "ctx_key \<Rightarrow> ('a world_scheme) interceptor" where
  "TracingInterceptor key c w =
     Invoke c None (case ctxValues (ic_ctx c) key of
       Some t \<Rightarrow> Log (LogTrace t (Operation (ic_info c)) (Address (ic_info c))) w | None \<Rightarrow> w)"

definition TracingInterceptorWithLogger :: "ctx_key \<Rightarrow> ('a world_scheme) interceptor" where
  "TracingInterceptorWithLogger key c w =
     Invoke c None (case ctxValues (ic_ctx c) key of
       Some t \<Rightarrow> Log (LogTraceArea t (Operation (ic_info c)) (MemoryArea (ic_info c)) (Address (ic_info c))) w
     | None \<Rightarrow> w)"

section \<open>Metrics\<close>

definition NewMetricsCollector :: MetricsCollector where
  "NewMetricsCollector =
     \<lparr>OperationCount = Map.empty, ErrorCount = Map.empty, TotalDuration = Map.empty\<rparr>"

text \<open>A missing key of a Go map reads as the zero value.\<close>

definition map_get :: "('k \<rightharpoonup> int) \<Rightarrow> 'k \<Rightarrow> int" where
  "map_get m k = (case m k of None \<Rightarrow> 0 | Some v \<Rightarrow> v)"

definition record_op :: "OperationType \<Rightarrow> int \<Rightarrow> bool \<Rightarrow> MetricsCollector \<Rightarrow> MetricsCollector" where
  "record_op op duration failed m =
     (let m1 = m\<lparr>OperationCount := (OperationCount m)(op \<mapsto> wrap64 (map_get (OperationCount m) op + 1)),
                 TotalDuration := (TotalDuration m)(op \<mapsto> wrap64 (map_get (TotalDuration m) op + duration))\<rparr>
      in if failed then m1\<lparr>ErrorCount := (ErrorCount m1)(op \<mapsto> wrap64 (map_get (ErrorCount m1) op + 1))\<rparr>
         else m1)"

definition MetricsInterceptor :: "nat \<Rightarrow> ('a world_scheme) interceptor" where
  "MetricsInterceptor mid c w = do {
     let start = w_now w;
     ((result, err), w1) \<leftarrow> Invoke c None w;
     let duration = wrap64 (w_now w1 - start);
     let m = w_collectors w1 mid;
     Some ((result, err), w1\<lparr>w_collectors := (w_collectors w1)
       (mid := record_op (Operation (ic_info c)) duration (err \<noteq> None) m)\<rparr>) }"

definition GetStats :: "MetricsCollector \<Rightarrow> OperationType \<Rightarrow> int \<times> int \<times> int" where
  "GetStats m op =
     (let count = map_get (OperationCount m) op
      in (count, map_get (ErrorCount m) op,
          if count > 0 then go_div (map_get (TotalDuration m) op) count else 0))"

definition GetAllStats :: "MetricsCollector \<Rightarrow> OperationType \<rightharpoonup> int \<times> int \<times> int" where
  "GetAllStats m op =
     (case OperationCount m op of
        None \<Rightarrow> None
      | Some count \<Rightarrow> Some (count, map_get (ErrorCount m) op,
          if count > 0 then go_div (map_get (TotalDuration m) op) count else 0))"

definition Reset :: "MetricsCollector \<Rightarrow> MetricsCollector" where
  "Reset m = NewMetricsCollector"

section \<open>Properties\<close>

text \<open>
  Chaining is associative.  A chain of two groups of interceptors is the chain of the two
  chains, so an interceptor that is itself a chain behaves as its parts in order.
\<close>

lemma chain_of_chains:
  assumes "xs \<noteq> []" "ys \<noteq> []"
  shows "ChainInterceptors (xs @ ys) =
    ChainInterceptors [the (ChainInterceptors xs), the (ChainInterceptors ys)]"
  using assms by (rule chain_append)

lemma chain_of_chains_example:
  "ChainInterceptors ([LoggingInterceptor, MetricsInterceptor 0] @ [TracingInterceptor (UserKey ''id'') :: world interceptor]) =
   ChainInterceptors [the (ChainInterceptors [LoggingInterceptor, MetricsInterceptor 0]),
     the (ChainInterceptors [TracingInterceptor (UserKey ''id'')])]"
  using chain_of_chains [of "[LoggingInterceptor, MetricsInterceptor 0]" "[TracingInterceptor (UserKey ''id'') :: world interceptor]"]
  by simp

end
