(* ===== verification/Fins_Api.thy ===== *)
theory Fins_Api
  imports Fins_Spec Fins_Interceptor
begin

text \<open>
  What the two clients share: the conversions between values and bytes that their operations
  contain, the area checks, and the contract \<open>fins_client\<close> of a client of the PLC of
  \<open>Fins_Spec\<close>, with the facts that follow from it.
\<close>

section \<open>Area checks\<close>

definition checkIsWordMemoryArea :: "u8 \<Rightarrow> bool" where
  "checkIsWordMemoryArea a =
     (if a = MemoryAreaDMWord \<or> a = MemoryAreaARWord \<or> a = MemoryAreaHRWord \<or> a = MemoryAreaWRWord
      then True else False)"

definition checkIsBitMemoryArea :: "u8 \<Rightarrow> bool" where
  "checkIsBitMemoryArea a =
     (if a = MemoryAreaDMBit \<or> a = MemoryAreaARBit \<or> a = MemoryAreaHRBit \<or> a = MemoryAreaWRBit
      then True else False)"

lemma check_word_area: "checkIsWordMemoryArea a \<Longrightarrow> a \<in> set wordAreaCodes"
  by (auto simp: checkIsWordMemoryArea_def wordAreaCodes_def split: if_splits)

lemma check_bit_area: "checkIsBitMemoryArea a \<Longrightarrow> a \<in> set bitAreaCodes"
  by (auto simp: checkIsBitMemoryArea_def bitAreaCodes_def split: if_splits)

lemma check_areas_disjoint: "checkIsWordMemoryArea a \<Longrightarrow> \<not> checkIsBitMemoryArea a"
  by (auto simp: checkIsWordMemoryArea_def checkIsBitMemoryArea_def split: if_splits)

section \<open>Values and bytes\<close>

text \<open>
  The encoding of \<open>WriteWords\<close>: \<open>l := uint16(len(data)); bts := make([]byte, 2*l)\<close> with \<open>2*l\<close>
  in \<open>uint16\<close>, then the loop over \<open>i < l\<close>, which panics when \<open>bts\<close> is too short.
\<close>

definition words_bytes :: "byteOrder \<Rightarrow> u16 list \<Rightarrow> u8 list option" where
  "words_bytes bo data =
     (let l = of_nat (length data) :: u16; bts = replicate (unat (2 * l)) 0
      in if 2 * unat l \<le> length bts then Some (put_words bo (take (unat l) data) 0 bts) else None)"

text \<open>The encoding of \<open>WriteBits\<close>.\<close>

definition bools_bytes :: "bool list \<Rightarrow> u8 list" where
  "bools_bytes data = map (\<lambda>b. if b then 1 else 0) (take (unat (of_nat (length data) :: u16)) data)"

text \<open>The bytes of \<open>WriteString\<close>: \<open>bts := make([]byte, 2*len(s)); copy(bts, s)\<close>.\<close>

definition string_bytes :: "u8 list \<Rightarrow> u8 list" where
  "string_bytes s = go_copy (replicate (2 * length s) 0) s"

definition string_words :: "u8 list \<Rightarrow> u16" where
  "string_words s = of_nat ((length s + 1) div 2)"

text \<open>\<open>bytes.IndexByte\<close>, and the cut of \<open>ReadString\<close>.\<close>

fun IndexByte :: "u8 list \<Rightarrow> u8 \<Rightarrow> int" where
  "IndexByte [] c = -1"
| "IndexByte (x # xs) c = (if x = c then 0 else let i = IndexByte xs c in if i = -1 then -1 else i + 1)"

definition cut_string :: "u8 list \<Rightarrow> u8 list" where
  "cut_string data = (let n = IndexByte data 0 in take (nat (if n = -1 then int (length data) else n)) data)"

definition byte_bool :: "u8 \<Rightarrow> bool" where
  "byte_bool b \<longleftrightarrow> b AND 1 > 0"

text \<open>The loop \<open>data[i] = r.data[i]&0x01 > 0\<close> for \<open>i < readCount\<close> of the network client.\<close>

definition bits_of_data :: "u8 slice \<Rightarrow> nat \<Rightarrow> bool list option" where
  "bits_of_data d n = those (map (\<lambda>i. map_option byte_bool (sl_idx d i)) [0..<n])"

lemma byte_bool_simps [simp]: "byte_bool 0 = False" "byte_bool 1 = True"
  by (simp_all add: byte_bool_def)

lemma IndexByte_cases: "(IndexByte xs c = -1 \<and> c \<notin> set xs) \<or>
    (0 \<le> IndexByte xs c \<and> take (nat (IndexByte xs c)) xs = takeWhile (\<lambda>x. x \<noteq> c) xs)"
proof (induction xs)
  case (Cons x xs)
  then show ?case
    by (cases "x = c"; cases "IndexByte xs c = -1") (auto simp: Let_def nat_add_distrib)
qed simp

lemma cut_string_takeWhile: "cut_string data = takeWhile (\<lambda>b. b \<noteq> 0) data"
proof -
  have "data = takeWhile (\<lambda>b. b \<noteq> 0) data" if "0 \<notin> set data"
  proof -
    have "\<forall>b \<in> set data. b \<noteq> 0" using that by blast
    then have "takeWhile (\<lambda>b. b \<noteq> 0) data = data" by (rule iffD2 [OF takeWhile_eq_all_conv])
    then show ?thesis by (rule sym)
  qed
  then show ?thesis
    using IndexByte_cases [of data 0] by (auto simp: cut_string_def Let_def)
qed

lemma length_bools_bytes [simp]: "length data < 65536 \<Longrightarrow> length (bools_bytes data) = length data"
  by (simp add: bools_bytes_def unat_of_nat_small)

lemma map_byte_bool_bytes: "length data < 65536 \<Longrightarrow> map byte_bool (bools_bytes data) = data"
  by (simp add: bools_bytes_def unat_of_nat_small comp_def)

lemma bits_of_data_slice:
  assumes "length bs = n"
  shows "bits_of_data (Slice bs sp) n = Some (map byte_bool bs)"
proof -
  have "bits_of_data (Slice bs sp) n = Some (map (\<lambda>i. byte_bool (bs ! i)) [0..<n])"
    unfolding bits_of_data_def using assms by (intro those_map_Some) (simp add: go_slice)
  also have "map (\<lambda>i. byte_bool (bs ! i)) [0..<n] = map byte_bool bs"
    using assms by (intro nth_equalityI) simp_all
  finally show ?thesis .
qed

definition order_words :: "byteOrder \<Rightarrow> u16 list \<Rightarrow> u8 list" where
  "order_words bo ws = concat (map (bo_PutUint16 bo) ws)"

definition words_from :: "byteOrder \<Rightarrow> (nat \<Rightarrow> u8) \<Rightarrow> nat \<Rightarrow> nat \<Rightarrow> u16 list" where
  "words_from bo m ad n = map (\<lambda>i. bo_Uint16 bo (m (ad + 2 * i)) (m (ad + 2 * i + 1))) [0..<n]"

lemma length_words_from [simp]: "length (words_from bo m ad n) = n"
  by (simp add: words_from_def)

lemma get_words_load:
  "get_words bo (Slice (load m ad (2 * n)) sp) n = Some (words_from bo m ad n)"
  unfolding get_words_def words_from_def
proof (rule those_map_Some)
  fix i assume "i \<in> set [0..<n]"
  then have i: "i * 2 + 2 \<le> length (load m ad (2 * n))" by simp
  then have "take 2 (drop (i * 2) (load m ad (2 * n))) = [m (ad + 2 * i), m (ad + 2 * i + 1)]"
    by (intro nth_equalityI) (auto simp: load_def less_2_cases_iff mult.commute nth_Cons')
  with i show "sl_range (Slice (load m ad (2 * n)) sp) (i * 2) (i * 2 + 2) \<bind> get16_at (bo_Uint16 bo) =
      Some (bo_Uint16 bo (m (ad + 2 * i)) (m (ad + 2 * i + 1)))"
    by (simp add: go_slice)
qed

context byte_order
begin

lemma length_order_words: "length (order_words bo ws) = 2 * length ws"
  by (simp add: order_words_def length_concat_put)

lemma words_bytes_small: "length ws < 32768 \<Longrightarrow> words_bytes bo ws = Some (order_words bo ws)"
proof -
  assume n: "length ws < 32768"
  then have l: "unat (of_nat (length ws) :: u16) = length ws" by (simp add: unat_of_nat_small)
  then have "unat (2 * of_nat (length ws) :: u16) = 2 * length ws"
    using n by (subst unat_mult_nowrap) simp_all
  then show ?thesis
    using l by (simp add: words_bytes_def Let_def put_words_make order_words_def)
qed

lemma words_from_store:
  "words_from bo (store m ad (order_words bo ws)) ad (length ws) = ws"
proof -
  have "get_words bo (Slice (load (store m ad (order_words bo ws)) ad (2 * length ws)) []) (length ws) = Some ws"
    using get_words_put_words [of ws "[]" "[]"] load_store_same [of m ad "order_words bo ws"]
    by (simp add: length_order_words order_words_def [symmetric])
  then show ?thesis by (simp add: get_words_load)
qed

lemma words_from_store_other:
  "ad' + 2 * n \<le> ad \<or> ad + 2 * length ws \<le> ad' \<Longrightarrow>
   words_from bo (store m ad (order_words bo ws)) ad' n = words_from bo m ad' n"
  by (auto simp: words_from_def store_def length_order_words)

end

text \<open>\<open>if err != nil { return nil, err }; return result.([]uint16), nil\<close>, and the same for the other types.\<close>

definition assert_words :: "gores \<Rightarrow> (fins_error + u16 list) option" where
  "assert_words r = (case r of (_, Some e) \<Rightarrow> Some (Inl e) | (VWords ws, None) \<Rightarrow> Some (Inr ws) | _ \<Rightarrow> None)"

definition assert_bytes :: "gores \<Rightarrow> (fins_error + u8 list) option" where
  "assert_bytes r = (case r of (_, Some e) \<Rightarrow> Some (Inl e) | (VBytes bs, None) \<Rightarrow> Some (Inr bs) | _ \<Rightarrow> None)"

definition assert_bools :: "gores \<Rightarrow> (fins_error + bool list) option" where
  "assert_bools r = (case r of (_, Some e) \<Rightarrow> Some (Inl e) | (VBools bs, None) \<Rightarrow> Some (Inr bs) | _ \<Rightarrow> None)"

definition assert_time :: "gores \<Rightarrow> (fins_error + int list) option" where
  "assert_time r = (case r of (_, Some e) \<Rightarrow> Some (Inl e) | (VTime t, None) \<Rightarrow> Some (Inr t) | _ \<Rightarrow> None)"

section \<open>The contract of a client\<close>

text \<open>A range of bytes inside an area and within what the client's transport carries.\<close>

definition fits :: "nat \<Rightarrow> nat \<Rightarrow> nat \<Rightarrow> bool" where
  "fits limit lo n \<longleftrightarrow> lo + n \<le> DM_AREA_SIZE \<and> n \<le> limit"

definition bool_bytes :: "bool list \<Rightarrow> u8 list" where
  "bool_bytes bs = map (\<lambda>b. if b then 1 else 0) bs"

lemma bool_bytes_simps [simp]: "length (bool_bytes bs) = length bs" "map byte_bool (bool_bytes bs) = bs"
  by (simp_all add: bool_bytes_def comp_def)

lemma bools_bytes_small: "length bs < 65536 \<Longrightarrow> bools_bytes bs = bool_bytes bs"
  by (simp add: bools_bytes_def bool_bytes_def unat_of_nat_small)

text \<open>Writes as values, and what a sequence of them does to the memory.\<close>

datatype write_op = WordsAt u8 u16 "u16 list" | BitsAt u8 u16 u8 "bool list"

fun write_fits :: "nat \<Rightarrow> write_op \<Rightarrow> bool" where
  "write_fits limit (WordsAt a ad ws) \<longleftrightarrow> checkIsWordMemoryArea a \<and> fits limit (unat ad) (2 * length ws)"
| "write_fits limit (BitsAt a ad off bs) \<longleftrightarrow>
     checkIsBitMemoryArea a \<and> fits limit (unat ad + unat off) (length bs)"

fun apply_write :: "byteOrder \<Rightarrow> write_op \<Rightarrow> plc \<Rightarrow> plc" where
  "apply_write bo (WordsAt a ad ws) = store_word_bytes a (unat ad) (order_words bo ws)"
| "apply_write bo (BitsAt a ad off bs) = store_bit_bytes a (unat ad + unat off) (bool_bytes bs)"

text \<open>The bytes a write touches.\<close>

fun write_cells :: "write_op \<Rightarrow> (bool \<times> u8 \<times> nat) set" where
  "write_cells (WordsAt a ad ws) = {True} \<times> {a} \<times> {unat ad ..< unat ad + 2 * length ws}"
| "write_cells (BitsAt a ad off bs) = {False} \<times> {a} \<times> {unat ad + unat off ..< unat ad + unat off + length bs}"

type_synonym 'w word_reader = "u8 \<Rightarrow> u16 \<Rightarrow> u16 \<Rightarrow> 'w \<Rightarrow> ((fins_error + u16 list) \<times> 'w) option"
type_synonym 'w word_writer = "u8 \<Rightarrow> u16 \<Rightarrow> u16 list \<Rightarrow> 'w \<Rightarrow> (fins_error option \<times> 'w) option"
type_synonym 'w bit_reader = "u8 \<Rightarrow> u16 \<Rightarrow> u8 \<Rightarrow> u16 \<Rightarrow> 'w \<Rightarrow> ((fins_error + bool list) \<times> 'w) option"
type_synonym 'w bit_writer = "u8 \<Rightarrow> u16 \<Rightarrow> u8 \<Rightarrow> bool list \<Rightarrow> 'w \<Rightarrow> (fins_error option \<times> 'w) option"

text \<open>The calls of a client that make a sequence of writes; \<open>None\<close> when one of them fails.\<close>

fun run_write :: "'w word_writer \<Rightarrow> 'w bit_writer \<Rightarrow> write_op \<Rightarrow> 'w \<Rightarrow> (fins_error option \<times> 'w) option" where
  "run_write writeW writeB (WordsAt a ad ws) w = writeW a ad ws w"
| "run_write writeW writeB (BitsAt a ad off bs) w = writeB a ad off bs w"

fun run_writes :: "'w word_writer \<Rightarrow> 'w bit_writer \<Rightarrow> write_op list \<Rightarrow> 'w \<Rightarrow> 'w option" where
  "run_writes writeW writeB [] w = Some w"
| "run_writes writeW writeB (op # ops) w =
     (case run_write writeW writeB op w of Some (None, w') \<Rightarrow> run_writes writeW writeB ops w' | _ \<Rightarrow> None)"

text \<open>
  Writes in or out of range.  \<open>no_wrap\<close>: the payload's size and the end of the range fit in the 16 bits
  that the server computes them in.  Such a write is applied, or refused without an effect: by the
  client when the area has no words (bits), by the server when the range ends past the area.
\<close>

fun no_wrap :: "write_op \<Rightarrow> bool" where
  "no_wrap (WordsAt a ad ws) \<longleftrightarrow> unat ad + 2 * length ws < 65536 \<and> 6 + 2 * length ws < 65536"
| "no_wrap (BitsAt a ad off bs) \<longleftrightarrow> unat ad + unat off + length bs < 65536 \<and> 6 + length bs < 65536"

fun write_refusal :: "write_op \<Rightarrow> fins_error option" where
  "write_refusal (WordsAt a ad ws) =
     (if \<not> checkIsWordMemoryArea a then Some (IncompatibleMemoryAreaError a)
      else if DM_AREA_SIZE < unat ad + 2 * length ws then Some (EndCodeError EndCodeAddressRangeExceeded) else None)"
| "write_refusal (BitsAt a ad off bs) =
     (if \<not> checkIsBitMemoryArea a then Some (IncompatibleMemoryAreaError a)
      else if DM_AREA_SIZE < unat ad + unat off + length bs then Some (EndCodeError EndCodeAddressRangeExceeded) else None)"

definition checked_write :: "byteOrder \<Rightarrow> write_op \<Rightarrow> plc \<Rightarrow> plc" where
  "checked_write bo op p = (if write_refusal op = None then apply_write bo op p else p)"

text \<open>Writes one after the other whatever each of them returns.\<close>

fun run_each :: "'w word_writer \<Rightarrow> 'w bit_writer \<Rightarrow> write_op list \<Rightarrow> 'w \<Rightarrow> (fins_error option list \<times> 'w) option" where
  "run_each writeW writeB [] w = Some ([], w)"
| "run_each writeW writeB (op # ops) w = do {
     (e, w1) \<leftarrow> run_write writeW writeB op w;
     (es, w2) \<leftarrow> run_each writeW writeB ops w1;
     Some (e # es, w2) }"

text \<open>
  A client in a state that is \<open>ready\<close> answers every request that fits, returns exactly what the
  memory holds, stores exactly what it is given, and stays ready.
\<close>

locale fins_client = byte_order bo for bo +
  fixes readW :: "'w word_reader" and writeW :: "'w word_writer"
    and readB :: "'w bit_reader" and writeB :: "'w bit_writer"
    and ready :: "'w \<Rightarrow> bool" and plc_of :: "'w \<Rightarrow> plc" and limit :: nat
  assumes read_words: "ready w \<Longrightarrow> checkIsWordMemoryArea a \<Longrightarrow> fits limit (unat ad) (2 * unat n) \<Longrightarrow>
      \<exists>w'. readW a ad n w = Some (Inr (words_from bo (wmem (plc_of w) a) (unat ad) (unat n)), w') \<and>
        ready w' \<and> plc_of w' = plc_of w"
    and write_words: "ready w \<Longrightarrow> checkIsWordMemoryArea a \<Longrightarrow> fits limit (unat ad) (2 * length ws) \<Longrightarrow>
      \<exists>w'. writeW a ad ws w = Some (None, w') \<and> ready w' \<and>
        plc_of w' = store_word_bytes a (unat ad) (order_words bo ws) (plc_of w)"
    and read_bits: "ready w \<Longrightarrow> checkIsBitMemoryArea a \<Longrightarrow> fits limit (unat ad + unat off) (unat n) \<Longrightarrow>
      \<exists>w'. readB a ad off n w =
          Some (Inr (map byte_bool (load (bmem (plc_of w) a) (unat ad + unat off) (unat n))), w') \<and>
        ready w' \<and> plc_of w' = plc_of w"
    and write_bits: "ready w \<Longrightarrow> checkIsBitMemoryArea a \<Longrightarrow> fits limit (unat ad + unat off) (length bs) \<Longrightarrow>
      \<exists>w'. writeB a ad off bs w = Some (None, w') \<and> ready w' \<and>
        plc_of w' = store_bit_bytes a (unat ad + unat off) (bool_bytes bs) (plc_of w)"
begin

text \<open>A sequence of writes does to the memory what the specification says, write by write.\<close>

lemma run_write_refines:
  "ready w \<Longrightarrow> write_fits limit op \<Longrightarrow>
   \<exists>w'. run_write writeW writeB op w = Some (None, w') \<and> ready w' \<and> plc_of w' = apply_write bo op (plc_of w)"
  using write_words write_bits by (cases op) auto

lemma run_writes_refines:
  "ready w \<Longrightarrow> list_all (write_fits limit) ops \<Longrightarrow>
   \<exists>w'. run_writes writeW writeB ops w = Some w' \<and> ready w' \<and> plc_of w' = fold (apply_write bo) ops (plc_of w)"
proof (induction ops arbitrary: w)
  case (Cons op ops)
  then obtain w1 where "run_write writeW writeB op w = Some (None, w1)" "ready w1" "plc_of w1 = apply_write bo op (plc_of w)"
    using run_write_refines [of w op] by auto
  with Cons show ?case by fastforce
qed simp

lemma word_write_frame:
  "write_cells op \<inter> write_cells (WordsAt a ad ws) = {} \<Longrightarrow>
   words_from bo (wmem (apply_write bo op p) a) (unat ad) (length ws) = words_from bo (wmem p a) (unat ad) (length ws)"
proof (cases op)
  case (WordsAt a' ad' ws')
  assume d: "write_cells op \<inter> write_cells (WordsAt a ad ws) = {}"
  show ?thesis
  proof (cases "a' = a \<and> ws \<noteq> [] \<and> ws' \<noteq> []")
    case True
    then have "unat ad' + 2 * length ws' \<le> unat ad \<or> unat ad + 2 * length ws \<le> unat ad'"
      using d disjoint_ranges [of "unat ad'" "unat ad' + 2 * length ws'" "unat ad" "unat ad + 2 * length ws"]
      by (auto simp: WordsAt Times_Int_Times)
    then show ?thesis using True words_from_store_other by (auto simp: WordsAt)
  next
    case False
    then show ?thesis by (auto simp: WordsAt words_from_def store_def order_words_def)
  qed
qed simp

text \<open>Reading words returns the last write to them, whatever was written elsewhere since.\<close>

lemma last_write_read:
  assumes "ready w" "list_all (write_fits limit) (pre @ WordsAt a ad ws # post)"
    and "\<forall>op \<in> set post. write_cells op \<inter> write_cells (WordsAt a ad ws) = {}"
  shows "\<exists>w1 w2. run_writes writeW writeB (pre @ WordsAt a ad ws # post) w = Some w1 \<and>
    readW a ad (of_nat (length ws)) w1 = Some (Inr ws, w2) \<and> ready w2 \<and> plc_of w2 = plc_of w1"
proof -
  obtain w1 where w1: "run_writes writeW writeB (pre @ WordsAt a ad ws # post) w = Some w1" "ready w1"
    "plc_of w1 = fold (apply_write bo) (pre @ WordsAt a ad ws # post) (plc_of w)"
    using run_writes_refines [OF assms(1,2)] by blast
  have f: "checkIsWordMemoryArea a" "fits limit (unat ad) (2 * length ws)" using assms(2) by simp_all
  then have n: "unat (of_nat (length ws) :: u16) = length ws" by (simp add: fits_def unat_of_nat_small)
  have post: "words_from bo (wmem (fold (apply_write bo) post p) a) (unat ad) (length ws) =
      words_from bo (wmem p a) (unat ad) (length ws)" for p
    using assms(3)
  proof (induction post arbitrary: p)
    case (Cons op ops)
    then show ?case using word_write_frame [of op a ad ws p] by simp
  qed simp
  have "words_from bo (wmem (plc_of w1) a) (unat ad) (length ws) = ws"
    by (simp add: w1(3) post words_from_store)
  then show ?thesis
    using read_words [OF w1(2) f(1), of ad "of_nat (length ws)"] f(2) w1(1) n by auto
qed

lemma write_read_bits:
  assumes "ready w" "checkIsBitMemoryArea a" "fits limit (unat ad + unat off) (length bs)"
  shows "\<exists>w1 w2. writeB a ad off bs w = Some (None, w1) \<and>
    readB a ad off (of_nat (length bs)) w1 = Some (Inr bs, w2)"
proof -
  obtain w1 where w1: "writeB a ad off bs w = Some (None, w1)" "ready w1"
    "plc_of w1 = store_bit_bytes a (unat ad + unat off) (bool_bytes bs) (plc_of w)"
    using write_bits [OF assms] by blast
  have n: "unat (of_nat (length bs) :: u16) = length bs"
    using assms(3) by (simp add: fits_def unat_of_nat_small)
  have "load (bmem (plc_of w1) a) (unat ad + unat off) (length bs) = bool_bytes bs"
    using load_store_same [of "bmem (plc_of w) a" "unat ad + unat off" "bool_bytes bs"] by (simp add: w1(3))
  then show ?thesis
    using read_bits [OF w1(2) assms(2), of ad off "of_nat (length bs)"] assms(3) w1(1) n by auto
qed

end

end
