(* ===== verification/Fins_Address.thy ===== *)
theory Fins_Address
  imports Fins_Driver
begin

text \<open>
  \<open>address.go\<close>: device addresses.  An IP address is what \<open>net.ParseIP\<close> returns: \<open>None\<close> for nil,
  else its bytes (sixteen from \<open>ParseIP\<close>, four in other addresses); the parser is a parameter.
\<close>

type_synonym IP = "u8 list option"

record netAddr =
  na_IP :: IP
  na_Port :: int

record Address =
  FinAddress :: FinsAddress
  UdpAddress :: "netAddr option"
  TcpAddress :: "netAddr option"

definition NewAddress :: "(string \<Rightarrow> IP) \<Rightarrow> string \<Rightarrow> int \<Rightarrow> u8 \<Rightarrow> u8 \<Rightarrow> u8 \<Rightarrow> Address" where
  "NewAddress ParseIP ip port network node un =
     \<lparr>FinAddress = \<lparr>Network = network, Node = node, Unit = un\<rparr>,
      UdpAddress = Some \<lparr>na_IP = ParseIP ip, na_Port = port\<rparr>,
      TcpAddress = Some \<lparr>na_IP = ParseIP ip, na_Port = port\<rparr>\<rparr>"

definition NewLocalAddress :: "u8 \<Rightarrow> u8 \<Rightarrow> u8 \<Rightarrow> Address" where
  "NewLocalAddress network node un =
     \<lparr>FinAddress = \<lparr>Network = network, Node = node, Unit = un\<rparr>, UdpAddress = None, TcpAddress = None\<rparr>"

definition NewTCPAddress :: "(string \<Rightarrow> IP) \<Rightarrow> string \<Rightarrow> int \<Rightarrow> u8 \<Rightarrow> u8 \<Rightarrow> u8 \<Rightarrow> Address" where
  "NewTCPAddress ParseIP ip port network node un =
     \<lparr>FinAddress = \<lparr>Network = network, Node = node, Unit = un\<rparr>, UdpAddress = None,
      TcpAddress = Some \<lparr>na_IP = ParseIP ip, na_Port = port\<rparr>\<rparr>"

definition NewUDPAddress :: "(string \<Rightarrow> IP) \<Rightarrow> string \<Rightarrow> int \<Rightarrow> u8 \<Rightarrow> u8 \<Rightarrow> u8 \<Rightarrow> Address" where
  "NewUDPAddress ParseIP ip port network node un =
     \<lparr>FinAddress = \<lparr>Network = network, Node = node, Unit = un\<rparr>,
      UdpAddress = Some \<lparr>na_IP = ParseIP ip, na_Port = port\<rparr>, TcpAddress = None\<rparr>"

text \<open>\<open>IP.IsUnspecified\<close>: 0.0.0.0 in either form, or ::.\<close>

definition IsUnspecified :: "u8 list \<Rightarrow> bool" where
  "IsUnspecified ip \<longleftrightarrow>
     ip = replicate 4 0 \<or> ip = replicate 10 0 @ [255, 255, 0, 0, 0, 0] \<or> ip = replicate 16 0"

text \<open>The test of \<open>NewUDPClient\<close>: the caller left the local host or port open.\<close>

definition leaves_local_open :: "Address \<Rightarrow> bool" where
  "leaves_local_open a =
     (case UdpAddress a of
        None \<Rightarrow> True
      | Some u \<Rightarrow> (case na_IP u of None \<Rightarrow> True | Some ip \<Rightarrow> IsUnspecified ip) \<or> na_Port u = 0)"

end
