(* ===== verification/Fins_Client.thy ===== *)
theory Fins_Client
  imports Fins_Api Fins_Address
begin

text \<open>
  The network client of \<open>client.go\<close>: its state, its configuration, the wait for a connection,
  service ids and response channels, \<open>sendCommand\<close>, the delivery of responses, and the operations.

  The world is extended with the client, so that other goroutines and the network can change it.
  What is outside the program is an \<open>environ\<close>: the transport's \<open>Send\<close>, the plugins' disconnect
  hooks, and which ready case each \<open>select\<close> takes after the other goroutines have run.
\<close>

section \<open>State\<close>

abbreviation DEFAULT_RESPONSE_TIMEOUT :: int where "DEFAULT_RESPONSE_TIMEOUT \<equiv> 1000"
abbreviation DEFAULT_READ_TIMEOUT :: int where "DEFAULT_READ_TIMEOUT \<equiv> 5000000000"
abbreviation DEFAULT_MAX_RECONNECT :: int where "DEFAULT_MAX_RECONNECT \<equiv> 5"
abbreviation DEFAULT_RECONNECT_DELAY :: int where "DEFAULT_RECONNECT_DELAY \<equiv> 1000000000"
abbreviation MAX_RECONNECT_DELAY :: int where "MAX_RECONNECT_DELAY \<equiv> 30000000000"

text \<open>
  \<open>cl_resp\<close>: the response channel of each service id, \<open>None\<close> before it is made, else what it
  buffers (at most one response).  \<open>cl_connected\<close>: whether the channel \<open>connected\<close> is closed.
  \<open>cl_closed\<close> is also \<open>done\<close> being closed.  \<open>cl_jobs\<close>: the goroutines \<open>reconnect\<close> that
  \<open>triggerReconnect\<close> has started.  The addresses to bind and to dial stay with the environment.
\<close>

record Client =
  cl_hasTransport :: bool
  cl_tpKind :: transportKind
  cl_resp :: "u8 \<Rightarrow> response list option"
  cl_dst :: FinsAddress
  cl_src :: FinsAddress
  cl_sid :: u8
  cl_closed :: bool
  cl_responseTimeoutMs :: int
  cl_readTimeout :: int
  cl_byteOrder :: "byteOrder option"
  cl_listenErr :: "fins_error list"
  cl_autoReconnect :: bool
  cl_maxReconnect :: int
  cl_reconnectDelay :: int
  cl_useReconnectBackoff :: bool
  cl_reconnecting :: bool
  cl_connected :: bool
  cl_dynamicLocal :: bool
  cl_jobs :: nat

definition freshClient :: "transportKind \<Rightarrow> FinsAddress \<Rightarrow> FinsAddress \<Rightarrow> bool \<Rightarrow> Client" where
  "freshClient kind s d dyn =
     \<lparr>cl_hasTransport = True, cl_tpKind = kind, cl_resp = (\<lambda>_. None), cl_dst = d, cl_src = s, cl_sid = 0,
      cl_closed = False, cl_responseTimeoutMs = DEFAULT_RESPONSE_TIMEOUT, cl_readTimeout = DEFAULT_READ_TIMEOUT,
      cl_byteOrder = Some BigEndian, cl_listenErr = [], cl_autoReconnect = False,
      cl_maxReconnect = DEFAULT_MAX_RECONNECT, cl_reconnectDelay = DEFAULT_RECONNECT_DELAY,
      cl_useReconnectBackoff = True, cl_reconnecting = False, cl_connected = True, cl_dynamicLocal = dyn,
      cl_jobs = 0\<rparr>"

text \<open>
  The constructors: \<open>dialErr\<close> is the outcome of dialling (with the handshake, for TCP).  No plugin
  can be registered yet, so the connect hooks cannot fail.
\<close>

definition NewUDPClient :: "Address \<Rightarrow> Address \<Rightarrow> fins_error option \<Rightarrow> fins_error + Client" where
  "NewUDPClient localAddr plcAddr dialErr =
     (case dialErr of
        Some e \<Rightarrow> Inl e
      | None \<Rightarrow> Inr (freshClient transportUDP (FinAddress localAddr) (FinAddress plcAddr) (leaves_local_open localAddr)))"

definition NewTCPClient :: "Address \<Rightarrow> Address \<Rightarrow> fins_error option \<Rightarrow> fins_error + Client" where
  "NewTCPClient localAddr plcAddr dialErr =
     (if TcpAddress plcAddr = None then Inl (Errorf ''remote TCP address is required'' [] None)
      else case dialErr of
          Some e \<Rightarrow> Inl e
        | None \<Rightarrow> Inr (freshClient transportTCP (FinAddress localAddr) (FinAddress plcAddr) False))"

definition NewClient :: "Address \<Rightarrow> Address \<Rightarrow> fins_error option \<Rightarrow> fins_error + Client" where
  "NewClient localAddr plcAddr dialErr = NewUDPClient localAddr plcAddr dialErr"

section \<open>Configuration\<close>

definition SetByteOrder :: "byteOrder option \<Rightarrow> Client \<Rightarrow> Client" where
  "SetByteOrder o' c = c\<lparr>cl_byteOrder := o'\<rparr>"

text \<open>\<open>time.Duration(t)\<close> of an unsigned 64-bit number.\<close>

definition SetTimeoutMs :: "u64 \<Rightarrow> Client \<Rightarrow> Client" where
  "SetTimeoutMs t c = c\<lparr>cl_responseTimeoutMs := sint t\<rparr>"

definition SetReadTimeout :: "int \<Rightarrow> Client \<Rightarrow> Client" where
  "SetReadTimeout t c = c\<lparr>cl_readTimeout := t\<rparr>"

definition EnableAutoReconnect :: "int \<Rightarrow> int \<Rightarrow> Client \<Rightarrow> Client" where
  "EnableAutoReconnect maxRetries initialDelay c =
     c\<lparr>cl_autoReconnect := True, cl_maxReconnect := maxRetries, cl_reconnectDelay := initialDelay,
       cl_useReconnectBackoff := True\<rparr>"

definition DisableAutoReconnect :: "Client \<Rightarrow> Client" where
  "DisableAutoReconnect c = c\<lparr>cl_autoReconnect := False\<rparr>"

definition DisableReconnectBackoff :: "Client \<Rightarrow> Client" where
  "DisableReconnectBackoff c = c\<lparr>cl_useReconnectBackoff := False\<rparr>"

definition EnableReconnectBackoff :: "Client \<Rightarrow> Client" where
  "EnableReconnectBackoff c = c\<lparr>cl_useReconnectBackoff := True\<rparr>"

definition EnableDynamicLocalAddress :: "Client \<Rightarrow> Client" where
  "EnableDynamicLocalAddress c = c\<lparr>cl_dynamicLocal := True\<rparr>"

definition DisableDynamicLocalAddress :: "Client \<Rightarrow> Client" where
  "DisableDynamicLocalAddress c = c\<lparr>cl_dynamicLocal := False\<rparr>"

definition IsReconnecting :: "Client \<Rightarrow> bool" where
  "IsReconnecting c = cl_reconnecting c"

section \<open>The environment\<close>

record client_world = world +
  w_cli :: Client

definition upd_cli :: "(Client \<Rightarrow> Client) \<Rightarrow> 'a client_world_scheme \<Rightarrow> 'a client_world_scheme" where
  "upd_cli f w = w\<lparr>w_cli := f (w_cli w)\<rparr>"

lemma upd_cli_simps [simp]:
  "w_cli (upd_cli f w) = f (w_cli w)" "w_now (upd_cli f w) = w_now w"
  "client_world.more (upd_cli f w) = client_world.more w"
  by (simp_all add: upd_cli_def)

datatype wake = WakeConnected | WakeResponse | WakeTimer | WakeCtxDone | WakeClosed

text \<open>
  \<open>e_wait\<close> and \<open>e_await\<close> run the rest of the program until the \<open>select\<close> of
  \<open>waitForConnection\<close>, or the one of \<open>sendCommand\<close> for a service id, takes a case;
  \<open>None\<close> is a wait that never ends.  A case can only be taken when it is ready.
\<close>

record 'w environ =
  e_send :: "Context \<Rightarrow> u8 list \<Rightarrow> 'w \<Rightarrow> (fins_error option \<times> 'w) option"
  e_hooks :: "fins_error \<Rightarrow> 'w \<Rightarrow> (fins_error option \<times> 'w) option"
  e_wait :: "Context \<Rightarrow> 'w \<Rightarrow> (wake \<times> 'w) option"
  e_await :: "Context \<Rightarrow> u8 \<Rightarrow> 'w \<Rightarrow> (wake \<times> 'w) option"

text \<open>
  \<open>waitForConnection\<close> waits on the channel it finds in \<open>c.connected\<close> when it starts.  A channel
  there is closed at once after it is made or never, so this case is ready only if it was from
  the start.
\<close>

definition waitForConnection ::
    "('a client_world_scheme) environ \<Rightarrow> Context \<Rightarrow> 'a client_world_scheme \<Rightarrow>
     (fins_error option \<times> 'a client_world_scheme) option" where
  "waitForConnection env x w =
     (if cl_closed (w_cli w) then Some (Some ClientClosedError, w)
      else do {
        (k, w1) \<leftarrow> e_wait env x w;
        (case k of
           WakeConnected \<Rightarrow> if cl_connected (w_cli w) then Some (None, w1) else None
         | WakeCtxDone \<Rightarrow> (case ctx_Err x (w_now w1) of Some e \<Rightarrow> Some (Some e, w1) | None \<Rightarrow> None)
         | WakeClosed \<Rightarrow> if cl_closed (w_cli w1) then Some (Some ClientClosedError, w1) else None
         | _ \<Rightarrow> None) })"

definition isConnected :: "Client \<Rightarrow> bool" where
  "isConnected c = cl_connected c"

section \<open>Service ids and response channels\<close>

definition incrementSid :: "Client \<Rightarrow> u8 \<times> Client" where
  "incrementSid c = (let sid = cl_sid c + 1
     in (sid, c\<lparr>cl_sid := sid, cl_resp := (cl_resp c)(sid := Some [])\<rparr>))"

definition nextHeader :: "Client \<Rightarrow> Header \<times> Client" where
  "nextHeader c = (let (sid, c1) = incrementSid c in (defaultCommandHeader (cl_src c1) (cl_dst c1) sid, c1))"

text \<open>
  What \<open>listenLoop\<close> does with a payload: an empty one is ignored, a response goes to the channel
  of its service id unless there is none or it is full.
\<close>

definition deliver :: "u8 slice \<Rightarrow> Client \<Rightarrow> Client option" where
  "deliver payload c =
     (if sl_len payload > 0
      then do {
        ans \<leftarrow> decodeResponse payload;
        Some (case cl_resp c (serviceID (rs_header ans)) of
                Some [] \<Rightarrow> c\<lparr>cl_resp := (cl_resp c)(serviceID (rs_header ans) := Some [ans])\<rparr>
              | _ \<Rightarrow> c) }
      else Some c)"

definition triggerReconnect ::
    "('a client_world_scheme) environ \<Rightarrow> fins_error \<Rightarrow> 'a client_world_scheme \<Rightarrow> 'a client_world_scheme option" where
  "triggerReconnect env reason w =
     (let c = w_cli w in
      if cl_closed c then Some w
      else if \<not> cl_autoReconnect c \<or> cl_reconnecting c then Some w
      else do {
        (hookErr, w1) \<leftarrow> e_hooks env reason (upd_cli (\<lambda>c. c\<lparr>cl_connected := False\<rparr>) w);
        let w2 = (case hookErr of
            Some e \<Rightarrow> upd_cli (\<lambda>c. if cl_listenErr c = [] then c\<lparr>cl_listenErr := [e]\<rparr> else c) w1
          | None \<Rightarrow> w1);
        Some (upd_cli (\<lambda>c. c\<lparr>cl_jobs := cl_jobs c + 1\<rparr>) w2) })"

section \<open>sendCommand\<close>

text \<open>The response at the head of a channel, taken out of it.\<close>

definition receive :: "u8 \<Rightarrow> 'a client_world_scheme \<Rightarrow> (response \<times> 'a client_world_scheme) option" where
  "receive sid w =
     (case cl_resp (w_cli w) sid of
        Some (r # rs) \<Rightarrow> Some (r, upd_cli (\<lambda>c. c\<lparr>cl_resp := (cl_resp c)(sid := Some rs)\<rparr>) w)
      | _ \<Rightarrow> None)"

definition sendCommand ::
    "('a client_world_scheme) environ \<Rightarrow> Context \<Rightarrow> u8 list \<Rightarrow> 'a client_world_scheme \<Rightarrow>
     ((fins_error + response) \<times> 'a client_world_scheme) option" where
  "sendCommand env x command w =
     (case ctx_Err x (w_now w) of
        Some e \<Rightarrow> Some (Inl e, w)
      | None \<Rightarrow>
          if \<not> cl_hasTransport (w_cli w) then Some (Inl (Errorf ''transport not initialized'' [] None), w)
          else
            let (header, c1) = nextHeader (w_cli w); sid = serviceID header in do {
              (sendErr, w1) \<leftarrow> e_send env x (encodeHeader header @ command) (upd_cli (\<lambda>_. c1) w);
              (case sendErr of
                 Some e \<Rightarrow> Some (Inl e, w1)
               | None \<Rightarrow> do {
                   (k, w2) \<leftarrow> e_await env x sid w1;
                   (case k of
                      WakeResponse \<Rightarrow> do { (r, w3) \<leftarrow> receive sid w2; Some (Inr r, w3) }
                    | WakeTimer \<Rightarrow>
                        if cl_responseTimeoutMs (w_cli w1) > 0
                        then do {
                          let err = ResponseTimeoutError (cl_responseTimeoutMs (w_cli w2));
                          w3 \<leftarrow> triggerReconnect env err w2;
                          Some (Inl err, w3) }
                        else None
                    | WakeCtxDone \<Rightarrow> (case ctx_Err x (w_now w2) of Some e \<Rightarrow> Some (Inl e, w2) | None \<Rightarrow> None)
                    | WakeClosed \<Rightarrow> if cl_closed (w_cli w2) then Some (Inl ClientClosedError, w2) else None
                    | _ \<Rightarrow> None) }) })"

definition checkResponse :: "fins_error + response \<Rightarrow> fins_error option" where
  "checkResponse re =
     (case re of
        Inl e \<Rightarrow> Some e
      | Inr r \<Rightarrow> if rs_endCode r \<noteq> EndCodeNormalCompletion then Some (EndCodeError (rs_endCode r)) else None)"

end
