(* ===== verification/Fins_Client_Ops.thy ===== *)
theory Fins_Client_Ops
  imports Fins_Client
begin

text \<open>
  The operations of \<open>client.go\<close>.  Those that go through \<open>invoke\<close> take the client's interceptor;
  the others have none in the code either.
\<close>

section \<open>The parts they share\<close>

text \<open>Wait for the connection, check the area, send the command, check the end code.\<close>

definition exchange ::
    "('a client_world_scheme) environ \<Rightarrow> (u8 \<Rightarrow> bool) \<Rightarrow> u8 \<Rightarrow> u8 list \<Rightarrow> Context \<Rightarrow> 'a client_world_scheme \<Rightarrow>
     ((fins_error + response) \<times> 'a client_world_scheme) option" where
  "exchange env okArea area command x w = do {
     (err, w1) \<leftarrow> waitForConnection env x w;
     (case err of
        Some e \<Rightarrow> Some (Inl e, w1)
      | None \<Rightarrow>
          if okArea area = False then Some (Inl (IncompatibleMemoryAreaError area), w1)
          else do {
            (re, w2) \<leftarrow> sendCommand env x command w1;
            Some (case checkResponse re of Some e \<Rightarrow> Inl e | None \<Rightarrow> re, w2) }) }"

text \<open>The byte-order loops on a client whose order may be nil: a nil one panics in the first turn.\<close>

definition client_get_words :: "Client \<Rightarrow> u8 slice \<Rightarrow> nat \<Rightarrow> u16 list option" where
  "client_get_words c data n =
     (case cl_byteOrder c of Some bo \<Rightarrow> get_words bo data n | None \<Rightarrow> if n = 0 then Some [] else None)"

definition client_words_bytes :: "Client \<Rightarrow> u16 list \<Rightarrow> u8 list option" where
  "client_words_bytes c data =
     (case cl_byteOrder c of
        Some bo \<Rightarrow> words_bytes bo data
      | None \<Rightarrow> if (of_nat (length data) :: u16) = 0 then Some [] else None)"

text \<open>\<open>return nil, err\<close>: what an invoker or an operation without a result makes of a response.\<close>

definition only_error :: "(fins_error + response) \<Rightarrow> fins_error option" where
  "only_error re = (case re of Inl e \<Rightarrow> Some e | Inr _ \<Rightarrow> None)"

section \<open>Reading\<close>

definition readWordsRaw ::
    "('a client_world_scheme) environ \<Rightarrow> Context \<Rightarrow> ('a client_world_scheme) word_reader" where
  "readWordsRaw env x area addr n w = do {
     (re, w1) \<leftarrow> exchange env checkIsWordMemoryArea area (readCommand (memAddr area addr) n) x w;
     (case re of
        Inl e \<Rightarrow> Some (Inl e, w1)
      | Inr r \<Rightarrow> do { ws \<leftarrow> client_get_words (w_cli w1) (rs_data r) (unat n); Some (Inr ws, w1) }) }"

definition Client_ReadWords ::
    "('a client_world_scheme) environ \<Rightarrow> ('a client_world_scheme) interceptor option \<Rightarrow> Context \<Rightarrow>
     ('a client_world_scheme) word_reader" where
  "Client_ReadWords env ics x area addr n w = do {
     (r, w1) \<leftarrow> invoke_with ics x
       \<lparr>Operation = OpReadWords, MemoryArea = area, Address = addr, BitOffset = 0, Count = n, Data = VNil\<rparr>
       (\<lambda>x w. map_option (\<lambda>(v, w1). (case v of Inl e \<Rightarrow> (VNil, Some e) | Inr ws \<Rightarrow> (VWords ws, None), w1))
          (readWordsRaw env x area addr n w)) w;
     v \<leftarrow> assert_words r;
     Some (v, w1) }"

definition Client_ReadBytes ::
    "('a client_world_scheme) environ \<Rightarrow> ('a client_world_scheme) interceptor option \<Rightarrow> Context \<Rightarrow>
     u8 \<Rightarrow> u16 \<Rightarrow> u16 \<Rightarrow> 'a client_world_scheme \<Rightarrow> ((fins_error + u8 list) \<times> 'a client_world_scheme) option" where
  "Client_ReadBytes env ics x area addr n w = do {
     (r, w1) \<leftarrow> invoke_with ics x
       \<lparr>Operation = OpReadBytes, MemoryArea = area, Address = addr, BitOffset = 0, Count = n, Data = VNil\<rparr>
       (\<lambda>x w. do {
          (re, w1) \<leftarrow> exchange env checkIsWordMemoryArea area (readCommand (memAddr area addr) n) x w;
          Some (case re of Inl e \<Rightarrow> (VNil, Some e) | Inr r \<Rightarrow> (VBytes (elems (rs_data r)), None), w1) }) w;
     v \<leftarrow> assert_bytes r;
     Some (v, w1) }"

definition Client_ReadString ::
    "('a client_world_scheme) environ \<Rightarrow> ('a client_world_scheme) interceptor option \<Rightarrow> Context \<Rightarrow>
     u8 \<Rightarrow> u16 \<Rightarrow> u16 \<Rightarrow> 'a client_world_scheme \<Rightarrow> ((fins_error + u8 list) \<times> 'a client_world_scheme) option" where
  "Client_ReadString env ics x area addr n w =
     map_option (\<lambda>(v, w1). (map_sum id cut_string v, w1)) (Client_ReadBytes env ics x area addr n w)"

definition Client_ReadBits ::
    "('a client_world_scheme) environ \<Rightarrow> ('a client_world_scheme) interceptor option \<Rightarrow> Context \<Rightarrow>
     ('a client_world_scheme) bit_reader" where
  "Client_ReadBits env ics x area addr off n w = do {
     (r, w1) \<leftarrow> invoke_with ics x
       \<lparr>Operation = OpReadBits, MemoryArea = area, Address = addr, BitOffset = off, Count = n, Data = VNil\<rparr>
       (\<lambda>x w. do {
          (re, w1) \<leftarrow> exchange env checkIsBitMemoryArea area (readCommand (memAddrWithBitOffset area addr off) n) x w;
          (case re of
             Inl e \<Rightarrow> Some ((VNil, Some e), w1)
           | Inr r \<Rightarrow> do { bs \<leftarrow> bits_of_data (rs_data r) (unat n); Some ((VBools bs, None), w1) }) }) w;
     v \<leftarrow> assert_bools r;
     Some (v, w1) }"

text \<open>
  \<open>ReadClock\<close> returns the arguments it gives to \<open>time.Date\<close> (before that normalises them).  The
  errors of \<open>decodeBCD\<close> are dropped, and its value is 0 then.
\<close>

definition bcd_value :: "u8 slice \<Rightarrow> u64" where
  "bcd_value d = (case decodeBCD (elems d) of Inl e \<Rightarrow> 0 | Inr v \<Rightarrow> v)"

definition clock_date :: "u8 slice \<Rightarrow> goTime option" where
  "clock_date data = do {
     y \<leftarrow> map_option bcd_value (sl_range data 0 1);
     let year = (if y < 50 then y + 2000 else y + 1900);
     month \<leftarrow> map_option bcd_value (sl_range data 1 2);
     day \<leftarrow> map_option bcd_value (sl_range data 2 3);
     hour \<leftarrow> map_option bcd_value (sl_range data 3 4);
     minute \<leftarrow> map_option bcd_value (sl_range data 4 5);
     second \<leftarrow> map_option bcd_value (sl_range data 5 6);
     Some \<lparr>Year = sint year, Month = sint month, Day = sint day, Hour = sint hour, Minute = sint minute,
           Second = sint second\<rparr> }"

definition Client_ReadClock ::
    "('a client_world_scheme) environ \<Rightarrow> Context \<Rightarrow> 'a client_world_scheme \<Rightarrow>
     ((fins_error + goTime) \<times> 'a client_world_scheme) option" where
  "Client_ReadClock env x w = do {
     (re, w1) \<leftarrow> exchange env (\<lambda>_. True) 0 clockReadCommand x w;
     (case re of
        Inl e \<Rightarrow> Some (Inl e, w1)
      | Inr r \<Rightarrow> do { t \<leftarrow> clock_date (rs_data r); Some (Inr t, w1) }) }"

section \<open>Writing\<close>

text \<open>
  In \<open>WriteWords\<close> and \<open>WriteBits\<close> the data is encoded after the area check and before the command is
  sent, so the panic of the encoding loop comes only there.
\<close>

definition Client_WriteWords ::
    "('a client_world_scheme) environ \<Rightarrow> ('a client_world_scheme) interceptor option \<Rightarrow> Context \<Rightarrow>
     ('a client_world_scheme) word_writer" where
  "Client_WriteWords env ics x area addr data w = do {
     (r, w1) \<leftarrow> invoke_with ics x
       \<lparr>Operation = OpWriteWords, MemoryArea = area, Address = addr, BitOffset = 0, Count = 0, Data = VWords data\<rparr>
       (\<lambda>x w. do {
          (err, w1) \<leftarrow> waitForConnection env x w;
          (case err of
             Some e \<Rightarrow> Some ((VNil, Some e), w1)
           | None \<Rightarrow>
               if checkIsWordMemoryArea area = False then Some ((VNil, Some (IncompatibleMemoryAreaError area)), w1)
               else do {
                 bts \<leftarrow> client_words_bytes (w_cli w1) data;
                 (re, w2) \<leftarrow> sendCommand env x (writeCommand (memAddr area addr) (of_nat (length data)) bts) w1;
                 Some ((VNil, checkResponse re), w2) }) }) w;
     Some (snd r, w1) }"

definition Client_WriteString ::
    "('a client_world_scheme) environ \<Rightarrow> Context \<Rightarrow> u8 \<Rightarrow> u16 \<Rightarrow> u8 list \<Rightarrow> 'a client_world_scheme \<Rightarrow>
     (fins_error option \<times> 'a client_world_scheme) option" where
  "Client_WriteString env x area addr str w =
     map_option (\<lambda>(re, w1). (only_error re, w1))
       (exchange env checkIsWordMemoryArea area
          (writeCommand (memAddr area addr) (string_words str) (string_bytes str)) x w)"

definition Client_WriteBytes ::
    "('a client_world_scheme) environ \<Rightarrow> Context \<Rightarrow> u8 \<Rightarrow> u16 \<Rightarrow> u8 list \<Rightarrow> 'a client_world_scheme \<Rightarrow>
     (fins_error option \<times> 'a client_world_scheme) option" where
  "Client_WriteBytes env x area addr b w =
     map_option (\<lambda>(re, w1). (only_error re, w1))
       (exchange env checkIsWordMemoryArea area (writeCommand (memAddr area addr) (of_nat (length b)) b) x w)"

definition Client_WriteBits ::
    "('a client_world_scheme) environ \<Rightarrow> ('a client_world_scheme) interceptor option \<Rightarrow> Context \<Rightarrow>
     ('a client_world_scheme) bit_writer" where
  "Client_WriteBits env ics x area addr off data w = do {
     (r, w1) \<leftarrow> invoke_with ics x
       \<lparr>Operation = OpWriteBits, MemoryArea = area, Address = addr, BitOffset = off, Count = 0, Data = VBools data\<rparr>
       (\<lambda>x w. map_option (\<lambda>(re, w1). ((VNil, only_error re), w1))
          (exchange env checkIsBitMemoryArea area
             (writeCommand (memAddrWithBitOffset area addr off) (of_nat (length data)) (bools_bytes data)) x w)) w;
     Some (snd r, w1) }"

definition Client_bitTwiddle ::
    "('a client_world_scheme) environ \<Rightarrow> Context \<Rightarrow> u8 \<Rightarrow> u16 \<Rightarrow> u8 \<Rightarrow> u8 \<Rightarrow> 'a client_world_scheme \<Rightarrow>
     (fins_error option \<times> 'a client_world_scheme) option" where
  "Client_bitTwiddle env x area addr off v w =
     map_option (\<lambda>(re, w1). (only_error re, w1))
       (exchange env checkIsBitMemoryArea area
          (writeCommand \<lparr>memoryArea = area, address = addr, bitOffset = off\<rparr> 1 [v]) x w)"

definition Client_SetBit where
  "Client_SetBit env x area addr off = Client_bitTwiddle env x area addr off 1"

definition Client_ResetBit where
  "Client_ResetBit env x area addr off = Client_bitTwiddle env x area addr off 0"

definition Client_ToggleBit ::
    "('a client_world_scheme) environ \<Rightarrow> ('a client_world_scheme) interceptor option \<Rightarrow> Context \<Rightarrow>
     u8 \<Rightarrow> u16 \<Rightarrow> u8 \<Rightarrow> 'a client_world_scheme \<Rightarrow> (fins_error option \<times> 'a client_world_scheme) option" where
  "Client_ToggleBit env ics x area addr off w = do {
     (v, w1) \<leftarrow> Client_ReadBits env ics x area addr off 1 w;
     (case v of
        Inl e \<Rightarrow> Some (Some e, w1)
      | Inr [] \<Rightarrow> None
      | Inr (b # _) \<Rightarrow> Client_bitTwiddle env x area addr off (if b then 0 else 1) w1) }"

end
