(* ===== verification/Fins_Link.thy ===== *)
theory Fins_Link
  imports Fins_Client_Ops
begin

text \<open>
  The network client on a link to the simulator.  The locale \<open>link\<close> is what the operations need
  of a link: a command that the server would answer is answered, under the service id of the
  request.  On any such link the client keeps the contract \<open>fins_client\<close>.
\<close>

section \<open>The clock, decoded\<close>

text \<open>A date whose fields have two digits and whose year the client's century rule can tell.\<close>

definition clock_range :: "goTime \<Rightarrow> bool" where
  "clock_range t \<longleftrightarrow> 1950 \<le> Year t \<and> Year t < 2050 \<and>
     (\<forall>v \<in> {Month t, Day t, Hour t, Minute t, Second t}. 0 \<le> v \<and> v < 100)"

lemma sint_small: "0 \<le> v \<Longrightarrow> v < 10000 \<Longrightarrow> sint (word_of_int v :: u64) = v"
  by (simp add: sint_sbintrunc' signed_take_bit_int_eq_self)

lemma bcd_value_byte:
  assumes "0 \<le> v" "v < 100"
  shows "bcd_value (Slice [bcdByte v] sp) = word_of_int v"
  using decode_bcdByte [OF assms] by (simp add: bcd_value_def)

lemma clock_date_encode:
  assumes "clock_range t"
  shows "clock_date (Slice (encodeClock t) sp) = Some t"
proof -
  let ?y = "Year t mod 100"
  have y: "0 \<le> ?y" "?y < 100" "go_mod (Year t) 100 = ?y"
    using assms by (simp_all add: go_mod_nonneg clock_range_def)
  have range: "1950 \<le> Year t" "Year t < 2050" using assms by (simp_all add: clock_range_def)
  have small: "(word_of_int ?y :: u64) < 50 \<longleftrightarrow> ?y < 50"
    using y(1,2) by (simp add: word_less_def uint_word_of_int)
  have year: "sint (if (word_of_int ?y :: u64) < 50 then word_of_int ?y + 2000 else word_of_int ?y + 1900 :: u64) = Year t"
  proof -
    have s: "sint (word_of_int ?y + 2000 :: u64) = ?y + 2000" "sint (word_of_int ?y + 1900 :: u64) = ?y + 1900"
      using sint_small [of "?y + 2000"] sint_small [of "?y + 1900"] y(1,2)
      by (simp_all only: of_int_add of_int_numeral)
    have "sint (if (word_of_int ?y :: u64) < 50 then word_of_int ?y + 2000 else word_of_int ?y + 1900 :: u64) =
        (if ?y < 50 then ?y + 2000 else ?y + 1900)"
      unfolding small by (cases "?y < 50") (simp_all only: s if_True if_False)
    also have "\<dots> = Year t" using range by presburger
    finally show ?thesis .
  qed
  have f: "0 \<le> Month t" "Month t < 100" "0 \<le> Day t" "Day t < 100" "0 \<le> Hour t" "Hour t < 100"
    "0 \<le> Minute t" "Minute t < 100" "0 \<le> Second t" "Second t < 100"
    using assms by (auto simp: clock_range_def)
  show ?thesis
    using year y f
    by (simp add: clock_date_def encodeClock_def go_slice bcd_value_byte sint_small Let_def)
qed

section \<open>Links\<close>

locale link = byte_order bo for bo +
  fixes env :: "('a client_world_scheme) environ" and x :: Context
    and ready :: "'a client_world_scheme \<Rightarrow> bool" and srv :: "'a client_world_scheme \<Rightarrow> Server"
    and clock :: "'a client_world_scheme \<Rightarrow> goTime" and limit :: nat
  assumes connected: "ready w \<Longrightarrow> waitForConnection env x w = Some (None, w)"
    and order: "ready w \<Longrightarrow> cl_byteOrder (w_cli w) = Some bo"
    and server: "ready w \<Longrightarrow> server_ok (srv w)"
    and request: "ready w \<Longrightarrow> length cmd \<le> 8 + limit \<Longrightarrow> length d \<le> limit \<Longrightarrow>
      server_ok s' \<Longrightarrow> closed s' = closed (srv w) \<Longrightarrow>
      (\<And>a b sid sp. serve_frame (srv w) (clock w) (Slice (encodeHeader (defaultCommandHeader a b sid) @ cmd) sp) =
         Some (s', reply_bytes a b sid cc ec d)) \<Longrightarrow>
      \<exists>w' h sp. sendCommand env x cmd w =
          Some (Inr \<lparr>rs_header = h, rs_commandCode = cc, rs_endCode = ec, rs_data = Slice d sp\<rparr>, w') \<and>
        ready w' \<and> srv w' = s'"
begin

definition view :: "'a client_world_scheme \<Rightarrow> plc" where
  "view w = server_view (srv w)"

lemma exchange_ok:
  assumes w: "ready w" and a: "okArea area"
    and len: "length cmd \<le> 8 + limit" "length d \<le> limit" and s: "server_ok s'" "closed s' = closed (srv w)"
    and reply: "\<And>a b sid sp. serve_frame (srv w) (clock w) (Slice (encodeHeader (defaultCommandHeader a b sid) @ cmd) sp) =
        Some (s', reply_bytes a b sid cc EndCodeNormalCompletion d)"
  shows "\<exists>w' r sp. exchange env okArea area cmd x w = Some (Inr r, w') \<and> ready w' \<and> srv w' = s' \<and> rs_data r = Slice d sp"
proof -
  obtain w' h sp where "sendCommand env x cmd w = Some (Inr \<lparr>rs_header = h, rs_commandCode = cc,
      rs_endCode = EndCodeNormalCompletion, rs_data = Slice d sp\<rparr>, w')" "ready w'" "srv w' = s'"
    using request [OF w len s reply] by blast
  then show ?thesis
    using connected [OF w] a by (simp add: exchange_def checkResponse_def)
qed

lemma read_words_link:
  assumes w: "ready w" and a: "checkIsWordMemoryArea a" and f: "fits limit (unat ad) (2 * unat n)"
  shows "\<exists>w'. Client_ReadWords env None x a ad n w =
      Some (Inr (words_from bo (wmem (view w) a) (unat ad) (unat n)), w') \<and> ready w' \<and> view w' = view w"
proof -
  let ?d = "load (wmem (view w) a) (unat ad) (2 * unat n)"
  have "readWords (srv w) a ad n = Some (?d, EndCodeNormalCompletion)"
    using readWords_view [OF server [OF w] check_word_area [OF a]] f by (simp add: fits_def view_def)
  then have "\<And>f t sid sp. serve_frame (srv w) (clock w) (Slice (encodeHeader (defaultCommandHeader f t sid) @
      readCommand (memAddr a ad) n) sp) = Some (srv w, reply_bytes f t sid CommandCodeMemoryAreaRead EndCodeNormalCompletion ?d)"
    using check_word_area [OF a] by (simp add: serve_read_words memAddr_def memAddrWithBitOffset_def)
  then obtain w' r sp where "exchange env checkIsWordMemoryArea a (readCommand (memAddr a ad) n) x w = Some (Inr r, w')"
    "ready w'" "srv w' = srv w" "rs_data r = Slice ?d sp"
    using exchange_ok [of w checkIsWordMemoryArea a "readCommand (memAddr a ad) n" ?d "srv w"
        CommandCodeMemoryAreaRead] w a f server [OF w]
    by (auto simp: fits_def)
  then show ?thesis
    by (simp add: Client_ReadWords_def invoke_with_def readWordsRaw_def client_get_words_def order
        get_words_load assert_words_def view_def)
qed

lemma write_words_link:
  assumes w: "ready w" and a: "checkIsWordMemoryArea a" and f: "fits limit (unat ad) (2 * length ws)"
  shows "\<exists>w'. Client_WriteWords env None x a ad ws w = Some (None, w') \<and> ready w' \<and>
      view w' = store_word_bytes a (unat ad) (order_words bo ws) (view w)"
proof -
  let ?p = "order_words bo ws" and ?n = "of_nat (length ws) :: u16"
  have n: "unat ?n = length ws" using f by (simp add: fits_def unat_of_nat_small)
  have enc: "client_words_bytes (w_cli w) ws = Some ?p"
    using f words_bytes_small by (simp add: client_words_bytes_def order [OF w] fits_def)
  obtain s' where s: "writeWords (srv w) a ad ?n ?p = Some (s', EndCodeNormalCompletion)" "server_ok s'"
    "closed s' = closed (srv w)" "server_view s' = store_word_bytes a (unat ad) ?p (view w)"
    using writeWords_view [OF server [OF w] check_word_area [OF a], of ad ?n ?p] f n length_order_words [of ws]
    by (auto simp: fits_def view_def)
  have reply: "\<And>f t sid sp. serve_frame (srv w) (clock w) (Slice (encodeHeader (defaultCommandHeader f t sid) @
      writeCommand (memAddr a ad) ?n ?p) sp) = Some (s', reply_bytes f t sid CommandCodeMemoryAreaWrite EndCodeNormalCompletion [])"
    using check_word_area [OF a] s(1) n f length_order_words [of ws]
    by (simp add: serve_write_words memAddr_def memAddrWithBitOffset_def fits_def)
  obtain w' h sp where "sendCommand env x (writeCommand (memAddr a ad) ?n ?p) w = Some (Inr \<lparr>rs_header = h,
      rs_commandCode = CommandCodeMemoryAreaWrite, rs_endCode = EndCodeNormalCompletion, rs_data = Slice [] sp\<rparr>, w')"
    "ready w'" "srv w' = s'"
    using request [OF w _ _ s(2,3) reply] f length_order_words [of ws] by (auto simp: fits_def)
  then show ?thesis
    using connected [OF w] a enc s(4)
    by (simp add: Client_WriteWords_def invoke_with_def checkResponse_def view_def)
qed

lemma read_bits_link:
  assumes w: "ready w" and a: "checkIsBitMemoryArea a" and f: "fits limit (unat ad + unat off) (unat n)"
  shows "\<exists>w'. Client_ReadBits env None x a ad off n w =
      Some (Inr (map byte_bool (load (bmem (view w) a) (unat ad + unat off) (unat n))), w') \<and>
      ready w' \<and> view w' = view w"
proof -
  let ?d = "load (bmem (view w) a) (unat ad + unat off) (unat n)"
  have "readBits (srv w) a ad off n = Some (?d, EndCodeNormalCompletion)"
    using readBits_view [OF server [OF w] check_bit_area [OF a]] f by (simp add: fits_def view_def)
  then have "\<And>f t sid sp. serve_frame (srv w) (clock w) (Slice (encodeHeader (defaultCommandHeader f t sid) @
      readCommand (memAddrWithBitOffset a ad off) n) sp) =
      Some (srv w, reply_bytes f t sid CommandCodeMemoryAreaRead EndCodeNormalCompletion ?d)"
    using check_bit_area [OF a] by (simp add: serve_read_bits memAddrWithBitOffset_def)
  then obtain w' r sp where
    "exchange env checkIsBitMemoryArea a (readCommand (memAddrWithBitOffset a ad off) n) x w = Some (Inr r, w')"
    "ready w'" "srv w' = srv w" "rs_data r = Slice ?d sp"
    using exchange_ok [of w checkIsBitMemoryArea a "readCommand (memAddrWithBitOffset a ad off) n" ?d "srv w"
        CommandCodeMemoryAreaRead]
      w a f server [OF w] by (auto simp: fits_def)
  then show ?thesis
    by (simp add: Client_ReadBits_def invoke_with_def bits_of_data_slice assert_bools_def view_def)
qed

lemma write_bits_link:
  assumes w: "ready w" and a: "checkIsBitMemoryArea a" and f: "fits limit (unat ad + unat off) (length bs)"
  shows "\<exists>w'. Client_WriteBits env None x a ad off bs w = Some (None, w') \<and> ready w' \<and>
      view w' = store_bit_bytes a (unat ad + unat off) (bool_bytes bs) (view w)"
proof -
  let ?n = "of_nat (length bs) :: u16"
  have n: "unat ?n = length bs" using f by (simp add: fits_def unat_of_nat_small)
  have enc: "bools_bytes bs = bool_bytes bs" using f by (intro bools_bytes_small) (simp add: fits_def)
  obtain s' where s: "writeBits (srv w) a ad off ?n (bool_bytes bs) = Some (s', EndCodeNormalCompletion)"
    "server_ok s'" "closed s' = closed (srv w)"
    "server_view s' = store_bit_bytes a (unat ad + unat off) (bool_bytes bs) (view w)"
    using writeBits_view [OF server [OF w] check_bit_area [OF a], of ad off ?n "bool_bytes bs"] f n
    by (auto simp: fits_def view_def)
  then have "\<And>f t sid sp. serve_frame (srv w) (clock w) (Slice (encodeHeader (defaultCommandHeader f t sid) @
      writeCommand (memAddrWithBitOffset a ad off) ?n (bool_bytes bs)) sp) =
      Some (s', reply_bytes f t sid CommandCodeMemoryAreaWrite EndCodeNormalCompletion [])"
    using check_bit_area [OF a] n f by (simp add: serve_write_bits memAddrWithBitOffset_def fits_def)
  then obtain w' r where
    "exchange env checkIsBitMemoryArea a (writeCommand (memAddrWithBitOffset a ad off) ?n (bool_bytes bs)) x w = Some (Inr r, w')"
    "ready w'" "srv w' = s'"
    using exchange_ok [of w checkIsBitMemoryArea a "writeCommand (memAddrWithBitOffset a ad off) ?n (bool_bytes bs)" "[]" s'
        CommandCodeMemoryAreaWrite]
      w a f s(2,3) by (auto simp: fits_def)
  then show ?thesis
    using s(4) by (simp add: Client_WriteBits_def invoke_with_def enc only_error_def view_def)
qed

lemma read_clock_link:
  assumes w: "ready w" and limit: "6 \<le> limit"
  shows "\<exists>w' sp. Client_ReadClock env x w =
      map_option (\<lambda>t. (Inr t, w')) (clock_date (Slice (encodeClock (clock w)) sp)) \<and> ready w' \<and> srv w' = srv w"
proof -
  obtain w' r sp where "exchange env (\<lambda>_. True) 0 clockReadCommand x w = Some (Inr r, w')"
    "ready w'" "srv w' = srv w" "rs_data r = Slice (encodeClock (clock w)) sp"
    using exchange_ok [OF w, of "\<lambda>_. True" 0 clockReadCommand "encodeClock (clock w)" "srv w" CommandCodeClockRead]
      limit server [OF w] serve_clock by (auto simp: encodeClock_def)
  then show ?thesis
    by (auto simp: Client_ReadClock_def map_conv_bind_option comp_def)
qed

text \<open>A read past the end of the area is refused and leaves the memory alone.\<close>

lemma read_refused_link:
  assumes w: "ready w" and a: "checkIsWordMemoryArea a"
    and f: "DM_AREA_SIZE < unat ad + 2 * unat n" "unat ad + 2 * unat n < 65536"
  shows "\<exists>w'. Client_ReadWords env None x a ad n w = Some (Inl (EndCodeError EndCodeAddressRangeExceeded), w') \<and>
      ready w' \<and> srv w' = srv w"
proof -
  have "unat (ad + n * 2) = unat ad + 2 * unat n" using f(2) by (simp add: unat_word_ariths)
  then have "readWords (srv w) a ad n = Some ([], EndCodeAddressRangeExceeded)"
    using server_ok_word_area [OF server [OF w] check_word_area [OF a]] f(1) server [OF w]
    by (auto simp: readWords_cases)
  then have reply: "\<And>f t sid sp. serve_frame (srv w) (clock w) (Slice (encodeHeader (defaultCommandHeader f t sid) @
      readCommand (memAddr a ad) n) sp) = Some (srv w, reply_bytes f t sid CommandCodeMemoryAreaRead EndCodeAddressRangeExceeded [])"
    using check_word_area [OF a] by (simp add: serve_read_words memAddr_def memAddrWithBitOffset_def)
  obtain w' h sp where "sendCommand env x (readCommand (memAddr a ad) n) w = Some (Inr \<lparr>rs_header = h,
      rs_commandCode = CommandCodeMemoryAreaRead, rs_endCode = EndCodeAddressRangeExceeded, rs_data = Slice [] sp\<rparr>, w')"
    "ready w'" "srv w' = srv w"
    using request [OF w _ _ server [OF w] refl reply] by auto
  then show ?thesis
    using connected [OF w] a
    by (simp add: Client_ReadWords_def readWordsRaw_def exchange_def invoke_with_def checkResponse_def assert_words_def)
qed

text \<open>So is a write past the end.\<close>

lemma refused_write_link:
  assumes w: "ready w" and len: "length p \<le> limit"
    and reply: "\<And>f t sid sp. serve_frame (srv w) (clock w) (Slice (encodeHeader (defaultCommandHeader f t sid) @
      writeCommand ma n p) sp) = Some (srv w, reply_bytes f t sid CommandCodeMemoryAreaWrite EndCodeAddressRangeExceeded [])"
  shows "\<exists>w' h sp. sendCommand env x (writeCommand ma n p) w = Some (Inr \<lparr>rs_header = h,
      rs_commandCode = CommandCodeMemoryAreaWrite, rs_endCode = EndCodeAddressRangeExceeded, rs_data = Slice [] sp\<rparr>, w') \<and>
      ready w' \<and> srv w' = srv w"
  using request [OF w _ _ server [OF w] refl reply] len by simp

lemma write_words_refused_link:
  assumes w: "ready w" and a: "checkIsWordMemoryArea a" and f: "DM_AREA_SIZE < unat ad + 2 * length ws"
    and s: "no_wrap (WordsAt a ad ws)" and l: "65536 \<le> limit"
  shows "\<exists>w'. Client_WriteWords env None x a ad ws w = Some (Some (EndCodeError EndCodeAddressRangeExceeded), w') \<and>
      ready w' \<and> srv w' = srv w"
proof -
  let ?p = "order_words bo ws" and ?n = "of_nat (length ws) :: u16"
  have n: "unat ?n = length ws" using s by (simp add: unat_of_nat_small)
  have enc: "client_words_bytes (w_cli w) ws = Some ?p"
    using s words_bytes_small by (simp add: client_words_bytes_def order [OF w])
  have "unat (ad + ?n * 2) = unat ad + 2 * length ws" using s n by (simp add: unat_word_ariths)
  then have "writeWords (srv w) a ad ?n ?p = Some (srv w, EndCodeAddressRangeExceeded)"
    using server_ok_word_area [OF server [OF w] check_word_area [OF a]] f server [OF w] by (auto simp: writeWords_cases)
  then have "\<And>f t sid sp. serve_frame (srv w) (clock w) (Slice (encodeHeader (defaultCommandHeader f t sid) @
      writeCommand (memAddr a ad) ?n ?p) sp) = Some (srv w, reply_bytes f t sid CommandCodeMemoryAreaWrite EndCodeAddressRangeExceeded [])"
    using check_word_area [OF a] s n length_order_words [of ws]
    by (simp add: serve_write_words memAddr_def memAddrWithBitOffset_def)
  from refused_write_link [OF w _ this] show ?thesis
    using connected [OF w] a enc s l length_order_words [of ws]
    by (auto simp: Client_WriteWords_def invoke_with_def checkResponse_def)
qed

lemma write_bits_refused_link:
  assumes w: "ready w" and a: "checkIsBitMemoryArea a" and f: "DM_AREA_SIZE < unat ad + unat off + length bs"
    and s: "no_wrap (BitsAt a ad off bs)" and l: "65536 \<le> limit"
  shows "\<exists>w'. Client_WriteBits env None x a ad off bs w = Some (Some (EndCodeError EndCodeAddressRangeExceeded), w') \<and>
      ready w' \<and> srv w' = srv w"
proof -
  let ?p = "bool_bytes bs" and ?n = "of_nat (length bs) :: u16"
  have n: "unat ?n = length bs" using s by (simp add: unat_of_nat_small)
  have enc: "bools_bytes bs = ?p" using s by (intro bools_bytes_small) simp
  have "unat (ad + ucast off + ?n) = unat ad + unat off + length bs"
    using s n bit_end_nowrap(1) [of ad off ?n] by simp
  then have "writeBits (srv w) a ad off ?n ?p = Some (srv w, EndCodeAddressRangeExceeded)"
    using server_ok_bit_area [OF server [OF w] check_bit_area [OF a]] f server [OF w] by (auto simp: writeBits_cases)
  then have "\<And>f t sid sp. serve_frame (srv w) (clock w) (Slice (encodeHeader (defaultCommandHeader f t sid) @
      writeCommand (memAddrWithBitOffset a ad off) ?n ?p) sp) =
      Some (srv w, reply_bytes f t sid CommandCodeMemoryAreaWrite EndCodeAddressRangeExceeded [])"
    using check_bit_area [OF a] s n by (simp add: serve_write_bits memAddrWithBitOffset_def)
  from refused_write_link [OF w _ this] show ?thesis
    using connected [OF w] a s l
    by (auto simp: Client_WriteBits_def exchange_def invoke_with_def checkResponse_def enc only_error_def)
qed

text \<open>Every write that does not wrap is applied or refused as the specification says.\<close>

lemma run_write_checked:
  assumes w: "ready w" and s: "no_wrap op" and l: "65536 \<le> limit"
  shows "\<exists>w'. run_write (Client_WriteWords env None x) (Client_WriteBits env None x) op w = Some (write_refusal op, w') \<and>
    ready w' \<and> view w' = checked_write bo op (view w)"
proof (cases op)
  case (WordsAt a ad ws)
  consider "\<not> checkIsWordMemoryArea a" | "checkIsWordMemoryArea a" "DM_AREA_SIZE < unat ad + 2 * length ws"
    | "checkIsWordMemoryArea a" "fits limit (unat ad) (2 * length ws)"
    using l s by (fastforce simp: WordsAt fits_def)
  then show ?thesis
  proof cases
    case 1
    then show ?thesis
      using w connected [OF w] by (simp add: WordsAt Client_WriteWords_def invoke_with_def checked_write_def)
  next
    case 2
    then show ?thesis
      using write_words_refused_link [OF w 2 s [unfolded WordsAt] l] by (auto simp: WordsAt checked_write_def view_def)
  next
    case 3
    then show ?thesis
      using write_words_link [OF w 3] by (auto simp: WordsAt checked_write_def fits_def)
  qed
next
  case (BitsAt a ad off bs)
  consider "\<not> checkIsBitMemoryArea a" | "checkIsBitMemoryArea a" "DM_AREA_SIZE < unat ad + unat off + length bs"
    | "checkIsBitMemoryArea a" "fits limit (unat ad + unat off) (length bs)"
    using l s by (fastforce simp: BitsAt fits_def)
  then show ?thesis
  proof cases
    case 1
    then show ?thesis
      using w connected [OF w]
      by (simp add: BitsAt Client_WriteBits_def exchange_def invoke_with_def only_error_def checked_write_def)
  next
    case 2
    then show ?thesis
      using write_bits_refused_link [OF w 2 s [unfolded BitsAt] l] by (auto simp: BitsAt checked_write_def view_def)
  next
    case 3
    then show ?thesis
      using write_bits_link [OF w 3] by (auto simp: BitsAt checked_write_def fits_def)
  qed
qed

lemma run_each_checked:
  assumes "65536 \<le> limit"
  shows "ready w \<Longrightarrow> list_all no_wrap ops \<Longrightarrow>
    \<exists>w'. run_each (Client_WriteWords env None x) (Client_WriteBits env None x) ops w = Some (map write_refusal ops, w') \<and>
      ready w' \<and> view w' = fold (checked_write bo) ops (view w)"
proof (induction ops arbitrary: w)
  case (Cons op ops)
  then obtain w1 where "run_write (Client_WriteWords env None x) (Client_WriteBits env None x) op w = Some (write_refusal op, w1)"
    "ready w1" "view w1 = checked_write bo op (view w)"
    using run_write_checked [of w op] assms by auto
  with Cons show ?case by fastforce
qed simp

lemma bit_twiddle_link:
  assumes w: "ready w" and a: "checkIsBitMemoryArea a" and f: "fits limit (unat ad + unat off) 1"
  shows "\<exists>w'. Client_bitTwiddle env x a ad off v w = Some (None, w') \<and> ready w' \<and>
      view w' = store_bit_bytes a (unat ad + unat off) [v] (view w)"
proof -
  obtain s' where s: "writeBits (srv w) a ad off 1 [v] = Some (s', EndCodeNormalCompletion)"
    "server_ok s'" "closed s' = closed (srv w)"
    "server_view s' = store_bit_bytes a (unat ad + unat off) [v] (view w)"
    using writeBits_view [OF server [OF w] check_bit_area [OF a], of ad off 1 "[v]"] f
    by (auto simp: fits_def view_def)
  then have "\<And>f t sid sp. serve_frame (srv w) (clock w) (Slice (encodeHeader (defaultCommandHeader f t sid) @
      writeCommand (memAddrWithBitOffset a ad off) 1 [v]) sp) =
      Some (s', reply_bytes f t sid CommandCodeMemoryAreaWrite EndCodeNormalCompletion [])"
    using check_bit_area [OF a] by (simp add: serve_write_bits memAddrWithBitOffset_def)
  then obtain w' r where
    "exchange env checkIsBitMemoryArea a (writeCommand (memAddrWithBitOffset a ad off) 1 [v]) x w = Some (Inr r, w')"
    "ready w'" "srv w' = s'"
    using exchange_ok [of w checkIsBitMemoryArea a "writeCommand (memAddrWithBitOffset a ad off) 1 [v]" "[]" s'
        CommandCodeMemoryAreaWrite]
      w a f s(2,3) by (auto simp: fits_def)
  then show ?thesis
    using s(4) by (auto simp: Client_bitTwiddle_def only_error_def view_def memAddrWithBitOffset_def)
qed

lemma toggle_link:
  assumes w: "ready w" and a: "checkIsBitMemoryArea a" and f: "fits limit (unat ad + unat off) 1"
  shows "\<exists>w'. Client_ToggleBit env None x a ad off w = Some (None, w') \<and> ready w' \<and>
      view w' = store_bit_bytes a (unat ad + unat off)
        [if byte_bool (bmem (view w) a (unat ad + unat off)) then 0 else 1] (view w)"
proof -
  obtain w1 where "Client_ReadBits env None x a ad off 1 w =
      Some (Inr [byte_bool (bmem (view w) a (unat ad + unat off))], w1)" "ready w1" "view w1 = view w"
    using read_bits_link [OF w a, of ad off 1] f by (auto simp: load_def)
  then show ?thesis
    using bit_twiddle_link [of w1 a ad off
        "if byte_bool (bmem (view w) a (unat ad + unat off)) then 0 else 1"] a f
    by (simp add: Client_ToggleBit_def)
qed

sublocale fins_client bo "Client_ReadWords env None x" "Client_WriteWords env None x"
    "Client_ReadBits env None x" "Client_WriteBits env None x" ready view limit
  using read_words_link write_words_link read_bits_link write_bits_link by unfold_locales simp_all

end

end
