(* ===== verification/Fins_Loopback.thy ===== *)
theory Fins_Loopback
  imports Fins_Link
begin

text \<open>
  The two transports, joined to a simulator over a network that loses nothing.  Each gives an
  environment for the client: what is sent runs through the server's service loop, what the server
  sends back runs through the client's \<open>Recv\<close> and \<open>deliver\<close> before a wait ends.  Both are
  interpretations of \<open>link\<close>, so the client keeps its contract over either.
\<close>

section \<open>State\<close>

record net_world = client_world +
  n_srv :: Server
  n_clock :: goTime
  n_buf :: "u8 list"
  n_inbox :: "u8 list list"
  n_stream :: "u8 list"

definition put_net :: "Server \<Rightarrow> u8 list \<Rightarrow> u8 list list \<Rightarrow> u8 list \<Rightarrow> 'a net_world_scheme \<Rightarrow> 'a net_world_scheme" where
  "put_net s buf inbox stream w = w\<lparr>n_srv := s, n_buf := buf, n_inbox := inbox, n_stream := stream\<rparr>"

lemma put_net_simps [simp]:
  "n_srv (put_net s b i t w) = s" "n_buf (put_net s b i t w) = b" "n_inbox (put_net s b i t w) = i"
  "n_stream (put_net s b i t w) = t" "w_cli (put_net s b i t w) = w_cli w" "w_now (put_net s b i t w) = w_now w"
  by (simp_all add: put_net_def)

lemma upd_cli_net [simp]:
  "n_srv (upd_cli f w) = n_srv w" "n_buf (upd_cli f w) = n_buf w" "n_inbox (upd_cli f w) = n_inbox w"
  "n_stream (upd_cli f w) = n_stream w" "n_clock (upd_cli f w) = n_clock w"
  by (simp_all add: upd_cli_def)

section \<open>UDP\<close>

abbreviation READ_BUFFER_SIZE :: nat where "READ_BUFFER_SIZE \<equiv> 2048"
abbreviation BUFIO_SIZE :: nat where "BUFIO_SIZE \<equiv> 4096"

text \<open>
  \<open>udpTransport.Recv\<close> reads through a \<open>bufio.Reader\<close> of 4096 bytes into a fresh buffer of 2048:
  a longer datagram comes as two payloads.  Each payload keeps the buffer's capacity.
\<close>

definition udpRecv :: "u8 list \<Rightarrow> u8 slice list" where
  "udpRecv dgram =
     (let d = take BUFIO_SIZE dgram;
          payload = (\<lambda>bs. Slice bs (replicate (READ_BUFFER_SIZE - length bs) 0))
      in payload (take READ_BUFFER_SIZE d) #
         (if length d > READ_BUFFER_SIZE then [payload (drop READ_BUFFER_SIZE d)] else []))"

fun deliver_all :: "u8 slice list \<Rightarrow> Client \<Rightarrow> Client option" where
  "deliver_all [] c = Some c"
| "deliver_all (p # ps) c = do { c1 \<leftarrow> deliver p c; deliver_all ps c1 }"

definition udpSend :: "Context \<Rightarrow> u8 list \<Rightarrow> 'a net_world_scheme \<Rightarrow> (fins_error option \<times> 'a net_world_scheme) option" where
  "udpSend x payload w =
     (case ctx_Err x (w_now w) of
        Some e \<Rightarrow> Some (Some e, w)
      | None \<Rightarrow> do {
          (s, buf, out, errs) \<leftarrow> udpLoop (n_srv w) (n_buf w) [Datagram payload (n_clock w) None];
          Some (None, put_net s buf (n_inbox w @ out) (n_stream w) w) })"

text \<open>A wait runs the listen loop over what has arrived, then takes the response if there is one.\<close>

definition await_response :: "u8 \<Rightarrow> 'a net_world_scheme \<Rightarrow> (wake \<times> 'a net_world_scheme) option" where
  "await_response sid w =
     (case cl_resp (w_cli w) sid of Some (r # rs) \<Rightarrow> Some (WakeResponse, w) | _ \<Rightarrow> None)"

definition udp_env :: "('a net_world_scheme) environ" where
  "udp_env =
     \<lparr>e_send = udpSend, e_hooks = (\<lambda>e w. Some (None, w)),
      e_wait = (\<lambda>x w. if cl_connected (w_cli w) then Some (WakeConnected, w) else None),
      e_await = (\<lambda>x sid w. do {
        c \<leftarrow> deliver_all (concat (map udpRecv (n_inbox w))) (w_cli w);
        await_response sid (put_net (n_srv w) (n_buf w) [] (n_stream w) (upd_cli (\<lambda>_. c) w)) })\<rparr>"

definition client_ready :: "byteOrder \<Rightarrow> 'a net_world_scheme \<Rightarrow> bool" where
  "client_ready bo w \<longleftrightarrow> cl_hasTransport (w_cli w) \<and> cl_connected (w_cli w) \<and> \<not> cl_closed (w_cli w) \<and>
     cl_byteOrder (w_cli w) = Some bo \<and> server_ok (n_srv w) \<and> \<not> closed (n_srv w) \<and>
     length (n_buf w) = SERVER_BUFFER_SIZE \<and> n_inbox w = [] \<and> n_stream w = []"

text \<open>Delivering the reply to the request that has just been sent.\<close>

lemma deliver_reply:
  assumes "cl_resp c sid = Some []"
  shows "deliver (Slice (reply_bytes a b sid cc ec d) sp) c =
    Some (c\<lparr>cl_resp := (cl_resp c)(sid := Some [\<lparr>rs_header = defaultResponseHeader (defaultCommandHeader a b sid),
      rs_commandCode = cc, rs_endCode = ec, rs_data = Slice d sp\<rparr>])\<rparr>)"
proof -
  have "sl_len (Slice (reply_bytes a b sid cc ec d) sp) > 0"
    by (simp add: sl_len_def reply_bytes_def)
  then show ?thesis
    using assms by (simp add: deliver_def decode_reply_bytes defaultResponseHeader_def defaultCommandHeader_def defaultHeader_def)
qed

lemma length_reply_bytes [simp]: "length (reply_bytes a b sid cc ec d) = 14 + length d"
  by (simp add: reply_bytes_def)

lemma udp_request:
  assumes x: "ctx_Err x (w_now w) = None" and w: "client_ready bo w"
    and len: "length cmd \<le> 1014" "length d \<le> 1006"
    and s: "server_ok s'" "closed s' = closed (n_srv w)"
    and reply: "\<And>a b sid sp. serve_frame (n_srv w) (n_clock w) (Slice (encodeHeader (defaultCommandHeader a b sid) @ cmd) sp) =
        Some (s', reply_bytes a b sid cc ec d)"
  shows "\<exists>w' h sp. sendCommand udp_env x cmd w =
      Some (Inr \<lparr>rs_header = h, rs_commandCode = cc, rs_endCode = ec, rs_data = Slice d sp\<rparr>, w') \<and>
      client_ready bo w' \<and> n_srv w' = s' \<and> w_now w' = w_now w"
proof -
  define c where "c = w_cli w"
  define sid where "sid = cl_sid c + 1"
  define h where "h = defaultCommandHeader (cl_src c) (cl_dst c) sid"
  define c1 where "c1 = c\<lparr>cl_sid := sid, cl_resp := (cl_resp c)(sid := Some [])\<rparr>"
  let ?f = "encodeHeader h @ cmd" and ?r = "reply_bytes (cl_src c) (cl_dst c) sid cc ec d"
  have next1: "nextHeader c = (h, c1)"
    by (simp add: nextHeader_def incrementSid_def Let_def h_def c1_def sid_def)
  have sidh: "serviceID h = sid" by (simp add: h_def defaultCommandHeader_def defaultHeader_def)
  have loop: "udpLoop (n_srv w) (n_buf w) [Datagram ?f (n_clock w) None] =
      Some (s', go_copy (n_buf w) ?f, [?r], [])"
    using w len reply udpLoop_serve_frame [of ?f "n_buf w" "n_srv w" "n_clock w"]
    by (simp add: client_ready_def h_def del: udpLoop.simps)
  let ?w1 = "put_net s' (go_copy (n_buf w) ?f) [?r] [] (upd_cli (\<lambda>_. c1) w)"
  have send: "udpSend x ?f (upd_cli (\<lambda>_. c1) w) = Some (None, ?w1)"
    using x w loop by (simp add: udpSend_def client_ready_def del: udpLoop.simps)
  have recv: "udpRecv ?r = [Slice ?r (replicate (2048 - length ?r) 0)]"
    using len by (simp add: udpRecv_def Let_def)
  let ?ans = "\<lparr>rs_header = defaultResponseHeader h, rs_commandCode = cc, rs_endCode = ec,
      rs_data = Slice d (replicate (2048 - length ?r) 0)\<rparr>"
  have del: "deliver_all (concat (map udpRecv [?r])) c1 = Some (c1\<lparr>cl_resp := (cl_resp c1)(sid := Some [?ans])\<rparr>)"
    using recv deliver_reply [of c1 sid "cl_src c" "cl_dst c" cc ec d] by (simp add: c1_def h_def)
  show ?thesis
    using x w next1 sidh send del s
    by (simp add: sendCommand_def udp_env_def await_response_def receive_def c_def [symmetric])
      (auto simp: client_ready_def c1_def c_def)
qed

lemma wait_ready:
  "client_ready bo w \<Longrightarrow> e_wait env = e_wait udp_env \<Longrightarrow> waitForConnection env x w = Some (None, w)"
  by (simp add: client_ready_def waitForConnection_def udp_env_def)

lemma client_ready_order: "client_ready bo w \<Longrightarrow> cl_byteOrder (w_cli w) = Some bo"
  by (simp add: client_ready_def)

lemma client_ready_server: "client_ready bo w \<Longrightarrow> server_ok (n_srv w)"
  by (simp add: client_ready_def)

lemma udp_link:
  assumes bo: "byte_order bo" and x: "unending x"
  shows "link bo udp_env x (client_ready bo) n_srv n_clock 1006"
proof (intro link.intro link_axioms.intro)
  fix w :: "'a net_world_scheme" and cmd d :: "u8 list" and s' cc ec
  assume "client_ready bo w" "length cmd \<le> 8 + 1006" "length d \<le> 1006" "server_ok s'" "closed s' = closed (n_srv w)"
    and "\<And>a b sid sp. serve_frame (n_srv w) (n_clock w) (Slice (encodeHeader (defaultCommandHeader a b sid) @ cmd) sp) =
         Some (s', reply_bytes a b sid cc ec d)"
  then show "\<exists>w' h sp. sendCommand udp_env x cmd w =
      Some (Inr \<lparr>rs_header = h, rs_commandCode = cc, rs_endCode = ec, rs_data = Slice d sp\<rparr>, w') \<and>
      client_ready bo w' \<and> n_srv w' = s'"
    using x udp_request [of x w bo cmd d s' cc ec] by auto
qed (use bo wait_ready client_ready_order client_ready_server in auto)

interpretation udp_be: link BigEndian udp_env Background "client_ready BigEndian" n_srv n_clock 1006
  by (rule udp_link) (simp_all add: be.byte_order_axioms)

interpretation udp_le: link LittleEndian udp_env Background "client_ready LittleEndian" n_srv n_clock 1006
  by (rule udp_link) (simp_all add: le.byte_order_axioms)

text \<open>
  A context with a deadline serves as well while it has not passed; the round trip takes no time here.
\<close>

definition timed_ready :: "Context \<Rightarrow> int \<Rightarrow> 'a net_world_scheme \<Rightarrow> bool" where
  "timed_ready x now w \<longleftrightarrow> client_ready BigEndian w \<and> w_now w = now \<and> ctx_Err x now = None"

interpretation udp_timed: link BigEndian udp_env x "timed_ready x now" n_srv n_clock 1006 for x now
proof (intro link.intro link_axioms.intro)
  fix w :: "'a net_world_scheme" and cmd d :: "u8 list" and s' cc ec
  assume "timed_ready x now w" "length cmd \<le> 8 + 1006" "length d \<le> 1006" "server_ok s'" "closed s' = closed (n_srv w)"
    and "\<And>a b sid sp. serve_frame (n_srv w) (n_clock w) (Slice (encodeHeader (defaultCommandHeader a b sid) @ cmd) sp) =
         Some (s', reply_bytes a b sid cc ec d)"
  then show "\<exists>w' h sp. sendCommand udp_env x cmd w =
      Some (Inr \<lparr>rs_header = h, rs_commandCode = cc, rs_endCode = ec, rs_data = Slice d sp\<rparr>, w') \<and>
      timed_ready x now w' \<and> n_srv w' = s'"
    using udp_request [of x w BigEndian cmd d s' cc ec] by (auto simp: timed_ready_def)
qed (use wait_ready client_ready_order client_ready_server in \<open>auto simp: timed_ready_def be.byte_order_axioms\<close>)

section \<open>TCP\<close>

definition tcpSend :: "Context \<Rightarrow> u8 list \<Rightarrow> 'a net_world_scheme \<Rightarrow> (fins_error option \<times> 'a net_world_scheme) option" where
  "tcpSend x payload w =
     (case ctx_Err x (w_now w) of
        Some e \<Rightarrow> Some (Some e, w)
      | None \<Rightarrow> do {
          (s, out, err) \<leftarrow> tcp_serve (n_srv w) EOF (\<lambda>_. n_clock w) (\<lambda>_. None) 0
            (finsTCPFrame finsTCPDataCommand payload);
          Some (None, put_net s (n_buf w) (n_inbox w) (n_stream w @ out) w) })"

lemma tcpRecv_shorter: "tcpRecv e fin stream = (Inr body, rest) \<Longrightarrow> length rest < length stream"
proof -
  assume "tcpRecv e fin stream = (Inr body, rest)"
  then obtain m where "readFrame e fin stream = Inr (m, rest)"
    by (auto simp: tcpRecv_def split: sum.splits if_splits)
  then have "readFrame None fin stream = Inr (m, rest)"
    by (auto simp: readFrame_def Let_def split: sum.splits if_splits)
  then show ?thesis
    using readTCPMessage_shorter [of fin stream m rest] by (simp add: readFrame_eq_readTCPMessage)
qed

text \<open>The client's listen loop over the frames that have arrived; it ends at an error.\<close>

function tcp_pump :: "u8 list \<Rightarrow> Client \<Rightarrow> (u8 list \<times> Client) option" where
  "tcp_pump stream c =
     (if stream = [] then Some ([], c)
      else case tcpRecv None EOF stream of
          (Inl e, rest) \<Rightarrow> Some (rest, c)
        | (Inr body, rest) \<Rightarrow> (case deliver body c of None \<Rightarrow> None | Some c1 \<Rightarrow> tcp_pump rest c1))"
  by pat_completeness auto
termination
  by (relation "measure (\<lambda>(stream, c). length stream)") (auto dest: sym tcpRecv_shorter [OF sym])

declare tcp_pump.simps [simp del]

definition tcp_env :: "('a net_world_scheme) environ" where
  "tcp_env =
     \<lparr>e_send = tcpSend, e_hooks = (\<lambda>e w. Some (None, w)),
      e_wait = (\<lambda>x w. if cl_connected (w_cli w) then Some (WakeConnected, w) else None),
      e_await = (\<lambda>x sid w. do {
        (rest, c) \<leftarrow> tcp_pump (n_stream w) (w_cli w);
        await_response sid (put_net (n_srv w) (n_buf w) (n_inbox w) rest (upd_cli (\<lambda>_. c) w)) })\<rparr>"

lemma tcp_pump_frame:
  assumes "length body + 8 < 2 ^ 32" "deliver (sl_make body) c = Some c1"
  shows "tcp_pump (finsTCPFrame cmd body) c = Some ([], c1)"
proof -
  have "tcpRecv None EOF (finsTCPFrame cmd body) = (Inr (sl_make body), [])"
    using readTCPMessage_frame [OF assms(1), of EOF cmd "[]"]
    by (simp add: tcpRecv_def readFrame_eq_readTCPMessage)
  moreover have "finsTCPFrame cmd body \<noteq> []" by (simp add: finsTCPFrame_def finsTCPSignature_def)
  ultimately show ?thesis
    using assms(2) by (simp add: tcp_pump.simps [of "finsTCPFrame cmd body"] tcp_pump.simps [of "[]"])
qed

lemma tcp_request:
  assumes x: "unending x" and w: "client_ready bo w"
    and len: "length cmd \<le> 8 + 65536" "length d \<le> 65536"
    and s: "server_ok s'" "closed s' = closed (n_srv w)"
    and reply: "\<And>a b sid sp. serve_frame (n_srv w) (n_clock w) (Slice (encodeHeader (defaultCommandHeader a b sid) @ cmd) sp) =
        Some (s', reply_bytes a b sid cc ec d)"
  shows "\<exists>w' h sp. sendCommand tcp_env x cmd w =
      Some (Inr \<lparr>rs_header = h, rs_commandCode = cc, rs_endCode = ec, rs_data = Slice d sp\<rparr>, w') \<and>
      client_ready bo w' \<and> n_srv w' = s'"
proof -
  define c where "c = w_cli w"
  define sid where "sid = cl_sid c + 1"
  define h where "h = defaultCommandHeader (cl_src c) (cl_dst c) sid"
  define c1 where "c1 = c\<lparr>cl_sid := sid, cl_resp := (cl_resp c)(sid := Some [])\<rparr>"
  let ?f = "encodeHeader h @ cmd" and ?r = "reply_bytes (cl_src c) (cl_dst c) sid cc ec d"
  let ?out = "finsTCPFrame finsTCPDataCommand ?r"
  have next1: "nextHeader c = (h, c1)"
    by (simp add: nextHeader_def incrementSid_def Let_def h_def c1_def sid_def)
  have sidh: "serviceID h = sid" by (simp add: h_def defaultCommandHeader_def defaultHeader_def)
  have lf: "length ?f + 8 < 2 ^ 32" "length ?r + 8 < 2 ^ 32" using len by simp_all
  have idle: "tcp_serve s' EOF (\<lambda>_. n_clock w) (\<lambda>_. None) k [] =
      Some (s', [], if closed s' then None else Some (Errorf ''read error: %w'' [] (Some (IOError EOF))))" for k
    by (simp add: tcp_serve.simps [of s'] readTCPMessage_def ReadFull_def)
  have "serve_frame (n_srv w) (n_clock w) (sl_make ?f) = Some (s', ?r)"
    using reply [of "cl_src c" "cl_dst c" sid "[]"] by (simp add: h_def sl_make_def)
  then obtain err where serve: "tcp_serve (n_srv w) EOF (\<lambda>_. n_clock w) (\<lambda>_. None) 0 (finsTCPFrame finsTCPDataCommand ?f) =
      Some (s', ?out, err)"
    using tcp_serve_frame [OF lf(1), of "\<lambda>_. None" 0 "n_srv w" EOF "\<lambda>_. n_clock w" "[]"] idle by simp
  let ?w1 = "put_net s' (n_buf w) [] ?out (upd_cli (\<lambda>_. c1) w)"
  have send: "tcpSend x ?f (upd_cli (\<lambda>_. c1) w) = Some (None, ?w1)"
    using x w serve by (simp add: tcpSend_def client_ready_def)
  let ?ans = "\<lparr>rs_header = defaultResponseHeader h, rs_commandCode = cc, rs_endCode = ec, rs_data = Slice d []\<rparr>"
  have "deliver (sl_make ?r) c1 = Some (c1\<lparr>cl_resp := (cl_resp c1)(sid := Some [?ans])\<rparr>)"
    using deliver_reply [of c1 sid "cl_src c" "cl_dst c" cc ec d "[]"] by (simp add: c1_def h_def sl_make_def)
  note pump = tcp_pump_frame [OF lf(2) this, of finsTCPDataCommand]
  show ?thesis
    using x w next1 sidh send pump s
    by (simp add: sendCommand_def tcp_env_def await_response_def receive_def c_def [symmetric])
      (auto simp: client_ready_def c1_def c_def)
qed

lemma tcp_link:
  assumes bo: "byte_order bo" and x: "unending x" and limit: "limit \<le> 65536"
  shows "link bo tcp_env x (client_ready bo) n_srv n_clock limit"
proof (intro link.intro link_axioms.intro)
  fix w :: "'a net_world_scheme" and cmd d :: "u8 list" and s' cc ec
  assume "client_ready bo w" "length cmd \<le> 8 + limit" "length d \<le> limit" "server_ok s'"
    "closed s' = closed (n_srv w)"
    and "\<And>a b sid sp. serve_frame (n_srv w) (n_clock w) (Slice (encodeHeader (defaultCommandHeader a b sid) @ cmd) sp) =
         Some (s', reply_bytes a b sid cc ec d)"
  then show "\<exists>w' h sp. sendCommand tcp_env x cmd w =
      Some (Inr \<lparr>rs_header = h, rs_commandCode = cc, rs_endCode = ec, rs_data = Slice d sp\<rparr>, w') \<and>
      client_ready bo w' \<and> n_srv w' = s'"
    using limit by (intro tcp_request [OF x]) simp_all
next
  fix w :: "'a net_world_scheme"
  assume "client_ready bo w"
  then show "waitForConnection tcp_env x w = Some (None, w)"
    by (rule wait_ready) (simp add: tcp_env_def udp_env_def)
qed (use bo client_ready_order client_ready_server in auto)

interpretation tcp_be: link BigEndian tcp_env Background "client_ready BigEndian" n_srv n_clock DM_AREA_SIZE
  by (rule tcp_link) (simp_all add: be.byte_order_axioms)

interpretation tcp_le: link LittleEndian tcp_env Background "client_ready LittleEndian" n_srv n_clock DM_AREA_SIZE
  by (rule tcp_link) (simp_all add: le.byte_order_axioms)

section \<open>Properties\<close>

text \<open>A client that has just connected to a new simulator.\<close>

definition net_of :: "transportKind \<Rightarrow> byteOrder \<Rightarrow> goTime \<Rightarrow> Server \<Rightarrow> net_world" where
  "net_of kind bo t s =
     \<lparr>w_now = 0, w_log = [], w_collectors = (\<lambda>_. NewMetricsCollector),
      w_cli = SetByteOrder (Some bo) (freshClient kind \<lparr>Network = 0, Node = 34, Unit = 0\<rparr> \<lparr>Network = 0, Node = 10, Unit = 0\<rparr> False),
      n_srv = s, n_clock = t, n_buf = replicate SERVER_BUFFER_SIZE 0, n_inbox = [], n_stream = []\<rparr>"

definition noon :: goTime where
  "noon = \<lparr>Year = 2024, Month = 2, Day = 29, Hour = 12, Minute = 0, Second = 0\<rparr>"

lemma net_of_ready:
  "NewPLCSimulator kind True None = Inr s \<Longrightarrow> client_ready bo (net_of kind bo t s)"
  using server_ok_new [of kind True None s]
  by (auto simp: client_ready_def net_of_def freshClient_def SetByteOrder_def NewPLCSimulator_def Let_def
      split: transportKind.splits)

lemma new_simulator: obtains s where "NewPLCSimulator kind True None = Inr s"
  by (cases kind) (auto simp: NewPLCSimulator_def Let_def)

text \<open>
  C1: end to end over UDP, the last write wins.  A connected client makes any sequence of word and
  bit writes that fit an area and a datagram of 1006 data bytes; afterwards a read of the words one
  of them wrote returns exactly these words, provided that no later write of the sequence touches
  their bytes.  In between are the codec, the server's loop and handler, and the response channels.
\<close>

theorem udp_last_write_read:
  assumes "client_ready BigEndian w" "list_all (write_fits 1006) (pre @ WordsAt a ad ws # post)"
    and "\<forall>op \<in> set post. write_cells op \<inter> write_cells (WordsAt a ad ws) = {}"
  shows "\<exists>w1 w2. run_writes (Client_WriteWords udp_env None Background) (Client_WriteBits udp_env None Background)
        (pre @ WordsAt a ad ws # post) w = Some w1 \<and>
      Client_ReadWords udp_env None Background a ad (of_nat (length ws)) w1 = Some (Inr ws, w2)"
  using udp_be.last_write_read [OF assms] by blast

theorem udp_last_write_read_witness:
  "\<exists>w w1 w2. run_writes (Client_WriteWords udp_env None Background) (Client_WriteBits udp_env None Background)
        [WordsAt MemoryAreaDMWord 100 [1, 2], BitsAt MemoryAreaDMBit 100 3 [True]] (w :: net_world) = Some w1 \<and>
      Client_ReadWords udp_env None Background MemoryAreaDMWord 100 2 w1 = Some (Inr [1, 2], w2)"
proof -
  obtain s where "NewPLCSimulator transportUDP True None = Inr s" by (rule new_simulator)
  then have "client_ready BigEndian (net_of transportUDP BigEndian noon s)" by (rule net_of_ready)
  from udp_last_write_read [OF this, of "[]" MemoryAreaDMWord 100 "[1, 2]" "[BitsAt MemoryAreaDMBit 100 3 [True]]"]
  show ?thesis by (auto simp: checkIsWordMemoryArea_def checkIsBitMemoryArea_def fits_def)
qed

text \<open>
  C2: over TCP any writes do to the simulator's memory what the specification says, write by write, in
  either byte order: a write in range is stored, a write to an area without words (bits) or past the
  end of an area returns the error that says so and changes nothing, and the client stays ready.  The
  writes may be in and out of range in any mixture; only their sizes and ends must fit in 16 bits.
\<close>

theorem tcp_writes_refine:
  assumes "bo \<in> {BigEndian, LittleEndian}" "client_ready bo w" "list_all no_wrap ops"
  shows "\<exists>w'. run_each (Client_WriteWords tcp_env None Background) (Client_WriteBits tcp_env None Background) ops w =
        Some (map write_refusal ops, w') \<and> client_ready bo w' \<and>
      server_view (n_srv w') = fold (checked_write bo) ops (server_view (n_srv w))"
proof -
  have l: "link bo tcp_env Background (client_ready bo) n_srv n_clock 65536"
    using assms(1) be.byte_order_axioms le.byte_order_axioms by (intro tcp_link) auto
  show ?thesis
    using link.run_each_checked [OF l order_refl assms(2,3)] by (simp add: link.view_def [OF l])
qed

theorem tcp_writes_refine_witness:
  "\<exists>(w :: net_world) w'. run_each (Client_WriteWords tcp_env None Background) (Client_WriteBits tcp_env None Background)
        [WordsAt MemoryAreaDMWord 0 [1], WordsAt MemoryAreaDMWord 32767 [2], BitsAt MemoryAreaWRBit 7 1 [True, False]] w =
        Some ([None, Some (EndCodeError EndCodeAddressRangeExceeded), None], w') \<and>
      server_view (n_srv w') =
        store_bit_bytes MemoryAreaWRBit 8 [1, 0] (store_word_bytes MemoryAreaDMWord 0 [0, 1] (server_view (n_srv w)))"
proof -
  let ?ops = "[WordsAt MemoryAreaDMWord 0 [1], WordsAt MemoryAreaDMWord 32767 [2], BitsAt MemoryAreaWRBit 7 1 [True, False]]"
  obtain s where "NewPLCSimulator transportTCP True None = Inr s" by (rule new_simulator)
  then have ready: "client_ready BigEndian (net_of transportTCP BigEndian noon s)" by (rule net_of_ready)
  have ops: "list_all no_wrap ?ops" "map write_refusal ?ops = [None, Some (EndCodeError EndCodeAddressRangeExceeded), None]"
    "order_words BigEndian [1] = [0, 1]"
    by (simp_all add: checkIsWordMemoryArea_def checkIsBitMemoryArea_def order_words_def BigEndian_def be_put16_def)
  then have "fold (checked_write BigEndian) ?ops p =
      store_bit_bytes MemoryAreaWRBit 8 [1, 0] (store_word_bytes MemoryAreaDMWord 0 [0, 1] p)" for p
    by (simp add: checked_write_def bool_bytes_def)
  then show ?thesis
    using tcp_writes_refine [OF _ ready ops(1)] by (simp only: ops(2)) blast
qed

text \<open>
  C28: a client reads the simulator's clock.  For every date the BCD fields can tell (a year from
  1950 to 2049, fields below 100) the date that \<open>ReadClock\<close> decodes is the one the server encoded.
\<close>

theorem udp_read_clock:
  assumes "client_ready BigEndian w" "clock_range (n_clock w)"
  shows "\<exists>w'. Client_ReadClock udp_env Background w = Some (Inr (n_clock w), w') \<and> n_srv w' = n_srv w"
  using udp_be.read_clock_link [OF assms(1)] clock_date_encode [OF assms(2)] by auto

theorem udp_read_clock_witness:
  "\<exists>(w :: net_world) w'. Client_ReadClock udp_env Background w = Some (Inr noon, w')"
proof -
  obtain s where "NewPLCSimulator transportUDP True None = Inr s" by (rule new_simulator)
  then have "client_ready BigEndian (net_of transportUDP BigEndian noon s)" by (rule net_of_ready)
  from udp_read_clock [OF this] show ?thesis
    by (auto simp: net_of_def clock_range_def noon_def)
qed

text \<open>
  A read that runs past the end of an area (without wrapping past 65535) comes back to the
  caller as the error of the server's end code, and the memory is as before.
\<close>

lemma tcp_read_refused:
  assumes "client_ready BigEndian w" "checkIsWordMemoryArea a"
    and "DM_AREA_SIZE < unat ad + 2 * unat n" "unat ad + 2 * unat n < 65536"
  shows "\<exists>w'. Client_ReadWords tcp_env None Background a ad n w =
      Some (Inl (EndCodeError EndCodeAddressRangeExceeded), w') \<and> client_ready BigEndian w' \<and> n_srv w' = n_srv w"
  using assms by (rule tcp_be.read_refused_link)

lemma tcp_read_refused_example:
  "\<exists>(w :: net_world) w'. Client_ReadWords tcp_env None Background MemoryAreaDMWord 32767 1 w =
      Some (Inl (EndCodeError EndCodeAddressRangeExceeded), w')"
proof -
  obtain s where "NewPLCSimulator transportTCP True None = Inr s" by (rule new_simulator)
  then have "client_ready BigEndian (net_of transportTCP BigEndian noon s)" by (rule net_of_ready)
  from tcp_read_refused [OF this, of MemoryAreaDMWord 32767 1] show ?thesis
    by (auto simp: checkIsWordMemoryArea_def)
qed

text \<open>
  Over UDP \<open>ToggleBit\<close> negates the bit it names and changes nothing else: what was zero becomes
  one, and every other value zero.
\<close>

lemma udp_toggle:
  assumes "client_ready BigEndian w" "checkIsBitMemoryArea a" "unat ad + unat off < DM_AREA_SIZE"
  shows "\<exists>w'. Client_ToggleBit udp_env None Background a ad off w = Some (None, w') \<and>
      server_view (n_srv w') = store_bit_bytes a (unat ad + unat off)
        [if byte_bool (bmem (server_view (n_srv w)) a (unat ad + unat off)) then 0 else 1] (server_view (n_srv w))"
  using udp_be.toggle_link [OF assms(1,2), of ad off] assms(3) by (auto simp: fits_def udp_be.view_def)

lemma udp_toggle_example:
  "\<exists>(w :: net_world) w'. Client_ToggleBit udp_env None Background MemoryAreaDMBit 5 2 w = Some (None, w') \<and>
     bmem (server_view (n_srv w')) MemoryAreaDMBit 7 \<noteq> bmem (server_view (n_srv w)) MemoryAreaDMBit 7"
proof -
  obtain s where s: "NewPLCSimulator transportUDP True None = Inr s" by (rule new_simulator)
  then have "client_ready BigEndian (net_of transportUDP BigEndian noon s)" by (rule net_of_ready)
  from udp_toggle [OF this, of MemoryAreaDMBit 5 2] obtain w' where
    "Client_ToggleBit udp_env None Background MemoryAreaDMBit 5 2 (net_of transportUDP BigEndian noon s) = Some (None, w')"
    "server_view (n_srv w') = store_bit_bytes MemoryAreaDMBit 7
       [if byte_bool (bmem (server_view s) MemoryAreaDMBit 7) then 0 else 1] (server_view s)"
    by (auto simp: checkIsBitMemoryArea_def net_of_def)
  moreover from this(2) have "bmem (server_view (n_srv w')) MemoryAreaDMBit 7 \<noteq> bmem (server_view s) MemoryAreaDMBit 7"
    by (auto simp: store_bit_bytes_def store_def byte_bool_def)
  ultimately show ?thesis by (intro exI [of _ "net_of transportUDP BigEndian noon s"] exI [of _ w']) (simp add: net_of_def)
qed

end
