(* ===== verification/Fins_Cli.thy ===== *)
theory Fins_Cli
  imports Fins_Loopback
begin

text \<open>
  The command interpreter of \<open>examples/client/main.go\<close>: parsing of areas, numbers and bits, the
  command handler over the network client, and its output.  Strings are ASCII; the text a value is
  printed as belongs to \<open>fmt\<close>, \<open>encoding/json\<close> and \<open>time\<close>, so a printed line keeps the value.
\<close>

section \<open>Strings\<close>

text \<open>\<open>strings.ToLower\<close> on ASCII.\<close>

definition lower_char :: "char \<Rightarrow> char" where
  "lower_char c = (let n = of_char c :: nat in if 65 \<le> n \<and> n \<le> 90 then char_of (n + 32) else c)"

definition ToLower :: "string \<Rightarrow> string" where
  "ToLower s = map lower_char s"

definition digit_value :: "char \<Rightarrow> nat option" where
  "digit_value c = (let n = of_char c :: nat in if 48 \<le> n \<and> n \<le> 57 then Some (n - 48) else None)"

text \<open>
  \<open>strconv.ParseUint(s, 10, bits)\<close>: the scan stops at the first character that is no digit (a
  syntax error) or at the first value above the maximum (a range error), whichever comes first.
\<close>

datatype num_error = ErrSyntax | ErrRange

fun scan_uint :: "nat \<Rightarrow> nat \<Rightarrow> string \<Rightarrow> num_error + nat" where
  "scan_uint maxVal n [] = Inr n"
| "scan_uint maxVal n (c # cs) =
     (case digit_value c of
        None \<Rightarrow> Inl ErrSyntax
      | Some d \<Rightarrow> if n * 10 + d > maxVal then Inl ErrRange else scan_uint maxVal (n * 10 + d) cs)"

definition ParseUint :: "string \<Rightarrow> nat \<Rightarrow> num_error + nat" where
  "ParseUint s bits = (if s = [] then Inl ErrSyntax else scan_uint (2 ^ bits - 1) 0 s)"

section \<open>Parsing arguments\<close>

definition num_error_text :: "num_error \<Rightarrow> string" where
  "num_error_text e = (case e of ErrSyntax \<Rightarrow> ''invalid syntax'' | ErrRange \<Rightarrow> ''value out of range'')"

definition parseUintWithSize :: "string \<Rightarrow> nat \<Rightarrow> fins_error + nat" where
  "parseUintWithSize s bits =
     (case ParseUint s bits of
        Inl e \<Rightarrow> Inl (Errorf ''invalid number %q: %w'' [AStr s] (Some (Errorf (num_error_text e) [AStr s] None)))
      | Inr v \<Rightarrow> Inr v)"

definition parseUint16 :: "string \<Rightarrow> fins_error + u16" where
  "parseUint16 s = map_sum id of_nat (parseUintWithSize s 16)"

definition parseByte :: "string \<Rightarrow> fins_error + u8" where
  "parseByte s = map_sum id of_nat (parseUintWithSize s 8)"

text \<open>A loop over the arguments that returns at the first error.\<close>

fun parse_all :: "(string \<Rightarrow> fins_error + 'a) \<Rightarrow> string list \<Rightarrow> fins_error + 'a list" where
  "parse_all p [] = Inr []"
| "parse_all p (s # ss) =
     (case p s of
        Inl e \<Rightarrow> Inl e
      | Inr v \<Rightarrow> (case parse_all p ss of Inl e \<Rightarrow> Inl e | Inr vs \<Rightarrow> Inr (v # vs)))"

definition parseUint16Slice :: "string list \<Rightarrow> fins_error + u16 list" where
  "parseUint16Slice = parse_all parseUint16"

definition parseByteSlice :: "string list \<Rightarrow> fins_error + u8 list" where
  "parseByteSlice = parse_all (\<lambda>s. map_sum id of_nat (parseUintWithSize s 8))"

definition parse_bool :: "string \<Rightarrow> fins_error + bool" where
  "parse_bool s =
     (if ToLower s \<in> {''1'', ''true'', ''t'', ''on''} then Inr True
      else if ToLower s \<in> {''0'', ''false'', ''f'', ''off''} then Inr False
      else Inl (Errorf ''invalid bit value %q (use 0/1/true/false)'' [AStr s] None))"

definition parseBoolSlice :: "string list \<Rightarrow> fins_error + bool list" where
  "parseBoolSlice = parse_all parse_bool"

definition parseWordArea :: "string \<Rightarrow> fins_error + u8" where
  "parseWordArea s = (let l = ToLower s in
     if l \<in> {''dm'', ''dmw'', ''dmword''} then Inr MemoryAreaDMWord
     else if l \<in> {''wr'', ''wrw'', ''wrword''} then Inr MemoryAreaWRWord
     else if l \<in> {''hr'', ''hrw'', ''hrword''} then Inr MemoryAreaHRWord
     else if l \<in> {''ar'', ''arw'', ''arword''} then Inr MemoryAreaARWord
     else if l \<in> {''cio'', ''ciow'', ''cioword''} then Inr MemoryAreaCIOWord
     else Inl (Errorf ''unknown word area %q'' [AStr s] None))"

definition parseBitArea :: "string \<Rightarrow> fins_error + u8" where
  "parseBitArea s = (let l = ToLower s in
     if l \<in> {''dm'', ''dmb'', ''dmbit''} then Inr MemoryAreaDMBit
     else if l \<in> {''wr'', ''wrb'', ''wrbit''} then Inr MemoryAreaWRBit
     else if l \<in> {''hr'', ''hrb'', ''hrbit''} then Inr MemoryAreaHRBit
     else if l \<in> {''ar'', ''arb'', ''arbit''} then Inr MemoryAreaARBit
     else if l \<in> {''cio'', ''ciob'', ''ciobit''} then Inr MemoryAreaCIOBit
     else Inl (Errorf ''unknown bit area %q'' [AStr s] None))"

section \<open>Output\<close>

datatype outputMode = outputText | outputJSON

record cli_output =
  o_mode :: outputMode
  o_quiet :: bool
  o_transport :: string

definition newOutput :: "string \<Rightarrow> bool \<Rightarrow> string \<Rightarrow> fins_error + cli_output" where
  "newOutput mode quiet tr =
     (let tr1 = (if tr = [] then ''udp'' else tr) in
      if ToLower mode = ''text'' then Inr \<lparr>o_mode = outputText, o_quiet = quiet, o_transport = ToLower tr1\<rparr>
      else if ToLower mode = ''json'' then Inr \<lparr>o_mode = outputJSON, o_quiet = quiet, o_transport = ToLower tr1\<rparr>
      else Inl (Errorf ''unsupported format %q (use text or json)'' [AStr mode] None))"

datatype shown = ShownWords "u16 list" | ShownBytes "u8 list" | ShownBits "bool list" | ShownOk | ShownTime goTime

text \<open>
  A line on standard output: its mode, its label if any, the value, the mode of the transport and the
  round trip in milliseconds; or the help.
\<close>

datatype printed = Result outputMode string shown string int | Help

definition printWithRTT :: "cli_output \<Rightarrow> string \<Rightarrow> shown \<Rightarrow> int \<Rightarrow> printed" where
  "printWithRTT o' label v rtt =
     Result (o_mode o') (if o_quiet o' then [] else label) v (o_transport o') (go_div rtt 1000000)"

section \<open>Commands\<close>

text \<open>
  What the branches share: a client call whose error is returned, else a line with the time since
  the start of the command.
\<close>

type_synonym 'w command_result = "((fins_error option \<times> printed list) \<times> 'w) option"

definition report_read ::
    "cli_output \<Rightarrow> string \<Rightarrow> ('v \<Rightarrow> shown) \<Rightarrow> int \<Rightarrow> ((fins_error + 'v) \<times> 'a client_world_scheme) option \<Rightarrow>
     ('a client_world_scheme) command_result" where
  "report_read o' label shw start res =
     map_option (\<lambda>(r, w). (case r of
        Inl e \<Rightarrow> (Some e, [])
      | Inr v \<Rightarrow> (None, [printWithRTT o' label (shw v) (wrap64 (w_now w - start))]), w)) res"

definition report_write ::
    "cli_output \<Rightarrow> string \<Rightarrow> int \<Rightarrow> (fins_error option \<times> 'a client_world_scheme) option \<Rightarrow>
     ('a client_world_scheme) command_result" where
  "report_write o' label start res =
     map_option (\<lambda>(r, w). (case r of
        Some e \<Rightarrow> (Some e, [])
      | None \<Rightarrow> (None, [printWithRTT o' label ShownOk (wrap64 (w_now w - start))]), w)) res"

definition try_parse :: "(fins_error + 'v) \<Rightarrow> 'w \<Rightarrow> ('v \<Rightarrow> 'w command_result) \<Rightarrow> 'w command_result" where
  "try_parse p w k = (case p of Inl e \<Rightarrow> Some ((Some e, []), w) | Inr v \<Rightarrow> k v)"

definition usage :: "string \<Rightarrow> 'w \<Rightarrow> 'w command_result" where
  "usage s w = Some ((Some (Errorf s [] None), []), w)"

definition handleCommand ::
    "('a client_world_scheme) environ \<Rightarrow> ('a client_world_scheme) interceptor option \<Rightarrow> Context \<Rightarrow> cli_output \<Rightarrow>
     string \<Rightarrow> string list \<Rightarrow> 'a client_world_scheme \<Rightarrow> ('a client_world_scheme) command_result" where
  "handleCommand env ics x o' cmd args w =
    (let start = w_now w in
     if cmd \<in> {''readw'', ''readwords''} then
       if length args \<noteq> 3 then usage ''usage: readwords <area> <address> <count>'' w
       else try_parse (parseWordArea (args ! 0)) w (\<lambda>area. try_parse (parseUint16 (args ! 1)) w (\<lambda>ad.
         try_parse (parseUint16 (args ! 2)) w (\<lambda>n.
           report_read o' ''words'' ShownWords start (Client_ReadWords env ics x area ad n w))))
     else if cmd \<in> {''readb'', ''readbytes''} then
       if length args \<noteq> 3 then usage ''usage: readbytes <area> <address> <count>'' w
       else try_parse (parseWordArea (args ! 0)) w (\<lambda>area. try_parse (parseUint16 (args ! 1)) w (\<lambda>ad.
         try_parse (parseUint16 (args ! 2)) w (\<lambda>n.
           report_read o' ''bytes'' ShownBytes start (Client_ReadBytes env ics x area ad n w))))
     else if cmd = ''readbits'' then
       if length args \<noteq> 4 then usage ''usage: readbits <area> <address> <bitOffset> <count>'' w
       else try_parse (parseBitArea (args ! 0)) w (\<lambda>area. try_parse (parseUint16 (args ! 1)) w (\<lambda>ad.
         try_parse (parseByte (args ! 2)) w (\<lambda>off. try_parse (parseUint16 (args ! 3)) w (\<lambda>n.
           report_read o' ''bits'' ShownBits start (Client_ReadBits env ics x area ad off n w)))))
     else if cmd \<in> {''writew'', ''writewords''} then
       if length args < 3 then usage ''usage: writewords <area> <address> <values...>'' w
       else try_parse (parseWordArea (args ! 0)) w (\<lambda>area. try_parse (parseUint16 (args ! 1)) w (\<lambda>ad.
         try_parse (parseUint16Slice (drop 2 args)) w (\<lambda>vs.
           report_write o' ''writewords'' start (Client_WriteWords env ics x area ad vs w))))
     else if cmd \<in> {''writeb'', ''writebytes''} then
       if length args < 3 then usage ''usage: writebytes <area> <address> <values...>'' w
       else try_parse (parseWordArea (args ! 0)) w (\<lambda>area. try_parse (parseUint16 (args ! 1)) w (\<lambda>ad.
         try_parse (parseByteSlice (drop 2 args)) w (\<lambda>vs.
           report_write o' ''writebytes'' start (Client_WriteBytes env x area ad vs w))))
     else if cmd = ''writebits'' then
       if length args < 4 then usage ''usage: writebits <area> <address> <bitOffset> <values...>'' w
       else try_parse (parseBitArea (args ! 0)) w (\<lambda>area. try_parse (parseUint16 (args ! 1)) w (\<lambda>ad.
         try_parse (parseByte (args ! 2)) w (\<lambda>off. try_parse (parseBoolSlice (drop 3 args)) w (\<lambda>vs.
           report_write o' ''writebits'' start (Client_WriteBits env ics x area ad off vs w)))))
     else if cmd \<in> {''clock'', ''readclock''} then
       report_read o' ''clock'' ShownTime start (Client_ReadClock env x w)
     else Some ((Some (Errorf ''unknown command %q'' [AStr cmd] None), if o_quiet o' then [] else [Help]), w))"

section \<open>Numbers\<close>

lemma digit_value_char: "d < 10 \<Longrightarrow> digit_value (digit_char d) = Some d"
  by (simp add: digit_value_def digit_char_def)

lemma foldl_decimal_mono: "(n :: nat) \<le> foldl (\<lambda>a d. a * 10 + d) n ds"
proof (induction ds arbitrary: n)
  case (Cons d ds)
  show ?case using Cons [of "n * 10 + d"] by simp
qed simp

lemma scan_digits:
  assumes "\<forall>d \<in> set ds. d < 10" "n \<le> maxVal"
  shows "scan_uint maxVal n (map digit_char ds) =
    (let v = foldl (\<lambda>a d. a * 10 + d) n ds in if v > maxVal then Inl ErrRange else Inr v)"
  using assms
proof (induction ds arbitrary: n)
  case (Cons d ds)
  show ?case
  proof (cases "n * 10 + d > maxVal")
    case True
    then have "foldl (\<lambda>a d. a * 10 + d) (n * 10 + d) ds > maxVal"
      using foldl_decimal_mono [of "n * 10 + d" ds] by simp
    then show ?thesis using True Cons.prems by (simp add: digit_value_char)
  next
    case False
    then show ?thesis using Cons.IH [of "n * 10 + d"] Cons.prems by (simp add: digit_value_char)
  qed
qed simp

lemma digits_of_small: "0 < base \<Longrightarrow> \<forall>d \<in> set (digits_of base fuel n). d < base"
  by (induction fuel arbitrary: n) auto

lemma digits_of_nonempty: "digits_of base (Suc fuel) n \<noteq> []"
  by (cases fuel) auto

definition decimal :: "nat \<Rightarrow> string" where
  "decimal n = verb_d (int n)"

lemma ParseUint_decimal:
  assumes "n < 10 ^ 20" "0 < bits"
  shows "ParseUint (decimal n) bits = (if n < 2 ^ bits then Inr n else Inl ErrRange)"
proof -
  have dec: "decimal n = map digit_char (digits_of 10 20 n)" by (simp add: decimal_def verb_d_def)
  have ne: "digits_of 10 20 n \<noteq> []" using digits_of_nonempty [of 10 19 n] by simp
  have "0 < (2 :: nat) ^ bits" by simp
  then have "2 ^ bits - 1 < n \<longleftrightarrow> \<not> n < (2 :: nat) ^ bits" by linarith
  then show ?thesis
    using scan_digits [of "digits_of 10 20 n" 0 "2 ^ bits - 1"] digits_of_small [of 10 20 n] digits_of_value [of 10 n 20] assms(1) ne
    by (simp add: ParseUint_def dec)
qed

lemma parseUint16_decimal: "parseUint16 (decimal (unat (v :: u16))) = Inr v"
proof -
  have "unat v < 65536" by (rule u16_bound)
  then show ?thesis
    using ParseUint_decimal [of "unat v" 16] by (simp add: parseUint16_def parseUintWithSize_def)
qed

lemma parse_all_decimal: "parseUint16Slice (map (\<lambda>v. decimal (unat v)) ws) = Inr ws"
  by (induction ws) (simp_all add: parseUint16Slice_def parseUint16_decimal)

lemma digits_numeral:
  "digits_of b (numeral k) n = (if n < b then [n] else digits_of b (pred_numeral k) (n div b) @ [n mod b])"
  by (simp add: numeral_eq_Suc)

lemmas decimal_eval = decimal_def verb_d_def digits_numeral digit_char_def char_of_def bit_Suc_0_iff

section \<open>Areas the prompt takes and the client refuses\<close>

text \<open>The help offers the CIO area, but the client has no CIO area: its commands never get to the simulator.\<close>

lemma cio_refused:
  assumes "client_ready bo w" "parseUint16 a = Inr ad" "parseUint16 k = Inr n"
  shows "handleCommand udp_env None Background o' ''readwords'' [''cio'', a, k] w =
    Some ((Some (IncompatibleMemoryAreaError MemoryAreaCIOWord), []), w)"
proof -
  have "parseWordArea ''cio'' = Inr MemoryAreaCIOWord" by code_simp
  then show ?thesis
    using assms wait_ready [OF assms(1), of udp_env Background]
    by (simp add: handleCommand_def try_parse_def report_read_def numeral_3_eq_3 Client_ReadWords_def invoke_with_def
        readWordsRaw_def exchange_def checkIsWordMemoryArea_def assert_words_def)
qed

section \<open>Properties\<close>

text \<open>
  \<open>parseUint16\<close> accepts exactly the decimal numerals of the values below 65536, with or without
  leading zeros, and returns the value; every other string is an error.
\<close>

lemma parseUint16_accepts:
  "parseUint16 s = Inr v \<longleftrightarrow> s \<noteq> [] \<and>
     (\<exists>ds. map digit_value s = map Some ds \<and> foldl (\<lambda>a d. a * 10 + d) 0 ds = unat v)"
proof -
  have scan: "scan_uint m n s = Inr k \<longleftrightarrow>
      (\<exists>ds. map digit_value s = map Some ds \<and> foldl (\<lambda>a d. a * 10 + d) n ds = k \<and> (s = [] \<or> k \<le> m))" for m n k
  proof (induction s arbitrary: n)
    case (Cons c cs)
    show ?case
    proof (cases "digit_value c")
      case (Some d)
      have above: "foldl (\<lambda>a d. a * 10 + d) (n * 10 + d) ds \<le> m \<Longrightarrow> n * 10 + d \<le> m" for ds
        using foldl_decimal_mono [of "n * 10 + d" ds] by (rule order_trans)
      show ?thesis
      proof (cases "n * 10 + d \<le> m")
        case True
        then show ?thesis using Some Cons.IH [of "n * 10 + d"] by (auto simp: Cons_eq_map_conv)
      next
        case False
        then show ?thesis using Some above by (auto simp: Cons_eq_map_conv)
      qed
    qed (auto simp: Cons_eq_map_conv)
  qed auto
  have small: "unat v \<le> 65535" using u16_bound [of v] by simp
  have "parseUint16 s = Inr v \<longleftrightarrow> (\<exists>k. ParseUint s 16 = Inr k \<and> (of_nat k :: u16) = v)"
    by (auto simp: parseUint16_def parseUintWithSize_def split: sum.splits)
  also have "\<dots> \<longleftrightarrow> s \<noteq> [] \<and> (\<exists>k. scan_uint 65535 0 s = Inr k \<and> (of_nat k :: u16) = v)"
    by (auto simp: ParseUint_def)
  also have "\<dots> \<longleftrightarrow> s \<noteq> [] \<and> scan_uint 65535 0 s = Inr (unat v)"
    unfolding scan by (auto simp: unat_of_nat_small)
  finally show ?thesis using small unfolding scan by auto
qed

end
