(* ===== verification/Fins_Session.thy ===== *)
theory Fins_Session
  imports Fins_Cli
begin

text \<open>
  The rest of \<open>examples/client/main.go\<close>: from the flags to a configured client, and the two ways a
  session runs, \<open>-exec\<close> and the prompt.  Resolving names, dialling and the text form of addresses
  belong to \<open>net\<close>, reading a line to \<open>liner\<close>; they are parameters.  Log lines are left out.
\<close>

section \<open>Text\<close>

text \<open>White space in ASCII, \<open>strings.TrimSpace\<close> and \<open>strings.Fields\<close>.\<close>

definition is_space :: "char \<Rightarrow> bool" where
  "is_space c = (let n = of_char c :: nat in n = 32 \<or> 9 \<le> n \<and> n \<le> 13)"

definition TrimSpace :: "string \<Rightarrow> string" where
  "TrimSpace s = rev (dropWhile is_space (rev (dropWhile is_space s)))"

function Fields :: "string \<Rightarrow> string list" where
  "Fields s = (let t = dropWhile is_space s in
     if t = [] then [] else takeWhile (\<lambda>c. \<not> is_space c) t # Fields (dropWhile (\<lambda>c. \<not> is_space c) t))"
  by pat_completeness auto
termination
proof (relation "measure length")
  fix s t
  assume t: "t = dropWhile is_space s" "t \<noteq> []"
  then obtain c cs where c: "t = c # cs" "\<not> is_space c" by (metis dropWhile_eq_Cons_conv list.exhaust)
  then have "length (dropWhile (\<lambda>c. \<not> is_space c) t) \<le> length cs" by (simp add: length_dropWhile_le)
  moreover have "length t \<le> length s" by (simp add: t(1) length_dropWhile_le)
  ultimately show "(dropWhile (\<lambda>c. \<not> is_space c) t, s) \<in> measure length" using c by simp
qed simp

declare Fields.simps [simp del]

lemma Fields_eq_Nil: "Fields s = [] \<longleftrightarrow> list_all is_space s"
  by (subst Fields.simps) (simp add: Let_def dropWhile_eq_Nil_conv list_all_iff)

lemma TrimSpace_eq_Nil: "TrimSpace s = [] \<longleftrightarrow> list_all is_space s"
proof
  assume "TrimSpace s = []"
  then have all: "\<forall>c \<in> set (dropWhile is_space s). is_space c"
    by (simp add: TrimSpace_def dropWhile_eq_Nil_conv)
  show "list_all is_space s"
  proof (cases "dropWhile is_space s")
    case (Cons c cs)
    then have "\<not> is_space c" by (metis dropWhile_eq_Cons_conv)
    then show ?thesis using all Cons by simp
  qed (simp add: dropWhile_eq_Nil_conv list_all_iff)
qed (auto simp: TrimSpace_def dropWhile_eq_Nil_conv list_all_iff dest: set_dropWhileD)

section \<open>Printing\<close>

text \<open>What else the program writes to its two outputs.\<close>

datatype session_line = Out printed | Plain outputMode string shown | ErrJSON fins_error | ErrText fins_error | Blank

definition output_print :: "cli_output \<Rightarrow> string \<Rightarrow> shown \<Rightarrow> session_line" where
  "output_print o' label v = Plain (o_mode o') (if o_quiet o' then [] else label) v"

definition printError :: "cli_output \<Rightarrow> fins_error option \<Rightarrow> session_line list" where
  "printError o' err =
     (case err of
        None \<Rightarrow> []
      | Some e \<Rightarrow> [if o_mode o' = outputJSON then ErrJSON e else ErrText e])"

section \<open>Addresses\<close>

text \<open>\<open>host:port\<close> as \<open>fmt\<close> prints it.\<close>

definition endpoint :: "string \<Rightarrow> int \<Rightarrow> string" where
  "endpoint host port = host @ '':'' @ verb_d port"

text \<open>\<open>resolve\<close>: \<open>net.ResolveTCPAddr\<close> or \<open>net.ResolveUDPAddr\<close> with the text of the IP and the port.\<close>

definition resolveHost ::
    "(string \<Rightarrow> IP) \<Rightarrow> (string \<Rightarrow> string \<Rightarrow> fins_error + (string \<times> int)) \<Rightarrow> string \<Rightarrow> int \<Rightarrow> bool \<Rightarrow> fins_error + (string \<times> int)" where
  "resolveHost ParseIP resolve host port useTCP =
     (if host = [] \<or> ParseIP host \<noteq> None then Inr (host, port)
      else resolve (if useTCP then ''tcp'' else ''udp'') (endpoint host port))"

text \<open>The local address of a connection: its type, the text of its IP if it has one, its port.\<close>

datatype connAddr = ConnUDP "string option" int | ConnTCP "string option" int | ConnOther

definition detectLocalAddr ::
    "(string \<Rightarrow> string \<Rightarrow> fins_error + connAddr) \<Rightarrow> string \<Rightarrow> bool \<Rightarrow> fins_error + (string \<times> int)" where
  "detectLocalAddr dial remote useTCP =
     (case dial (if useTCP then ''tcp'' else ''udp'') remote of
        Inl e \<Rightarrow> Inl e
      | Inr (ConnUDP ip port) \<Rightarrow> Inr (case ip of Some t \<Rightarrow> t | None \<Rightarrow> [], port)
      | Inr (ConnTCP ip port) \<Rightarrow> Inr (case ip of Some t \<Rightarrow> t | None \<Rightarrow> [], port)
      | Inr ConnOther \<Rightarrow> Inl (Errorf ''unexpected local address type %T'' [] None))"

definition formatAddr :: "(netAddr \<Rightarrow> string) \<Rightarrow> netAddr option \<Rightarrow> netAddr option \<Rightarrow> bool \<Rightarrow> string" where
  "formatAddr str udp tcp useTCP =
     (if useTCP \<and> tcp \<noteq> None then str (the tcp)
      else if \<not> useTCP \<and> udp \<noteq> None then str (the udp)
      else if tcp \<noteq> None then str (the tcp)
      else if udp \<noteq> None then str (the udp)
      else [])"

section \<open>Set-up\<close>

record flags =
  fl_remoteHost :: string
  fl_remotePort :: int
  fl_remoteFins :: "int \<times> int \<times> int"
  fl_localHost :: string
  fl_localPort :: int
  fl_localFins :: "int \<times> int \<times> int"
  fl_timeout :: int
  fl_respTimeout :: u64
  fl_exec :: string
  fl_execInterval :: int
  fl_autoReconnect :: bool
  fl_autoReconnectDelay :: int
  fl_noReconnectBackoff :: bool
  fl_format :: string
  fl_quiet :: bool
  fl_tcp :: bool

record lookup =
  lk_ParseIP :: "string \<Rightarrow> IP"
  lk_resolve :: "string \<Rightarrow> string \<Rightarrow> fins_error + (string \<times> int)"
  lk_dial :: "string \<Rightarrow> string \<Rightarrow> fins_error + connAddr"
  lk_connect :: "Address \<Rightarrow> Address \<Rightarrow> fins_error option"

text \<open>The local host and port: given, resolved if they can be, else detected.\<close>

definition localEndpoint :: "lookup \<Rightarrow> flags \<Rightarrow> string \<Rightarrow> string \<times> int" where
  "localEndpoint lk fl remote =
     (let (host, port) = (if fl_localHost fl \<noteq> []
            then case resolveHost (lk_ParseIP lk) (lk_resolve lk) (fl_localHost fl) (fl_localPort fl) (fl_tcp fl) of
                Inr hp \<Rightarrow> hp | Inl _ \<Rightarrow> (fl_localHost fl, fl_localPort fl)
            else (fl_localHost fl, fl_localPort fl))
      in if host = [] \<or> port = 0
         then case detectLocalAddr (lk_dial lk) remote (fl_tcp fl) of
             Inl _ \<Rightarrow> (host, port)
           | Inr (ip, p) \<Rightarrow> (if host = [] \<and> ip \<noteq> [] then ip else host,
                             if \<not> fl_tcp fl \<and> port = 0 \<and> p > 0 then p else port)
         else (host, port))"

definition newAddr :: "(string \<Rightarrow> IP) \<Rightarrow> bool \<Rightarrow> string \<times> int \<Rightarrow> int \<times> int \<times> int \<Rightarrow> Address" where
  "newAddr ParseIP tcp hp f =
     (case (hp, f) of ((host, port), (n, nd, u)) \<Rightarrow>
        (if tcp then NewTCPAddress else NewAddress) ParseIP host port (of_int n) (of_int nd) (of_int u))"

definition configured :: "flags \<Rightarrow> Client \<Rightarrow> Client" where
  "configured fl c =
     (let c1 = SetTimeoutMs (fl_respTimeout fl) (EnableDynamicLocalAddress c)
      in if fl_autoReconnect fl
         then let c2 = EnableAutoReconnect 0 (fl_autoReconnectDelay fl) c1
              in if fl_noReconnectBackoff fl then DisableReconnectBackoff c2 else c2
         else c1)"

text \<open>Up to the first command: the error it ends with, or the output settings and the client.\<close>

definition set_up :: "lookup \<Rightarrow> flags \<Rightarrow> fins_error + (cli_output \<times> Client)" where
  "set_up lk fl =
     (case newOutput (fl_format fl) (fl_quiet fl) (if fl_tcp fl then ''tcp'' else ''udp'') of
        Inl e \<Rightarrow> Inl e
      | Inr o' \<Rightarrow> (case resolveHost (lk_ParseIP lk) (lk_resolve lk) (fl_remoteHost fl) (fl_remotePort fl) (fl_tcp fl) of
          Inl e \<Rightarrow> Inl (Errorf ''failed to resolve remote host: %v'' [] (Some e))
        | Inr (host, port) \<Rightarrow>
            (let lo = newAddr (lk_ParseIP lk) (fl_tcp fl) (localEndpoint lk fl (endpoint host port)) (fl_localFins fl);
                 re = newAddr (lk_ParseIP lk) (fl_tcp fl) (host, port) (fl_remoteFins fl);
                 new = (if fl_tcp fl then NewTCPClient else NewUDPClient)
             in case new lo re (lk_connect lk lo re) of
                 Inl e \<Rightarrow> Inl (Errorf ''failed to create client: %v'' [] (Some e))
               | Inr c \<Rightarrow> Inr (o', configured fl c))))"

section \<open>Commands\<close>

text \<open>\<open>context.WithTimeout(context.Background(), timeout)\<close>.\<close>

definition WithTimeout :: "int \<Rightarrow> int \<Rightarrow> Context" where
  "WithTimeout timeout now = Background\<lparr>deadline := Some (now + timeout)\<rparr>"

text \<open>One command: the first field in lower case, the others as they are.  \<open>fields[0]\<close> may panic.\<close>

definition run_command ::
    "('a client_world_scheme) environ \<Rightarrow> int \<Rightarrow> cli_output \<Rightarrow> string list \<Rightarrow> 'a client_world_scheme \<Rightarrow>
     ('a client_world_scheme) command_result" where
  "run_command env timeout o' fs w =
     (case fs of
        [] \<Rightarrow> None
      | cmd # args \<Rightarrow> handleCommand env None (WithTimeout timeout (w_now w)) o' (ToLower cmd) args w)"

text \<open>
  \<open>-exec\<close>: with a positive interval the command repeats forever, so there is fuel, and \<open>None\<close> is also
  a panic.  The result is the output, the world, and the exit code.
\<close>

fun exec_loop ::
    "nat \<Rightarrow> ('a client_world_scheme) environ \<Rightarrow> int \<Rightarrow> int \<Rightarrow> cli_output \<Rightarrow> string list \<Rightarrow> 'a client_world_scheme \<Rightarrow>
     ((session_line list \<times> nat) \<times> 'a client_world_scheme) option" where
  "exec_loop 0 env timeout interval o' fs w = None"
| "exec_loop (Suc fuel) env timeout interval o' fs w = do {
     ((err, out), w1) \<leftarrow> run_command env timeout o' fs w;
     let lines = map Out out @ (if o_quiet o' then printError o' err else []);
     if interval \<le> 0 then Some ((lines, if err \<noteq> None \<and> o_quiet o' then 1 else 0), w1)
     else do {
       ((rest, code), w2) \<leftarrow> exec_loop fuel env timeout interval o' fs (Sleep interval w1);
       Some ((lines @ rest, code), w2) } }"

text \<open>What the prompt returns: Ctrl-C, the end of the input, another error, a line.\<close>

datatype prompt_input = PromptAborted | PromptEOF | PromptError | Line string

text \<open>One turn of the loop; the flag says whether the session goes on.\<close>

definition prompt_turn ::
    "('a client_world_scheme) environ \<Rightarrow> int \<Rightarrow> cli_output \<Rightarrow> prompt_input \<Rightarrow> 'a client_world_scheme \<Rightarrow>
     ((bool \<times> session_line list) \<times> 'a client_world_scheme) option" where
  "prompt_turn env timeout o' inp w =
     (case inp of
        PromptAborted \<Rightarrow> Some ((True, []), w)
      | PromptEOF \<Rightarrow> Some ((False, [Blank]), w)
      | PromptError \<Rightarrow> Some ((True, []), w)
      | Line input \<Rightarrow>
          (let txt = TrimSpace input in
           if txt = [] then Some ((True, []), w)
           else if ToLower txt \<in> {''exit'', ''quit''} then Some ((False, []), w)
           else if ToLower txt \<in> {''help'', ''?''} then Some ((True, [Out Help]), w)
           else do {
             ((err, out), w1) \<leftarrow> run_command env timeout o' (Fields txt) w;
             Some ((True, map Out out @ printError o' err), w1) }))"

text \<open>A session over the inputs that come, until it ends or they do.\<close>

fun prompt_loop ::
    "('a client_world_scheme) environ \<Rightarrow> int \<Rightarrow> cli_output \<Rightarrow> prompt_input list \<Rightarrow> 'a client_world_scheme \<Rightarrow>
     ((bool \<times> session_line list) \<times> 'a client_world_scheme) option" where
  "prompt_loop env timeout o' [] w = Some ((True, []), w)"
| "prompt_loop env timeout o' (inp # inps) w = do {
     ((go, lines), w1) \<leftarrow> prompt_turn env timeout o' inp w;
     if go then do {
       ((go', rest), w2) \<leftarrow> prompt_loop env timeout o' inps w1;
       Some ((go', lines @ rest), w2) }
     else Some ((False, lines), w1) }"

section \<open>Properties\<close>

lemma Fields_TrimSpace_nonempty: "TrimSpace s \<noteq> [] \<Longrightarrow> Fields (TrimSpace s) \<noteq> []"
proof
  assume t: "TrimSpace s \<noteq> []" "Fields (TrimSpace s) = []"
  have "\<not> is_space (last (TrimSpace s))"
    using t(1) hd_dropWhile [of is_space "rev (dropWhile is_space s)"] by (simp add: TrimSpace_def last_rev)
  then show False using t by (auto simp: Fields_eq_Nil list_all_iff)
qed

text \<open>The client as the flags ask for it.\<close>

lemma set_up_client:
  assumes "set_up lk fl = Inr (o', c)"
  shows "cl_dynamicLocal c \<and> cl_responseTimeoutMs c = sint (fl_respTimeout fl) \<and>
    cl_autoReconnect c = fl_autoReconnect fl \<and>
    (fl_autoReconnect fl \<longrightarrow> cl_maxReconnect c = 0 \<and> cl_reconnectDelay c = fl_autoReconnectDelay fl \<and>
      cl_useReconnectBackoff c = (\<not> fl_noReconnectBackoff fl)) \<and>
    cl_tpKind c = (if fl_tcp fl then transportTCP else transportUDP) \<and> o_quiet o' = fl_quiet fl"
  using assms
  by (auto simp: set_up_def Let_def newOutput_def configured_def NewTCPClient_def NewUDPClient_def freshClient_def
      EnableDynamicLocalAddress_def SetTimeoutMs_def EnableAutoReconnect_def DisableReconnectBackoff_def
      split: sum.splits prod.splits option.splits if_splits)

text \<open>A command that returns for every input keeps the session alive.\<close>

definition commands_return :: "('a client_world_scheme) environ \<Rightarrow> int \<Rightarrow> cli_output \<Rightarrow> bool" where
  "commands_return env timeout o' \<longleftrightarrow>
     (\<forall>cmd args w. handleCommand env None (WithTimeout timeout (w_now w)) o' cmd args w \<noteq> None)"

fun leaves :: "prompt_input \<Rightarrow> bool" where
  "leaves PromptEOF = True"
| "leaves (Line s) = (ToLower (TrimSpace s) \<in> {''exit'', ''quit''})"
| "leaves _ = False"

lemma prompt_turn_returns:
  assumes "commands_return env timeout o'"
  shows "\<exists>lines w'. prompt_turn env timeout o' inp w = Some ((\<not> leaves inp, lines), w')"
proof (cases inp)
  case (Line s)
  show ?thesis
  proof (cases "TrimSpace s = [] \<or> ToLower (TrimSpace s) \<in> {''exit'', ''quit'', ''help'', ''?''}")
    case True
    then show ?thesis using Line by (auto simp: prompt_turn_def ToLower_def)
  next
    case False
    then obtain cmd args where "Fields (TrimSpace s) = cmd # args"
      using Fields_TrimSpace_nonempty [of s] by (cases "Fields (TrimSpace s)") auto
    then obtain err out w1 where "run_command env timeout o' (Fields (TrimSpace s)) w = Some ((err, out), w1)"
      using assms by (fastforce simp: run_command_def commands_return_def)
    then show ?thesis using Line False by (simp add: prompt_turn_def)
  qed
qed (simp_all add: prompt_turn_def)

text \<open>
  C4: the session at the prompt.  When every command returns, whatever is typed, the session does not
  panic and goes on exactly until the first \<open>exit\<close>, \<open>quit\<close> or end of input: failing commands, blank
  lines, Ctrl-C and prompt errors do not end it.
\<close>

theorem session_ends_on_request:
  assumes "commands_return env timeout o'"
  shows "\<exists>lines w'. prompt_loop env timeout o' inps w = Some ((list_all (\<lambda>i. \<not> leaves i) inps, lines), w')"
proof (induction inps arbitrary: w)
  case (Cons inp inps)
  obtain lines w1 where "prompt_turn env timeout o' inp w = Some ((\<not> leaves inp, lines), w1)"
    using prompt_turn_returns [OF assms] by blast
  moreover obtain rest w2 where "prompt_loop env timeout o' inps w1 = Some ((list_all (\<lambda>i. \<not> leaves i) inps, rest), w2)"
    using Cons by blast
  ultimately show ?case by (cases "leaves inp") simp_all
qed simp

text \<open>A PLC that cannot be reached: every operation waits until its deadline.\<close>

definition dead_env :: "('a client_world_scheme) environ" where
  "dead_env = \<lparr>e_send = (\<lambda>x cmd w. Some (Some ClientClosedError, w)), e_hooks = (\<lambda>e w. Some (None, w)),
     e_wait = (\<lambda>x w. Some (WakeCtxDone, w\<lparr>w_now := max (w_now w) (case deadline x of Some t \<Rightarrow> t | None \<Rightarrow> 0)\<rparr>)),
     e_await = (\<lambda>x sid w. None)\<rparr>"

lemma dead_wait:
  "\<exists>e w'. waitForConnection dead_env (WithTimeout t now) w = Some (Some e, w')"
  by (auto simp: waitForConnection_def dead_env_def WithTimeout_def Background_def ctx_Err_def due_def)

lemma dead_exchange:
  "\<exists>e w'. exchange dead_env ok area cmd (WithTimeout t now) w = Some (Inl e, w')"
  using dead_wait [of t now w] by (auto simp: exchange_def)

lemma dead_operations:
  "\<exists>e w'. Client_ReadWords dead_env None (WithTimeout t now) a ad n w = Some (Inl e, w')"
  "\<exists>e w'. Client_ReadBytes dead_env None (WithTimeout t now) a ad n w = Some (Inl e, w')"
  "\<exists>e w'. Client_ReadBits dead_env None (WithTimeout t now) a ad off n w = Some (Inl e, w')"
  "\<exists>e w'. Client_ReadClock dead_env (WithTimeout t now) w = Some (Inl e, w')"
  "\<exists>e w'. Client_WriteWords dead_env None (WithTimeout t now) a ad ws w = Some (Some e, w')"
  "\<exists>e w'. Client_WriteBytes dead_env (WithTimeout t now) a ad b w = Some (Some e, w')"
  "\<exists>e w'. Client_WriteBits dead_env None (WithTimeout t now) a ad off bs w = Some (Some e, w')"
proof -
  note dead = dead_exchange [of checkIsWordMemoryArea a _ t now w] dead_exchange [of checkIsBitMemoryArea a _ t now w]
    dead_exchange [of "\<lambda>_. True" 0 _ t now w] dead_wait [of t now w]
  show "\<exists>e w'. Client_ReadWords dead_env None (WithTimeout t now) a ad n w = Some (Inl e, w')"
    using dead(1) [of "readCommand (memAddr a ad) n"]
    by (auto simp: Client_ReadWords_def invoke_with_def readWordsRaw_def assert_words_def)
  show "\<exists>e w'. Client_ReadBytes dead_env None (WithTimeout t now) a ad n w = Some (Inl e, w')"
    using dead(1) [of "readCommand (memAddr a ad) n"] by (auto simp: Client_ReadBytes_def invoke_with_def assert_bytes_def)
  show "\<exists>e w'. Client_ReadBits dead_env None (WithTimeout t now) a ad off n w = Some (Inl e, w')"
    using dead(2) [of "readCommand (memAddrWithBitOffset a ad off) n"]
    by (auto simp: Client_ReadBits_def invoke_with_def assert_bools_def)
  show "\<exists>e w'. Client_ReadClock dead_env (WithTimeout t now) w = Some (Inl e, w')"
    using dead(3) [of clockReadCommand] by (auto simp: Client_ReadClock_def)
  show "\<exists>e w'. Client_WriteWords dead_env None (WithTimeout t now) a ad ws w = Some (Some e, w')"
    using dead(4) by (auto simp: Client_WriteWords_def invoke_with_def)
  show "\<exists>e w'. Client_WriteBytes dead_env (WithTimeout t now) a ad b w = Some (Some e, w')"
    using dead(1) [of "writeCommand (memAddr a ad) (of_nat (length b)) b"] by (auto simp: Client_WriteBytes_def only_error_def)
  show "\<exists>e w'. Client_WriteBits dead_env None (WithTimeout t now) a ad off bs w = Some (Some e, w')"
    using dead(2) [of "writeCommand (memAddrWithBitOffset a ad off) (of_nat (length bs)) (bools_bytes bs)"]
    by (auto simp: Client_WriteBits_def invoke_with_def only_error_def)
qed

lemma report_returns:
  "\<exists>e w'. res = Some (Inl e, w') \<Longrightarrow> report_read o' label shw start res \<noteq> None"
  "\<exists>e w'. res' = Some (Some e, w') \<Longrightarrow> report_write o' label start res' \<noteq> None"
  by (auto simp: report_read_def report_write_def)

lemma try_parse_returns: "(\<And>v. k v \<noteq> None) \<Longrightarrow> try_parse p w k \<noteq> None"
  by (simp add: try_parse_def split: sum.split)

lemmas dead_reports = dead_operations(1-4) [THEN report_returns(1)] dead_operations(5-7) [THEN report_returns(2)]

lemma dead_commands_return: "commands_return dead_env t o'"
  unfolding commands_return_def handleCommand_def Let_def usage_def
  by (intro allI) (simp add: try_parse_returns dead_reports del: not_None_eq)

theorem session_ends_on_request_witness:
  "\<forall>w :: net_world. \<exists>lines w'.
    prompt_loop dead_env 5000000000 \<lparr>o_mode = outputText, o_quiet = True, o_transport = ''udp''\<rparr>
      [Line ''readwords dm 0 1'', PromptAborted, Line '' QUIT ''] w = Some ((False, lines), w')"
proof -
  have e: "list_all (\<lambda>i. \<not> leaves i) [Line ''readwords dm 0 1'', PromptAborted, Line '' QUIT ''] = False" by code_simp
  show ?thesis
    by (intro allI, rule session_ends_on_request [OF dead_commands_return, where inps =
        "[Line ''readwords dm 0 1'', PromptAborted, Line '' QUIT '']", unfolded e])
qed

end
