(* ===== verification/Fins_Prompt.thy ===== *)
theory Fins_Prompt
  imports Fins_Session
begin

text \<open>
  A whole session at the prompt of the example client against a simulator: what is typed, however it
  is spaced and capitalised, acts on the memory the way the memory specification says, and what is
  printed is what the specification returns.
\<close>

section \<open>Lines\<close>

lemma lower_char_space [simp]: "is_space (lower_char c) = is_space c"
proof -
  let ?n = "of_char c :: nat"
  show ?thesis
  proof (cases "65 \<le> ?n \<and> ?n \<le> 90")
    case True
    then have "of_char (char_of (?n + 32) :: char) = ?n + 32" by (simp add: of_char_of)
    then show ?thesis using True by (simp add: lower_char_def is_space_def Let_def)
  next
    case False
    then have "lower_char c = c" by (simp only: lower_char_def Let_def if_False)
    then show ?thesis by simp
  qed
qed

lemma Fields_dropWhile: "Fields (dropWhile is_space s) = Fields s"
  by (simp add: Fields.simps [of s] Fields.simps [of "dropWhile is_space s"])

lemma Fields_append_space: "\<forall>c \<in> set t. is_space c \<Longrightarrow> Fields (s @ t) = Fields s"
proof (induction s rule: Fields.induct)
  case (1 s)
  let ?d = "dropWhile is_space s"
  show ?case
  proof (cases "?d = []")
    case True
    then have all: "\<forall>c \<in> set s. is_space c" by (simp add: dropWhile_eq_Nil_conv)
    then have "Fields (s @ t) = []" "Fields s = []"
      using 1(2) by (auto simp: Fields_eq_Nil list_all_iff)
    then show ?thesis by simp
  next
    case False
    then have "\<exists>c \<in> set s. \<not> is_space c" by (simp add: dropWhile_eq_Nil_conv)
    then have d: "dropWhile is_space (s @ t) = ?d @ t" by (meson dropWhile_append1)
    have tw: "takeWhile (\<lambda>c. \<not> is_space c) (?d @ t) = takeWhile (\<lambda>c. \<not> is_space c) ?d"
      using 1(2) by (cases t) (simp, auto simp: takeWhile_append, metis takeWhile_eq_all_conv)
    have dw: "Fields (dropWhile (\<lambda>c. \<not> is_space c) (?d @ t)) = Fields (dropWhile (\<lambda>c. \<not> is_space c) ?d)"
    proof (cases "\<exists>c \<in> set ?d. is_space c")
      case True
      then have "dropWhile (\<lambda>c. \<not> is_space c) (?d @ t) = dropWhile (\<lambda>c. \<not> is_space c) ?d @ t"
        by (auto intro: dropWhile_append1)
      then show ?thesis using 1(1) [OF refl False] 1(2) by simp
    next
      case no: False
      then have "dropWhile (\<lambda>c. \<not> is_space c) ?d = []" "dropWhile (\<lambda>c. \<not> is_space c) (?d @ t) = dropWhile (\<lambda>c. \<not> is_space c) t"
        by (auto simp: dropWhile_eq_Nil_conv intro: dropWhile_append2)
      moreover have "dropWhile (\<lambda>c. \<not> is_space c) t = t" using 1(2) by (cases t) simp_all
      moreover have "Fields t = []" "Fields [] = []" using 1(2) by (simp_all add: Fields_eq_Nil list_all_iff)
      ultimately show ?thesis by metis
    qed
    show ?thesis using False d tw dw by (simp add: Fields.simps [of s] Fields.simps [of "s @ t"] Let_def)
  qed
qed

lemma Fields_TrimSpace: "Fields (TrimSpace s) = Fields s"
proof -
  let ?d = "dropWhile is_space s"
  have "?d = TrimSpace s @ rev (takeWhile is_space (rev ?d))"
    by (metis TrimSpace_def rev_append rev_rev_ident takeWhile_dropWhile_id)
  moreover have "\<forall>c \<in> set (rev (takeWhile is_space (rev ?d))). is_space c" by (auto dest: set_takeWhileD)
  ultimately have "Fields (TrimSpace s) = Fields ?d" by (metis Fields_append_space)
  then show ?thesis by (simp add: Fields_dropWhile)
qed

lemma Fields_ToLower: "Fields (ToLower s) = map ToLower (Fields s)"
proof (induction s rule: Fields.induct)
  case (1 s)
  let ?d = "dropWhile is_space s"
  have d: "dropWhile is_space (map lower_char s) = map lower_char ?d"
    by (simp add: dropWhile_map comp_def)
  show ?case
  proof (cases "?d = []")
    case True
    then show ?thesis by (simp add: Fields.simps [of s] Fields.simps [of "map lower_char s"] ToLower_def d)
  next
    case False
    have "takeWhile (\<lambda>c. \<not> is_space c) (map lower_char ?d) = map lower_char (takeWhile (\<lambda>c. \<not> is_space c) ?d)"
      "dropWhile (\<lambda>c. \<not> is_space c) (map lower_char ?d) = map lower_char (dropWhile (\<lambda>c. \<not> is_space c) ?d)"
      by (simp_all add: takeWhile_map dropWhile_map comp_def)
    then show ?thesis
      using 1 [OF refl False] False
      by (simp add: Fields.simps [of s] Fields.simps [of "map lower_char s"] ToLower_def d Let_def)
  qed
qed

text \<open>A line of several fields is none of the words the prompt takes for itself.\<close>

lemma Fields_own_words:
  "Fields ''exit'' = [''exit'']" "Fields ''quit'' = [''quit'']" "Fields ''help'' = [''help'']" "Fields ''?'' = [''?'']"
  by code_simp+

lemma own_words_single: "ToLower (TrimSpace s) \<in> {''exit'', ''quit'', ''help'', ''?''} \<Longrightarrow> length (Fields s) = 1"
proof -
  assume "ToLower (TrimSpace s) \<in> {''exit'', ''quit'', ''help'', ''?''}"
  then have "length (Fields (ToLower (TrimSpace s))) = 1" using Fields_own_words by auto
  then show ?thesis by (simp add: Fields_ToLower Fields_TrimSpace)
qed

section \<open>Commands\<close>

text \<open>
  What a line says: nothing, a write or a read of words or bits.  The arguments are those the
  program's own parsers accept.
\<close>

datatype typed =
    Nothing
  | PutWords u8 u16 "u16 list"
  | GetWords u8 u16 u16
  | PutBits u8 u16 u8 "bool list"
  | GetBits u8 u16 u8 u16

definition has_command :: "string list \<Rightarrow> string list \<Rightarrow> bool" where
  "has_command names fs \<longleftrightarrow> (case fs of [] \<Rightarrow> False | cmd # args \<Rightarrow> ToLower cmd \<in> set names)"

fun says :: "prompt_input \<Rightarrow> typed \<Rightarrow> bool" where
  "says PromptAborted t = (t = Nothing)"
| "says PromptEOF t = False"
| "says PromptError t = (t = Nothing)"
| "says (Line s) Nothing = (Fields s = [])"
| "says (Line s) (PutWords a ad ws) = (let args = tl (Fields s) in
     has_command [''writew'', ''writewords''] (Fields s) \<and> 3 \<le> length args \<and> parseWordArea (args ! 0) = Inr a \<and>
     parseUint16 (args ! 1) = Inr ad \<and> parseUint16Slice (drop 2 args) = Inr ws)"
| "says (Line s) (GetWords a ad n) = (let args = tl (Fields s) in
     has_command [''readw'', ''readwords''] (Fields s) \<and> length args = 3 \<and> parseWordArea (args ! 0) = Inr a \<and>
     parseUint16 (args ! 1) = Inr ad \<and> parseUint16 (args ! 2) = Inr n)"
| "says (Line s) (PutBits a ad off bs) = (let args = tl (Fields s) in
     has_command [''writebits''] (Fields s) \<and> 4 \<le> length args \<and> parseBitArea (args ! 0) = Inr a \<and>
     parseUint16 (args ! 1) = Inr ad \<and> parseByte (args ! 2) = Inr off \<and> parseBoolSlice (drop 3 args) = Inr bs)"
| "says (Line s) (GetBits a ad off n) = (let args = tl (Fields s) in
     has_command [''readbits''] (Fields s) \<and> length args = 4 \<and> parseBitArea (args ! 0) = Inr a \<and>
     parseUint16 (args ! 1) = Inr ad \<and> parseByte (args ! 2) = Inr off \<and> parseUint16 (args ! 3) = Inr n)"

text \<open>A range of an area the client accepts, small enough for a datagram.\<close>

fun typed_fits :: "typed \<Rightarrow> bool" where
  "typed_fits Nothing = True"
| "typed_fits (PutWords a ad ws) = (checkIsWordMemoryArea a \<and> fits 1006 (unat ad) (2 * length ws))"
| "typed_fits (GetWords a ad n) = (checkIsWordMemoryArea a \<and> fits 1006 (unat ad) (2 * unat n))"
| "typed_fits (PutBits a ad off bs) = (checkIsBitMemoryArea a \<and> fits 1006 (unat ad + unat off) (length bs))"
| "typed_fits (GetBits a ad off n) = (checkIsBitMemoryArea a \<and> fits 1006 (unat ad + unat off) (unat n))"

text \<open>What the memory specification does with it: the label and the value shown, and the memory.\<close>

fun typed_result :: "typed \<Rightarrow> plc \<Rightarrow> (string \<times> shown) option" where
  "typed_result Nothing p = None"
| "typed_result (PutWords a ad ws) p = Some (''writewords'', ShownOk)"
| "typed_result (GetWords a ad n) p = Some (''words'', ShownWords (words_from BigEndian (wmem p a) (unat ad) (unat n)))"
| "typed_result (PutBits a ad off bs) p = Some (''writebits'', ShownOk)"
| "typed_result (GetBits a ad off n) p =
     Some (''bits'', ShownBits (map byte_bool (load (bmem p a) (unat ad + unat off) (unat n))))"

fun typed_change :: "typed \<Rightarrow> plc \<Rightarrow> plc" where
  "typed_change (PutWords a ad ws) p = apply_write BigEndian (WordsAt a ad ws) p"
| "typed_change (PutBits a ad off bs) p = apply_write BigEndian (BitsAt a ad off bs) p"
| "typed_change _ p = p"

definition typed_lines :: "cli_output \<Rightarrow> typed \<Rightarrow> plc \<Rightarrow> session_line list" where
  "typed_lines o' t p = (case typed_result t p of
     None \<Rightarrow> [] | Some (label, v) \<Rightarrow> [Out (printWithRTT o' label v 0)])"

fun session_lines :: "cli_output \<Rightarrow> typed list \<Rightarrow> plc \<Rightarrow> session_line list" where
  "session_lines o' [] p = []"
| "session_lines o' (t # ts) p = typed_lines o' t p @ session_lines o' ts (typed_change t p)"

lemma ctx_within: "0 < timeout \<Longrightarrow> ctx_Err (WithTimeout timeout now) now = None"
  by (simp add: ctx_Err_def WithTimeout_def Background_def due_def)

lemma turn_runs_command:
  assumes "Fields s = cmd # args" "args \<noteq> []"
  shows "prompt_turn env timeout o' (Line s) w =
    map_option (\<lambda>((err, out), w1). ((True, map Out out @ printError o' err), w1))
      (handleCommand env None (WithTimeout timeout (w_now w)) o' (ToLower cmd) args w)"
proof -
  have "length (Fields s) \<noteq> 1" using assms by (cases args) simp_all
  then have own: "ToLower (TrimSpace s) \<notin> {''exit'', ''quit'', ''help'', ''?''}" using own_words_single by blast
  have "TrimSpace s \<noteq> []" using assms Fields_TrimSpace [of s] Fields_eq_Nil [of "[]"] by auto
  then show ?thesis
    using own assms by (simp add: prompt_turn_def Let_def Fields_TrimSpace run_command_def map_conv_bind_option
        comp_def case_prod_unfold)
qed

section \<open>Sessions\<close>

definition plc_behind :: "'a net_world_scheme \<Rightarrow> plc" where
  "plc_behind w = server_view (n_srv w)"

lemma plc_behind_view: "udp_timed.view = plc_behind"
  by (rule ext) (simp add: udp_timed.view_def plc_behind_def)

lemma timed_start: "client_ready BigEndian w \<Longrightarrow> 0 < timeout \<Longrightarrow> timed_ready (WithTimeout timeout (w_now w)) (w_now w) w"
  by (simp add: timed_ready_def ctx_within)

definition turn_ok :: "cli_output \<Rightarrow> int \<Rightarrow> prompt_input \<Rightarrow> typed \<Rightarrow> 'a net_world_scheme \<Rightarrow> bool" where
  "turn_ok o' timeout inp t w \<longleftrightarrow> (\<exists>w'. prompt_turn udp_env timeout o' inp w =
       Some ((True, typed_lines o' t (plc_behind w)), w') \<and>
     client_ready BigEndian w' \<and> plc_behind w' = typed_change t (plc_behind w))"

lemma turn_words:
  assumes w: "client_ready BigEndian w" "0 < timeout"
  shows "says (Line s) (PutWords a ad ws) \<Longrightarrow> typed_fits (PutWords a ad ws) \<Longrightarrow> turn_ok o' timeout (Line s) (PutWords a ad ws) w"
    and "says (Line s) (GetWords a ad n) \<Longrightarrow> typed_fits (GetWords a ad n) \<Longrightarrow> turn_ok o' timeout (Line s) (GetWords a ad n) w"
proof -
  note r = timed_start [OF w]
  {
    assume say: "says (Line s) (PutWords a ad ws)" and fit: "typed_fits (PutWords a ad ws)"
    then obtain cmd args where fs: "Fields s = cmd # args" "ToLower cmd \<in> {''writew'', ''writewords''}" "3 \<le> length args"
      "parseWordArea (args ! 0) = Inr a" "parseUint16 (args ! 1) = Inr ad" "parseUint16Slice (drop 2 args) = Inr ws"
      by (auto simp: has_command_def Let_def split: list.splits)
    obtain w' where w': "Client_WriteWords udp_env None (WithTimeout timeout (w_now w)) a ad ws w = Some (None, w')"
      "timed_ready (WithTimeout timeout (w_now w)) (w_now w) w'"
      "plc_behind w' = store_word_bytes a (unat ad) (order_words BigEndian ws) (plc_behind w)"
      using udp_timed.write_words_link [OF r, of a ad ws] fit unfolding plc_behind_view by auto
    have ne: "args \<noteq> []" using fs(3) by auto
    have "handleCommand udp_env None (WithTimeout timeout (w_now w)) o' (ToLower cmd) args w =
        Some ((None, [printWithRTT o' ''writewords'' ShownOk 0]), w')"
      using fs w' by (auto simp: handleCommand_def try_parse_def report_write_def timed_ready_def wrap64_id)
    then show "turn_ok o' timeout (Line s) (PutWords a ad ws) w"
      using turn_runs_command [OF fs(1) ne, of udp_env timeout o' w] w'(2,3)
      by (auto simp: turn_ok_def typed_lines_def printError_def timed_ready_def)
  }
  {
    assume say: "says (Line s) (GetWords a ad n)" and fit: "typed_fits (GetWords a ad n)"
    then obtain cmd args where fs: "Fields s = cmd # args" "ToLower cmd \<in> {''readw'', ''readwords''}" "length args = 3"
      "parseWordArea (args ! 0) = Inr a" "parseUint16 (args ! 1) = Inr ad" "parseUint16 (args ! 2) = Inr n"
      by (auto simp: has_command_def Let_def split: list.splits)
    obtain w' where w': "Client_ReadWords udp_env None (WithTimeout timeout (w_now w)) a ad n w =
        Some (Inr (words_from BigEndian (wmem (plc_behind w) a) (unat ad) (unat n)), w')"
      "timed_ready (WithTimeout timeout (w_now w)) (w_now w) w'" "plc_behind w' = plc_behind w"
      using udp_timed.read_words_link [OF r, of a ad n] fit unfolding plc_behind_view by auto
    have ne: "args \<noteq> []" using fs(3) by auto
    have "handleCommand udp_env None (WithTimeout timeout (w_now w)) o' (ToLower cmd) args w =
        Some ((None, [printWithRTT o' ''words'' (ShownWords (words_from BigEndian (wmem (plc_behind w) a) (unat ad) (unat n))) 0]), w')"
      using fs w' by (auto simp: handleCommand_def try_parse_def report_read_def timed_ready_def wrap64_id)
    then show "turn_ok o' timeout (Line s) (GetWords a ad n) w"
      using turn_runs_command [OF fs(1) ne, of udp_env timeout o' w] w'(2,3)
      by (auto simp: turn_ok_def typed_lines_def printError_def timed_ready_def)
  }
qed

lemma turn_bits:
  assumes w: "client_ready BigEndian w" "0 < timeout"
  shows "says (Line s) (PutBits a ad off bs) \<Longrightarrow> typed_fits (PutBits a ad off bs) \<Longrightarrow> turn_ok o' timeout (Line s) (PutBits a ad off bs) w"
    and "says (Line s) (GetBits a ad off n) \<Longrightarrow> typed_fits (GetBits a ad off n) \<Longrightarrow> turn_ok o' timeout (Line s) (GetBits a ad off n) w"
proof -
  note r = timed_start [OF w]
  {
    assume say: "says (Line s) (PutBits a ad off bs)" and fit: "typed_fits (PutBits a ad off bs)"
    then obtain cmd args where fs: "Fields s = cmd # args" "ToLower cmd = ''writebits''" "4 \<le> length args"
      "parseBitArea (args ! 0) = Inr a" "parseUint16 (args ! 1) = Inr ad" "parseByte (args ! 2) = Inr off"
      "parseBoolSlice (drop 3 args) = Inr bs"
      by (auto simp: has_command_def Let_def split: list.splits)
    obtain w' where w': "Client_WriteBits udp_env None (WithTimeout timeout (w_now w)) a ad off bs w = Some (None, w')"
      "timed_ready (WithTimeout timeout (w_now w)) (w_now w) w'"
      "plc_behind w' = store_bit_bytes a (unat ad + unat off) (bool_bytes bs) (plc_behind w)"
      using udp_timed.write_bits_link [OF r, of a ad off bs] fit unfolding plc_behind_view by auto
    have ne: "args \<noteq> []" using fs(3) by auto
    have "handleCommand udp_env None (WithTimeout timeout (w_now w)) o' (ToLower cmd) args w =
        Some ((None, [printWithRTT o' ''writebits'' ShownOk 0]), w')"
      using fs w' by (simp add: handleCommand_def try_parse_def report_write_def timed_ready_def wrap64_id)
    then show "turn_ok o' timeout (Line s) (PutBits a ad off bs) w"
      using turn_runs_command [OF fs(1) ne, of udp_env timeout o' w] w'(2,3)
      by (auto simp: turn_ok_def typed_lines_def printError_def timed_ready_def)
  }
  {
    assume say: "says (Line s) (GetBits a ad off n)" and fit: "typed_fits (GetBits a ad off n)"
    then obtain cmd args where fs: "Fields s = cmd # args" "ToLower cmd = ''readbits''" "length args = 4"
      "parseBitArea (args ! 0) = Inr a" "parseUint16 (args ! 1) = Inr ad" "parseByte (args ! 2) = Inr off"
      "parseUint16 (args ! 3) = Inr n"
      by (auto simp: has_command_def Let_def split: list.splits)
    obtain w' where w': "Client_ReadBits udp_env None (WithTimeout timeout (w_now w)) a ad off n w =
        Some (Inr (map byte_bool (load (bmem (plc_behind w) a) (unat ad + unat off) (unat n))), w')"
      "timed_ready (WithTimeout timeout (w_now w)) (w_now w) w'" "plc_behind w' = plc_behind w"
      using udp_timed.read_bits_link [OF r, of a ad off n] fit unfolding plc_behind_view by auto
    have ne: "args \<noteq> []" using fs(3) by auto
    have "handleCommand udp_env None (WithTimeout timeout (w_now w)) o' (ToLower cmd) args w =
        Some ((None, [printWithRTT o' ''bits'' (ShownBits (map byte_bool (load (bmem (plc_behind w) a) (unat ad + unat off) (unat n)))) 0]), w')"
      using fs w' by (simp add: handleCommand_def try_parse_def report_read_def timed_ready_def wrap64_id)
    then show "turn_ok o' timeout (Line s) (GetBits a ad off n) w"
      using turn_runs_command [OF fs(1) ne, of udp_env timeout o' w] w'(2,3)
      by (auto simp: turn_ok_def typed_lines_def printError_def timed_ready_def)
  }
qed

lemma turn_nothing:
  assumes "client_ready BigEndian w" "says inp Nothing"
  shows "turn_ok o' timeout inp Nothing w"
proof -
  have blank: "TrimSpace s = []" if "Fields s = []" for s
    using that by (simp add: Fields_eq_Nil TrimSpace_eq_Nil)
  show ?thesis
    using assms by (cases inp) (simp_all add: turn_ok_def prompt_turn_def typed_lines_def blank)
qed

lemma turn_says:
  assumes "client_ready BigEndian w" "0 < timeout" "says inp t" "typed_fits t"
  shows "turn_ok o' timeout inp t w"
proof (cases t)
  case Nothing
  show ?thesis unfolding Nothing by (rule turn_nothing [OF assms(1) assms(3) [unfolded Nothing]])
next
  case (PutWords a ad ws)
  then obtain s where s: "inp = Line s" using assms(3) by (cases inp) simp_all
  show ?thesis unfolding s PutWords by (rule turn_words(1) [OF assms(1,2) assms(3,4) [unfolded s PutWords]])
next
  case (GetWords a ad n)
  then obtain s where s: "inp = Line s" using assms(3) by (cases inp) simp_all
  show ?thesis unfolding s GetWords by (rule turn_words(2) [OF assms(1,2) assms(3,4) [unfolded s GetWords]])
next
  case (PutBits a ad off bs)
  then obtain s where s: "inp = Line s" using assms(3) by (cases inp) simp_all
  show ?thesis unfolding s PutBits by (rule turn_bits(1) [OF assms(1,2) assms(3,4) [unfolded s PutBits]])
next
  case (GetBits a ad off n)
  then obtain s where s: "inp = Line s" using assms(3) by (cases inp) simp_all
  show ?thesis unfolding s GetBits by (rule turn_bits(2) [OF assms(1,2) assms(3,4) [unfolded s GetBits]])
qed

text \<open>
  C3: the example client end to end, by its prompt.  Whatever is typed, as long as each line is
  blank or reads or writes words or bits in range, the session prints, line by line, what the memory
  specification returns for the same operations, and leaves the memory it leaves; each command has its
  own deadline.
\<close>

theorem prompt_session_refines:
  assumes "client_ready BigEndian w" "0 < timeout" "list_all2 says inps ts" "list_all typed_fits ts"
  shows "\<exists>w'. prompt_loop udp_env timeout o' inps w = Some ((True, session_lines o' ts (plc_behind w)), w') \<and>
    client_ready BigEndian w' \<and> plc_behind w' = fold typed_change ts (plc_behind w)"
  using assms(3,1,4)
proof (induction inps ts arbitrary: w rule: list_all2_induct)
  case (Cons inp inps t ts)
  then obtain w1 where w1: "prompt_turn udp_env timeout o' inp w = Some ((True, typed_lines o' t (plc_behind w)), w1)"
    "client_ready BigEndian w1" "plc_behind w1 = typed_change t (plc_behind w)"
    using turn_says [OF _ assms(2), of w inp t o'] by (auto simp: turn_ok_def)
  from Cons.IH [OF w1(2)] Cons.prems(2) w1 show ?case by auto
qed simp

theorem prompt_session_refines_witness:
  "\<exists>(w :: net_world) w'. prompt_loop udp_env 5000000000 \<lparr>o_mode = outputText, o_quiet = True, o_transport = ''udp''\<rparr>
     [Line '' WriteWords DM 100  7 65535'', PromptAborted, Line '''', Line ''readw dmw 100 2''] w =
     Some ((True, map (\<lambda>v. Out (Result outputText [] v ''udp'' 0)) [ShownOk, ShownWords [7, 65535]]), w')"
proof -
  obtain s where "NewPLCSimulator transportUDP True None = Inr s" by (rule new_simulator)
  then have r: "client_ready BigEndian (net_of transportUDP BigEndian noon s)" by (rule net_of_ready)
  let ?inps = "[Line '' WriteWords DM 100  7 65535'', PromptAborted, Line '''', Line ''readw dmw 100 2'']"
  let ?ts = "[PutWords MemoryAreaDMWord 100 [7, 65535], Nothing, Nothing, GetWords MemoryAreaDMWord 100 2]"
  have d: "decimal 100 = ''100''" "decimal 7 = ''7''" "decimal 65535 = ''65535''" "decimal 2 = ''2''"
    by (simp_all add: decimal_eval)
  have nums: "parseUint16 ''100'' = Inr 100" "parseUint16 ''7'' = Inr 7" "parseUint16 ''65535'' = Inr 65535" "parseUint16 ''2'' = Inr 2"
    using parseUint16_decimal [of 100] parseUint16_decimal [of 7] parseUint16_decimal [of 65535] parseUint16_decimal [of 2] d
    by simp_all
  have lines: "Fields '' WriteWords DM 100  7 65535'' = [''WriteWords'', ''DM'', ''100'', ''7'', ''65535'']"
    "Fields '''' = []" "Fields ''readw dmw 100 2'' = [''readw'', ''dmw'', ''100'', ''2'']"
    by code_simp+
  have names: "ToLower ''WriteWords'' = ''writewords''" "ToLower ''readw'' = ''readw''"
    "parseWordArea ''DM'' = Inr MemoryAreaDMWord" "parseWordArea ''dmw'' = Inr MemoryAreaDMWord"
    by code_simp+
  have says: "list_all2 says ?inps ?ts"
    by (simp add: lines names nums has_command_def parseUint16Slice_def)
  have fit: "list_all typed_fits ?ts" by (simp add: checkIsWordMemoryArea_def fits_def)
  have again: "words_from BigEndian (store m 100 (order_words BigEndian [7, 65535])) 100 2 = [7, 65535]" for m
    using be.words_from_store [of m 100 "[7, 65535]"] by (simp add: numeral_2_eq_2)
  let ?out = "\<lparr>o_mode = outputText, o_quiet = True, o_transport = ''udp''\<rparr>"
  have shown: "session_lines ?out ?ts p = map (\<lambda>v. Out (Result outputText [] v ''udp'' 0)) [ShownOk, ShownWords [7, 65535]]" for p
    by (simp add: typed_lines_def printWithRTT_def again go_div_def)
  obtain w' where "prompt_loop udp_env 5000000000 ?out ?inps (net_of transportUDP BigEndian noon s) =
      Some ((True, session_lines ?out ?ts (plc_behind (net_of transportUDP BigEndian noon s))), w')"
    using prompt_session_refines [OF r _ says fit, of 5000000000 ?out] by auto
  then show ?thesis unfolding shown by blast
qed

end
