(* ===== verification/Fins_Metrics.thy ===== *)
theory Fins_Metrics
  imports Fins_Interceptor
begin

text \<open>
  What the watching interceptors promise.  The locale \<open>pass_through\<close> is their contract: the
  operation runs exactly once, in the stored context, its result is returned as it is, and only
  the log and the collectors differ around it; two such interceptors chained are one again.  The
  second half shows that a metrics collector counts what went through it.
\<close>

section \<open>The contract of a watching interceptor\<close>

text \<open>Worlds that differ at most in what the watchers write.\<close>

definition same_core :: "'a world_scheme \<Rightarrow> 'a world_scheme \<Rightarrow> bool" where
  "same_core w w' \<longleftrightarrow> w_now w' = w_now w \<and> world.more w' = world.more w"

lemma same_core_simps [simp]:
  "same_core w w" "same_core w (Log l w') = same_core w w'"
  "same_core w (w'\<lparr>w_collectors := f\<rparr>) = same_core w w'"
  by (simp_all add: same_core_def Log_def)

lemma same_core_trans: "same_core a b \<Longrightarrow> same_core b c \<Longrightarrow> same_core a c"
  by (simp add: same_core_def)

locale pass_through =
  fixes ic :: "('a world_scheme) interceptor"
    and before :: "Context \<Rightarrow> InterceptorInfo \<Rightarrow> 'a world_scheme \<Rightarrow> 'a world_scheme"
    and after :: "Context \<Rightarrow> InterceptorInfo \<Rightarrow> 'a world_scheme \<Rightarrow> gores \<Rightarrow> 'a world_scheme \<Rightarrow> 'a world_scheme"
  assumes ic_eq: "ic c w = map_option (\<lambda>(r, w'). (r, after (ic_ctx c) (ic_info c) w r w'))
      (ic_invoker c (ic_ctx c) (before (ic_ctx c) (ic_info c) w))"
    and before_core: "same_core w (before x nfo w)"
    and after_core: "same_core w' (after x nfo w r w')"
begin

lemma result_unchanged:
  assumes "ic c w = Some (r, w')"
  shows "\<exists>w1 w2. ic_invoker c (ic_ctx c) w1 = Some (r, w2) \<and> same_core w w1 \<and> same_core w2 w'"
proof -
  obtain w2 where "ic_invoker c (ic_ctx c) (before (ic_ctx c) (ic_info c) w) = Some (r, w2)"
    and "w' = after (ic_ctx c) (ic_info c) w r w2"
    using assms by (auto simp: ic_eq)
  then show ?thesis using before_core after_core by blast
qed

lemma panic_only_from_operation:
  "ic c w = None \<longleftrightarrow> ic_invoker c (ic_ctx c) (before (ic_ctx c) (ic_info c) w) = None"
  by (simp add: ic_eq)

end

locale two_watchers = outer: pass_through i bi ai + inner: pass_through j bj aj
  for i :: "('a world_scheme) interceptor" and bi ai and j :: "('a world_scheme) interceptor" and bj aj
begin

sublocale chained: pass_through "the (ChainInterceptors [i, j])"
    "\<lambda>x nfo w. bj x nfo (bi x nfo w)"
    "\<lambda>x nfo w r w'. ai x nfo w r (aj x nfo (bi x nfo w) r w')"
proof unfold_locales
  fix c :: "('a world_scheme) InterceptorCtx" and w
  show "the (ChainInterceptors [i, j]) c w =
    map_option (\<lambda>(r, w'). (r, ai (ic_ctx c) (ic_info c) w r
        (aj (ic_ctx c) (ic_info c) (bi (ic_ctx c) (ic_info c) w) r w')))
      (ic_invoker c (ic_ctx c) (bj (ic_ctx c) (ic_info c) (bi (ic_ctx c) (ic_info c) w)))"
    by (simp add: outer.ic_eq inner.ic_eq option.map_comp comp_def case_prod_unfold)
next
  fix w x nfo show "same_core w (bj x nfo (bi x nfo w))"
    using outer.before_core inner.before_core by (rule same_core_trans)
next
  fix w' x nfo w r show "same_core w' (ai x nfo w r (aj x nfo (bi x nfo w) r w'))"
    using inner.after_core outer.after_core by (rule same_core_trans)
qed

end

section \<open>The three watchers\<close>

definition log_before :: "Context \<Rightarrow> InterceptorInfo \<Rightarrow> 'a world_scheme \<Rightarrow> 'a world_scheme" where
  "log_before x nfo w = Log (LogStarting (Operation nfo) (MemoryArea nfo) (Address nfo)) w"

definition log_after ::
    "Context \<Rightarrow> InterceptorInfo \<Rightarrow> 'a world_scheme \<Rightarrow> gores \<Rightarrow> 'a world_scheme \<Rightarrow> 'a world_scheme" where
  "log_after x nfo w r w' = Log (case snd r of
     Some e \<Rightarrow> LogFailed (Operation nfo) (wrap64 (w_now w' - w_now w)) e
   | None \<Rightarrow> LogCompleted (Operation nfo) (wrap64 (w_now w' - w_now w))) w'"

definition trace_before ::
    "ctx_key \<Rightarrow> Context \<Rightarrow> InterceptorInfo \<Rightarrow> 'a world_scheme \<Rightarrow> 'a world_scheme" where
  "trace_before key x nfo w = (case ctxValues x key of
     Some t \<Rightarrow> Log (LogTrace t (Operation nfo) (Address nfo)) w | None \<Rightarrow> w)"

definition metrics_after :: "nat \<Rightarrow>
    Context \<Rightarrow> InterceptorInfo \<Rightarrow> 'a world_scheme \<Rightarrow> gores \<Rightarrow> 'a world_scheme \<Rightarrow> 'a world_scheme" where
  "metrics_after mid x nfo w r w' = w'\<lparr>w_collectors := (w_collectors w')(mid :=
     record_op (Operation nfo) (wrap64 (w_now w' - w_now w)) (snd r \<noteq> None) (w_collectors w' mid))\<rparr>"

interpretation logging: pass_through LoggingInterceptor log_before log_after
  by unfold_locales
    (auto simp: LoggingInterceptor_def Invoke_def log_before_def log_after_def Let_def
      map_option_case split: option.splits)

interpretation tracing: pass_through "TracingInterceptor key" "trace_before key" "\<lambda>_ _ _ _ w'. w'" for key
  by unfold_locales
    (auto simp: TracingInterceptor_def Invoke_def trace_before_def map_option_case split: option.splits)

interpretation metrics: pass_through "MetricsInterceptor mid" "\<lambda>_ _ w. w" "metrics_after mid" for mid
  by unfold_locales
    (auto simp: MetricsInterceptor_def Invoke_def metrics_after_def Let_def map_option_case split: option.splits)

interpretation log_metrics: two_watchers LoggingInterceptor log_before log_after
    "MetricsInterceptor mid" "\<lambda>_ _ w. w" "metrics_after mid" for mid ..

interpretation metrics_trace: two_watchers "MetricsInterceptor mid" "\<lambda>_ _ w. w" "metrics_after mid"
    "TracingInterceptor key" "trace_before key" "\<lambda>_ _ _ _ w'. w'" for mid key ..

section \<open>Counting\<close>

text \<open>Operations made one after the other through the interceptor, and their results.\<close>

fun run_ops ::
    "('a world_scheme) interceptor \<Rightarrow> (Context \<times> InterceptorInfo \<times> ('a world_scheme) invoker) list \<Rightarrow>
     'a world_scheme \<Rightarrow> (gores list \<times> 'a world_scheme) option" where
  "run_ops ic [] w = Some ([], w)"
| "run_ops ic ((x, nfo, f) # ops) w = do {
     (r, w1) \<leftarrow> invoke_with (Some ic) x nfo f w;
     (rs, w2) \<leftarrow> run_ops ic ops w1;
     Some (r # rs, w2) }"

text \<open>How many of the operations made were \<open>op\<close>, and how many of those failed.\<close>

definition count_op :: "OperationType \<Rightarrow> (Context \<times> InterceptorInfo \<times> 'w invoker) list \<Rightarrow> nat" where
  "count_op op ops = length (filter (\<lambda>(x, nfo, f). Operation nfo = op) ops)"

definition count_failed ::
    "OperationType \<Rightarrow> (Context \<times> InterceptorInfo \<times> 'w invoker) list \<Rightarrow> gores list \<Rightarrow> nat" where
  "count_failed op ops rs =
     length (filter (\<lambda>((x, nfo, f), r). Operation nfo = op \<and> snd r \<noteq> None) (zip ops rs))"

text \<open>An operation that leaves this collector alone.\<close>

definition keeps_collector :: "nat \<Rightarrow> ('a world_scheme) invoker \<Rightarrow> bool" where
  "keeps_collector mid f \<longleftrightarrow>
     (\<forall>x w r w'. f x w = Some (r, w') \<longrightarrow> w_collectors w' mid = w_collectors w mid)"

lemma map_get_upd [simp]: "map_get (m(k \<mapsto> v)) k' = (if k' = k then v else map_get m k')"
  by (simp add: map_get_def)

lemma record_op_counts:
  "map_get (OperationCount (record_op op d failed m)) op' =
     (if op' = op then wrap64 (map_get (OperationCount m) op + 1) else map_get (OperationCount m) op')"
  "map_get (ErrorCount (record_op op d failed m)) op' =
     (if op' = op \<and> failed then wrap64 (map_get (ErrorCount m) op + 1) else map_get (ErrorCount m) op')"
  by (simp_all add: record_op_def Let_def)

lemma run_ops_counts:
  assumes "run_ops (MetricsInterceptor mid) ops w = Some (rs, w')"
    and "\<forall>(x, nfo, f) \<in> set ops. keeps_collector mid f"
    and "map_get (OperationCount (w_collectors w mid)) op = int a"
    and "map_get (ErrorCount (w_collectors w mid)) op = int b"
    and "a + length ops < 2 ^ 63" "b \<le> a"
  shows "map_get (OperationCount (w_collectors w' mid)) op = int (a + count_op op ops) \<and>
    map_get (ErrorCount (w_collectors w' mid)) op = int (b + count_failed op ops rs)"
  using assms
proof (induction ops arbitrary: w rs a b)
  case Nil
  then show ?case by (simp add: count_op_def count_failed_def)
next
  case (Cons o1 ops)
  obtain x nfo f where o1: "o1 = (x, nfo, f)" by (cases o1)
  obtain r w1 rs' where step: "MetricsInterceptor mid \<lparr>ic_ctx = x, ic_info = nfo, ic_invoker = f\<rparr> w = Some (r, w1)"
    and rest: "run_ops (MetricsInterceptor mid) ops w1 = Some (rs', w')" and rs: "rs = r # rs'"
    using Cons.prems(1) by (auto simp: o1 invoke_with_def split: Option.bind_splits)
  obtain w0 where f: "f x w = Some (r, w0)" and w1: "w1 = metrics_after mid x nfo w r w0"
    using step by (auto simp: metrics.ic_eq)
  have col: "w_collectors w1 mid =
      record_op (Operation nfo) (wrap64 (w_now w0 - w_now w)) (snd r \<noteq> None) (w_collectors w mid)"
  proof -
    have "keeps_collector mid f" using Cons.prems(2) by (simp add: o1)
    then have "w_collectors w0 mid = w_collectors w mid" using f unfolding keeps_collector_def by blast
    then show ?thesis by (simp add: w1 metrics_after_def)
  qed
  let ?a = "if Operation nfo = op then a + 1 else a"
  let ?b = "if Operation nfo = op \<and> snd r \<noteq> None then b + 1 else b"
  have small: "int a + 1 < 2 ^ 63" "int b + 1 < 2 ^ 63" using Cons.prems(5,6) by simp_all
  have "map_get (OperationCount (w_collectors w1 mid)) op = int ?a"
    using Cons.prems(3) small by (auto simp: col record_op_counts wrap64_id)
  moreover have "map_get (ErrorCount (w_collectors w1 mid)) op = int ?b"
    using Cons.prems(4) small by (auto simp: col record_op_counts wrap64_id)
  moreover have "?a + length ops < 2 ^ 63" "?b \<le> ?a" using Cons.prems(5,6) by auto
  moreover have "\<forall>(x, nfo, f) \<in> set ops. keeps_collector mid f" using Cons.prems(2) by simp
  ultimately have "map_get (OperationCount (w_collectors w' mid)) op = int (?a + count_op op ops) \<and>
    map_get (ErrorCount (w_collectors w' mid)) op = int (?b + count_failed op ops rs')"
    using rest Cons.IH by blast
  then show ?case
    by (cases "Operation nfo = op"; cases "snd r = None") (simp_all add: o1 rs count_op_def count_failed_def)
qed

section \<open>Properties\<close>

definition still :: "int \<Rightarrow> world" where
  "still t = \<lparr>w_now = t, w_log = [], w_collectors = (\<lambda>_. NewMetricsCollector)\<rparr>"

definition answer :: "gores \<Rightarrow> world invoker" where
  "answer r x w = Some (r, w)"

definition plain_info :: "OperationType \<Rightarrow> InterceptorInfo" where
  "plain_info op = \<lparr>Operation = op, MemoryArea = 0x82, Address = 0, BitOffset = 0, Count = 1, Data = VNil\<rparr>"

text \<open>
  Logging and metrics do not interfere.  When an operation behind the two returns, it has run
  exactly once in the caller's context, its result is what the caller gets, and the world it saw
  and the world it left differ from the caller's only in the log and the collectors.
\<close>

lemma watchers_transparent:
  assumes "the (ChainInterceptors [LoggingInterceptor, MetricsInterceptor mid]) c w = Some (r, w')"
  shows "\<exists>w1 w2. ic_invoker c (ic_ctx c) w1 = Some (r, w2) \<and> same_core w w1 \<and> same_core w2 w'"
  using assms by (rule log_metrics.chained.result_unchanged)

lemma watchers_transparent_example:
  "\<exists>w' w1 w2 :: world. the (ChainInterceptors [LoggingInterceptor, MetricsInterceptor 0])
       \<lparr>ic_ctx = Background, ic_info = plain_info OpReadWords, ic_invoker = answer (VWords [5], None)\<rparr> (still 3) =
         Some ((VWords [5], None), w') \<and>
     answer (VWords [5], None) Background w1 = Some ((VWords [5], None), w2) \<and> same_core w2 w'"
proof -
  let ?c = "\<lparr>ic_ctx = Background, ic_info = plain_info OpReadWords, ic_invoker = answer (VWords [5], None)\<rparr>"
  obtain w' where w': "the (ChainInterceptors [LoggingInterceptor, MetricsInterceptor 0]) ?c (still 3) =
      Some ((VWords [5], None), w')"
    by (simp add: LoggingInterceptor_def MetricsInterceptor_def Invoke_def answer_def Let_def)
  then show ?thesis using watchers_transparent [OF w'] by auto
qed

text \<open>
  C39: the metrics count.  After any operations made through the metrics interceptor of a new
  collector, its statistics for an operation type are how many of the operations had that type and
  how many of those returned an error.
\<close>

theorem metrics_count:
  assumes "run_ops (MetricsInterceptor mid) ops w = Some (rs, w')"
    and "\<forall>(x, nfo, f) \<in> set ops. keeps_collector mid f"
    and "w_collectors w mid = NewMetricsCollector" "length ops < 2 ^ 63"
  shows "\<exists>avg. GetStats (w_collectors w' mid) op = (int (count_op op ops), int (count_failed op ops rs), avg)"
  using run_ops_counts [OF assms(1,2), of op 0 0] assms(3,4)
  by (simp add: NewMetricsCollector_def map_get_def GetStats_def Let_def)

theorem metrics_count_witness:
  "\<exists>w' avg. run_ops (MetricsInterceptor 0)
       [(Background, plain_info OpReadWords, answer (VWords [5], None)),
        (Background, plain_info OpWriteWords, answer (VNil, None)),
        (Background, plain_info OpReadWords, answer (VNil, Some ClientClosedError))] (still 3) =
      Some ([(VWords [5], None), (VNil, None), (VNil, Some ClientClosedError)], w') \<and>
     GetStats (w_collectors w' 0) OpReadWords = (2, 1, avg)"
proof -
  let ?ops = "[(Background, plain_info OpReadWords, answer (VWords [5], None)),
        (Background, plain_info OpWriteWords, answer (VNil, None)),
        (Background, plain_info OpReadWords, answer (VNil, Some ClientClosedError))]"
  obtain w' where w': "run_ops (MetricsInterceptor 0) ?ops (still 3) =
      Some ([(VWords [5], None), (VNil, None), (VNil, Some ClientClosedError)], w')"
    by (simp add: MetricsInterceptor_def invoke_with_def Invoke_def answer_def Let_def)
  have "\<exists>avg. GetStats (w_collectors w' 0) OpReadWords = (int (count_op OpReadWords ?ops), int (count_failed OpReadWords ?ops
      [(VWords [5], None), (VNil, None), (VNil, Some ClientClosedError)]), avg)"
    by (rule metrics_count [OF w']) (auto simp: keeps_collector_def answer_def still_def)
  then show ?thesis using w' by (simp add: count_op_def count_failed_def plain_info_def)
qed

end
