(* ===== verification/Fins_Retry.thy ===== *)
theory Fins_Retry
  imports Fins_Interceptor
begin

text \<open>
  \<open>interceptor_retry.go\<close>: the three retrying interceptors, as loops over the attempt number.
  The loop variables \<open>result\<close> and \<open>err\<close> are passed along, because the code returns what the
  last attempt left in them.  A scripted operation, which answers a given list of results, is used
  to state how often and when the operation runs.
\<close>

section \<open>The loops\<close>

definition retries_exhausted :: "int \<Rightarrow> fins_error option \<Rightarrow> fins_error" where
  "retries_exhausted maxRetries err =
     Errorf ''operation failed after %d retries: %w'' [AInt (maxRetries + 1)] err"

function retry_loop ::
    "int \<Rightarrow> int \<Rightarrow> ('a world_scheme) InterceptorCtx \<Rightarrow> int \<Rightarrow> gores \<Rightarrow> 'a world_scheme \<Rightarrow>
     (gores \<times> 'a world_scheme) option" where
  "retry_loop maxRetries delay c attempt cur w =
     (if attempt \<le> maxRetries then do {
        ((result, err), w1) \<leftarrow> Invoke c (Some (ic_ctx c)) w;
        (case err of
           None \<Rightarrow> Some ((result, None), w1)
         | Some e \<Rightarrow>
             if ctx_Err (ic_ctx c) (w_now w1) \<noteq> None then Some ((VNil, Some e), w1)
             else if attempt < maxRetries
             then retry_loop maxRetries delay c (attempt + 1) (result, err)
                    (Sleep delay (Log (LogRetry (attempt + 1) (maxRetries + 1) (Operation (ic_info c)) e delay) w1))
             else retry_loop maxRetries delay c (attempt + 1) (result, err) w1) }
      else Some ((fst cur, Some (retries_exhausted maxRetries (snd cur))), w))"
  by pat_completeness auto
termination
  by (relation "measure (\<lambda>(maxRetries, delay, c, attempt, cur, w). nat (maxRetries + 1 - attempt))") auto

declare retry_loop.simps [simp del]

definition RetryInterceptor :: "int \<Rightarrow> int \<Rightarrow> ('a world_scheme) interceptor" where
  "RetryInterceptor maxRetries delay c w = retry_loop maxRetries delay c 0 (VNil, None) w"

text \<open>The delay of the next round: doubled in 64 bits, then cut to the maximum.\<close>

definition next_delay :: "int \<Rightarrow> int \<Rightarrow> int" where
  "next_delay maxDelay delay = (let d = wrap64 (delay * 2) in if d > maxDelay then maxDelay else d)"

function backoff_loop ::
    "int \<Rightarrow> int \<Rightarrow> ('a world_scheme) InterceptorCtx \<Rightarrow> int \<Rightarrow> int \<Rightarrow> gores \<Rightarrow> 'a world_scheme \<Rightarrow>
     (gores \<times> 'a world_scheme) option" where
  "backoff_loop maxRetries maxDelay c attempt delay cur w =
     (if attempt \<le> maxRetries then do {
        ((result, err), w1) \<leftarrow> Invoke c (Some (ic_ctx c)) w;
        (case err of
           None \<Rightarrow> Some ((result, None), w1)
         | Some e \<Rightarrow>
             if ctx_Err (ic_ctx c) (w_now w1) \<noteq> None then Some ((VNil, Some e), w1)
             else if attempt < maxRetries
             then backoff_loop maxRetries maxDelay c (attempt + 1) (next_delay maxDelay delay) (result, err)
                    (Sleep delay (Log (LogRetry (attempt + 1) (maxRetries + 1) (Operation (ic_info c)) e delay) w1))
             else backoff_loop maxRetries maxDelay c (attempt + 1) delay (result, err) w1) }
      else Some ((fst cur, Some (retries_exhausted maxRetries (snd cur))), w))"
  by pat_completeness auto
termination
  by (relation "measure (\<lambda>(maxRetries, maxDelay, c, attempt, delay, cur, w). nat (maxRetries + 1 - attempt))") auto

declare backoff_loop.simps [simp del]

definition RetryInterceptorWithBackoff :: "int \<Rightarrow> int \<Rightarrow> int \<Rightarrow> ('a world_scheme) interceptor" where
  "RetryInterceptorWithBackoff maxRetries initialDelay maxDelay c w =
     backoff_loop maxRetries maxDelay c 0 initialDelay (VNil, None) w"

function conditional_loop ::
    "int \<Rightarrow> int \<Rightarrow> (fins_error \<Rightarrow> bool) \<Rightarrow> ('a world_scheme) InterceptorCtx \<Rightarrow> int \<Rightarrow> gores \<Rightarrow> 'a world_scheme \<Rightarrow>
     (gores \<times> 'a world_scheme) option" where
  "conditional_loop maxRetries delay shouldRetry c attempt cur w =
     (if attempt \<le> maxRetries then do {
        ((result, err), w1) \<leftarrow> Invoke c (Some (ic_ctx c)) w;
        (case err of
           None \<Rightarrow> Some ((result, None), w1)
         | Some e \<Rightarrow>
             if ctx_Err (ic_ctx c) (w_now w1) \<noteq> None then Some ((VNil, Some e), w1)
             else if \<not> shouldRetry e then Some ((result, Some e), w1)
             else if attempt < maxRetries
             then conditional_loop maxRetries delay shouldRetry c (attempt + 1) (result, err)
                    (Sleep delay (Log (LogRetry (attempt + 1) (maxRetries + 1) (Operation (ic_info c)) e delay) w1))
             else conditional_loop maxRetries delay shouldRetry c (attempt + 1) (result, err) w1) }
      else Some ((fst cur, Some (retries_exhausted maxRetries (snd cur))), w))"
  by pat_completeness auto
termination
  by (relation "measure (\<lambda>(maxRetries, delay, sr, c, attempt, cur, w). nat (maxRetries + 1 - attempt))") auto

declare conditional_loop.simps [simp del]

definition RetryInterceptorConditional ::
    "int \<Rightarrow> int \<Rightarrow> (fins_error \<Rightarrow> bool) \<Rightarrow> ('a world_scheme) interceptor" where
  "RetryInterceptorConditional maxRetries delay shouldRetry c w =
     conditional_loop maxRetries delay shouldRetry c 0 (VNil, None) w"

text \<open>Past the last attempt the loops report what the last attempt left.\<close>

lemma loops_done:
  "maxRetries < attempt \<Longrightarrow> retry_loop maxRetries delay c attempt cur w =
     Some ((fst cur, Some (retries_exhausted maxRetries (snd cur))), w)"
  "maxRetries < attempt \<Longrightarrow> backoff_loop maxRetries maxDelay c attempt delay cur w =
     Some ((fst cur, Some (retries_exhausted maxRetries (snd cur))), w)"
  "maxRetries < attempt \<Longrightarrow> conditional_loop maxRetries delay shouldRetry c attempt cur w =
     Some ((fst cur, Some (retries_exhausted maxRetries (snd cur))), w)"
  by (simp_all add: retry_loop.simps backoff_loop.simps conditional_loop.simps)

section \<open>Scripted operations\<close>

record scripted = world +
  s_script :: "gores list"
  s_calls :: nat

text \<open>An operation that answers the next result of the script at once, and counts its calls.\<close>

definition script_invoker :: "scripted invoker" where
  "script_invoker x w = (case s_script w of
     [] \<Rightarrow> None
   | r # rs \<Rightarrow> Some (r, w\<lparr>s_script := rs, s_calls := Suc (s_calls w)\<rparr>))"

definition failures :: "gores list \<Rightarrow> bool" where
  "failures rs \<longleftrightarrow> list_all (\<lambda>r. snd r \<noteq> None) rs"

abbreviation script_ctx :: "Context \<Rightarrow> InterceptorInfo \<Rightarrow> scripted InterceptorCtx" where
  "script_ctx x nfo \<equiv> \<lparr>ic_ctx = x, ic_info = nfo, ic_invoker = script_invoker\<rparr>"

lemma world_fields [simp]:
  "w_now (Sleep d w) = w_now w + max 0 d" "w_now (Log l w) = w_now w"
  "w_log (Sleep d w) = w_log w" "w_log (Log l w) = w_log w @ [l]"
  "world.more (Sleep d w) = world.more w" "world.more (Log l w) = world.more w"
  by (simp_all add: Sleep_def Log_def)

lemma scripted_fields [simp]:
  "s_script (Sleep d w) = s_script w" "s_script (Log l w) = s_script w"
  "s_calls (Sleep d w) = s_calls w" "s_calls (Log l w) = s_calls w"
  by (simp_all add: Sleep_def Log_def)

section \<open>How often and when a retried operation runs\<close>

text \<open>
  After \<open>attempt\<close> failed attempts, with \<open>fs\<close> failures still to come and then \<open>r\<close>: the loop
  reaches \<open>r\<close> if the attempts last, having slept once before each further call.
\<close>

lemma retry_loop_reaches:
  assumes "unending x" "failures fs" "snd r = None" "s_script w = fs @ r # rest"
    and "attempt + int (length fs) \<le> maxRetries"
  shows "\<exists>w'. retry_loop maxRetries delay (script_ctx x nfo) attempt cur w = Some (r, w') \<and>
    s_script w' = rest \<and> s_calls w' = s_calls w + length fs + 1 \<and>
    w_now w' = w_now w + int (length fs) * max 0 delay"
  using assms(2,4,5)
proof (induction fs arbitrary: attempt cur w)
  case Nil
  then show ?case using assms(3)
    by (subst retry_loop.simps) (cases r, auto simp: Invoke_def script_invoker_def)
next
  case (Cons f fs)
  obtain v e where f: "f = (v, Some e)" using Cons.prems(1) by (cases f) (auto simp: failures_def)
  let ?w1 = "w\<lparr>s_script := fs @ r # rest, s_calls := Suc (s_calls w)\<rparr>"
  let ?w2 = "Sleep delay (Log (LogRetry (attempt + 1) (maxRetries + 1) (Operation nfo) e delay) ?w1)"
  have "retry_loop maxRetries delay (script_ctx x nfo) attempt cur w =
      retry_loop maxRetries delay (script_ctx x nfo) (attempt + 1) (v, Some e) ?w2"
    using Cons.prems(2,3) assms(1)
    by (subst retry_loop.simps) (simp add: Invoke_def script_invoker_def f)
  moreover have "failures fs" using Cons.prems(1) by (simp add: failures_def)
  moreover have "attempt + 1 + int (length fs) \<le> maxRetries" using Cons.prems(3) by simp
  ultimately show ?case
    using Cons.IH [of ?w2 "attempt + 1" "(v, Some e)"] by (fastforce simp: algebra_simps)
qed

text \<open>All attempts fail: the loop makes them all and wraps the last error.\<close>

lemma retry_loop_gives_up:
  assumes "unending x" "failures (fs @ [(v, Some e)])" "s_script w = fs @ (v, Some e) # rest"
    and "attempt + int (length fs) = maxRetries"
  shows "\<exists>w'. retry_loop maxRetries delay (script_ctx x nfo) attempt cur w =
      Some ((v, Some (retries_exhausted maxRetries (Some e))), w') \<and>
    s_script w' = rest \<and> s_calls w' = s_calls w + length fs + 1 \<and>
    w_now w' = w_now w + int (length fs) * max 0 delay"
  using assms(2-)
proof (induction fs arbitrary: attempt cur w)
  case Nil
  then show ?case using assms(1)
    by (subst retry_loop.simps) (simp add: Invoke_def script_invoker_def loops_done)
next
  case (Cons f fs)
  obtain v' e' where f: "f = (v', Some e')" using Cons.prems(1) by (cases f) (auto simp: failures_def)
  let ?w1 = "w\<lparr>s_script := fs @ (v, Some e) # rest, s_calls := Suc (s_calls w)\<rparr>"
  let ?w2 = "Sleep delay (Log (LogRetry (attempt + 1) (maxRetries + 1) (Operation nfo) e' delay) ?w1)"
  have "retry_loop maxRetries delay (script_ctx x nfo) attempt cur w =
      retry_loop maxRetries delay (script_ctx x nfo) (attempt + 1) (v', Some e') ?w2"
    using Cons.prems(2,3) assms(1)
    by (subst retry_loop.simps) (simp add: Invoke_def script_invoker_def f)
  moreover have "failures (fs @ [(v, Some e)])" using Cons.prems(1) by (simp add: failures_def)
  moreover have "attempt + 1 + int (length fs) = maxRetries" using Cons.prems(3) by simp
  ultimately show ?case
    using Cons.IH [of ?w2 "attempt + 1" "(v', Some e')"] by (fastforce simp: algebra_simps)
qed

section \<open>Backoff\<close>

text \<open>The delays slept before the second, third, ... attempt.\<close>

primrec backoff_delays :: "nat \<Rightarrow> int \<Rightarrow> int \<Rightarrow> int list" where
  "backoff_delays 0 maxDelay delay = []"
| "backoff_delays (Suc n) maxDelay delay = delay # backoff_delays n maxDelay (next_delay maxDelay delay)"

lemma next_delay_small:
  "0 \<le> d \<Longrightarrow> 2 * d < 2 ^ 63 \<Longrightarrow> next_delay m d = min m (2 * d)"
  by (simp add: next_delay_def Let_def wrap64_id min_def)

text \<open>Without wrap-around the delays are the doublings of the first, cut at the maximum.\<close>

lemma backoff_delays_nth:
  assumes "0 \<le> d" "d \<le> maxDelay" "2 * maxDelay < 2 ^ 63" "i < n"
  shows "backoff_delays n maxDelay d ! i = min maxDelay (2 ^ i * d)"
  using assms
proof (induction n arbitrary: d i)
  case (Suc n)
  have nd: "next_delay maxDelay d = min maxDelay (2 * d)" using Suc.prems by (intro next_delay_small) simp_all
  show ?case
  proof (cases i)
    case 0
    then show ?thesis using Suc.prems by simp
  next
    case (Suc j)
    have "backoff_delays n maxDelay (min maxDelay (2 * d)) ! j = min maxDelay (2 ^ j * min maxDelay (2 * d))"
      using Suc.prems Suc by (intro Suc.IH) auto
    moreover have "min maxDelay (2 ^ j * min maxDelay (2 * d)) = min maxDelay (2 ^ j * (2 * d))"
    proof (cases "2 * d \<le> maxDelay")
      case False
      have "1 * maxDelay \<le> 2 ^ j * maxDelay" using Suc.prems by (intro mult_right_mono) simp_all
      moreover have "2 ^ j * maxDelay \<le> 2 ^ j * (2 * d)" using False by (intro mult_left_mono) simp_all
      ultimately have "maxDelay \<le> 2 ^ j * (2 * d)" "maxDelay \<le> 2 ^ j * maxDelay" by linarith+
      then show ?thesis using False by (simp only: min_def if_True if_False split: if_splits) simp
    qed simp
    ultimately show ?thesis using Suc nd by (simp add: mult.assoc mult.left_commute)
  qed
qed simp

lemma backoff_loop_reaches:
  assumes "unending x" "failures fs" "snd r = None" "s_script w = fs @ r # rest"
    and "attempt + int (length fs) \<le> maxRetries"
  shows "\<exists>w'. backoff_loop maxRetries maxDelay (script_ctx x nfo) attempt delay cur w = Some (r, w') \<and>
    s_script w' = rest \<and> s_calls w' = s_calls w + length fs + 1 \<and>
    w_now w' = w_now w + sum_list (map (max 0) (backoff_delays (length fs) maxDelay delay))"
  using assms(2,4,5)
proof (induction fs arbitrary: attempt delay cur w)
  case Nil
  then show ?case using assms(3)
    by (subst backoff_loop.simps) (cases r, auto simp: Invoke_def script_invoker_def)
next
  case (Cons f fs)
  obtain v e where f: "f = (v, Some e)" using Cons.prems(1) by (cases f) (auto simp: failures_def)
  let ?w1 = "w\<lparr>s_script := fs @ r # rest, s_calls := Suc (s_calls w)\<rparr>"
  let ?w2 = "Sleep delay (Log (LogRetry (attempt + 1) (maxRetries + 1) (Operation nfo) e delay) ?w1)"
  have "backoff_loop maxRetries maxDelay (script_ctx x nfo) attempt delay cur w =
      backoff_loop maxRetries maxDelay (script_ctx x nfo) (attempt + 1) (next_delay maxDelay delay) (v, Some e) ?w2"
    using Cons.prems(2,3) assms(1)
    by (subst backoff_loop.simps) (simp add: Invoke_def script_invoker_def f)
  moreover have "failures fs" using Cons.prems(1) by (simp add: failures_def)
  moreover have "attempt + 1 + int (length fs) \<le> maxRetries" using Cons.prems(3) by simp
  ultimately show ?case
    using Cons.IH [of ?w2 "attempt + 1" "next_delay maxDelay delay" "(v, Some e)"]
    by (fastforce simp: algebra_simps)
qed

text \<open>An error the caller does not want retried is returned by the attempt that met it.\<close>

lemma conditional_stops:
  assumes "unending x" "0 \<le> maxRetries" "s_script w = (v, Some e) # rest" "\<not> shouldRetry e"
  shows "conditional_loop maxRetries delay shouldRetry (script_ctx x nfo) 0 cur w =
    Some ((v, Some e), w\<lparr>s_script := rest, s_calls := Suc (s_calls w)\<rparr>)"
  using assms by (subst conditional_loop.simps) (simp add: Invoke_def script_invoker_def)

text \<open>A condition that accepts every error makes the conditional retry the plain one.\<close>

lemma conditional_all: "conditional_loop maxRetries delay (\<lambda>_. True) c attempt cur w =
    retry_loop maxRetries delay c attempt cur w"
proof (induction maxRetries delay c attempt cur w rule: retry_loop.induct)
  case (1 maxRetries delay c attempt cur w)
  show ?case
    by (subst retry_loop.simps, subst conditional_loop.simps)
      (auto simp: 1 loops_done split: Option.bind_splits option.splits)
qed

section \<open>Properties\<close>

definition script_world :: "gores list \<Rightarrow> scripted" where
  "script_world rs = \<lparr>w_now = 0, w_log = [], w_collectors = (\<lambda>_. NewMetricsCollector), s_script = rs, s_calls = 0\<rparr>"

definition read_info :: InterceptorInfo where
  "read_info = \<lparr>Operation = OpReadWords, MemoryArea = 0x82, Address = 0, BitOffset = 0, Count = 1, Data = VNil\<rparr>"

text \<open>
  C38: the retry interceptor reaches a success.  If an operation fails at most \<open>maxRetries\<close> times
  and then succeeds, the caller gets that success, after exactly one call more than there were
  failures and one delay per failure.
\<close>

theorem retry_reaches_success:
  assumes "unending x" "failures fs" "snd r = None" "s_script w = fs @ r # rest" "int (length fs) \<le> maxRetries"
  shows "\<exists>w'. RetryInterceptor maxRetries delay (script_ctx x nfo) w = Some (r, w') \<and>
    s_script w' = rest \<and> s_calls w' = s_calls w + length fs + 1 \<and>
    w_now w' = w_now w + int (length fs) * max 0 delay"
  using retry_loop_reaches [OF assms(1-4), of 0 maxRetries] assms(5) by (simp add: RetryInterceptor_def)

theorem retry_reaches_success_witness:
  "\<exists>w'. RetryInterceptor 3 100 (script_ctx Background read_info)
      (script_world [(VNil, Some ClientClosedError), (VNil, Some ClientClosedError), (VWords [7], None)]) =
      Some ((VWords [7], None), w') \<and> s_calls w' = 3 \<and> w_now w' = 200"
  using retry_reaches_success [of Background "[(VNil, Some ClientClosedError), (VNil, Some ClientClosedError)]"
      "(VWords [7], None)" "script_world [(VNil, Some ClientClosedError), (VNil, Some ClientClosedError), (VWords [7], None)]"
      "[]" 3 100 read_info]
  by (auto simp: failures_def script_world_def)

text \<open>
  The retry interceptor gives up.  If all of the \<open>maxRetries + 1\<close> attempts fail, it makes them
  all, returns an error that wraps the last one, and leaves the rest of the script alone.
\<close>

lemma retry_gives_up:
  assumes "unending x" "failures (fs @ [(v, Some e)])" "s_script w = fs @ (v, Some e) # rest"
    and "int (length fs) = maxRetries"
  shows "\<exists>w'. RetryInterceptor maxRetries delay (script_ctx x nfo) w =
      Some ((v, Some (retries_exhausted maxRetries (Some e))), w') \<and>
    s_script w' = rest \<and> s_calls w' = s_calls w + length fs + 1"
  using retry_loop_gives_up [OF assms(1-3), of 0 maxRetries delay nfo "(VNil, None)"] assms(4)
  by (auto simp: RetryInterceptor_def)

lemma retry_gives_up_example:
  "\<exists>w'. RetryInterceptor 1 100 (script_ctx Background read_info)
      (script_world [(VNil, Some ClientClosedError), (VNil, Some (EndCodeError 1)), (VWords [7], None)]) =
      Some ((VNil, Some (retries_exhausted 1 (Some (EndCodeError 1)))), w') \<and> s_calls w' = 2"
  using retry_gives_up [of Background "[(VNil, Some ClientClosedError)]" VNil "EndCodeError 1"
      "script_world [(VNil, Some ClientClosedError), (VNil, Some (EndCodeError 1)), (VWords [7], None)]"
      "[(VWords [7], None)]" 1 100 read_info]
  by (auto simp: failures_def script_world_def)

text \<open>
  Exponential backoff.  With an initial delay of at most the maximum, the pauses before the
  successive retries are the initial delay doubled each time and cut at the maximum.
\<close>

lemma backoff_time:
  assumes "unending x" "failures fs" "snd r = None" "s_script w = fs @ r # rest" "int (length fs) \<le> maxRetries"
    and "0 \<le> d" "d \<le> maxDelay" "2 * maxDelay < 2 ^ 63"
  shows "\<exists>w'. RetryInterceptorWithBackoff maxRetries d maxDelay (script_ctx x nfo) w = Some (r, w') \<and>
    s_calls w' = s_calls w + length fs + 1 \<and>
    w_now w' = w_now w + (\<Sum>i\<leftarrow>[0..<length fs]. min maxDelay (2 ^ i * d))"
proof -
  have len: "length (backoff_delays n m k) = n" for n m k by (induction n arbitrary: k) simp_all
  have "backoff_delays (length fs) maxDelay d = map (\<lambda>i. min maxDelay (2 ^ i * d)) [0..<length fs]"
    by (intro nth_equalityI) (use assms(6-8) backoff_delays_nth len in simp_all)
  moreover have "max 0 (min maxDelay (2 ^ i * d)) = min maxDelay (2 ^ i * d)" for i
    using assms(6,7) by (simp add: max_def)
  ultimately show ?thesis
    using backoff_loop_reaches [OF assms(1-4), of 0 maxRetries maxDelay nfo d "(VNil, None)"] assms(5)
    by (auto simp: RetryInterceptorWithBackoff_def comp_def)
qed

lemma backoff_time_example:
  "\<exists>w'. RetryInterceptorWithBackoff 3 100 250 (script_ctx Background read_info)
      (script_world [(VNil, Some ClientClosedError), (VNil, Some ClientClosedError), (VNil, Some ClientClosedError), (VWords [7], None)]) =
      Some ((VWords [7], None), w') \<and> s_calls w' = 4 \<and> w_now w' = 100 + 200 + 250"
  using backoff_time [of Background "[(VNil, Some ClientClosedError), (VNil, Some ClientClosedError), (VNil, Some ClientClosedError)]"
      "(VWords [7], None)" "script_world [(VNil, Some ClientClosedError), (VNil, Some ClientClosedError), (VNil, Some ClientClosedError), (VWords [7], None)]"
      "[]" 3 100 250 read_info]
  by (auto simp: failures_def script_world_def upt_rec)

text \<open>
  The conditional retry is the plain one for a condition that accepts every error, whatever
  operation it is put around.
\<close>

lemma conditional_is_plain:
  "RetryInterceptorConditional maxRetries delay (\<lambda>_. True) c w = RetryInterceptor maxRetries delay c w"
  by (simp add: RetryInterceptorConditional_def RetryInterceptor_def conditional_all)

end
