(* ===== verification/Fins_Validation.thy ===== *)
theory Fins_Validation
  imports Fins_Interceptor
begin

text \<open>
  \<open>interceptor_validation.go\<close>: the interceptors that refuse operations.  Each is a verdict on
  the operation's description (an error, or none) in front of the operation; the contract they
  share is the locale \<open>guard\<close>.
\<close>

section \<open>Verdicts\<close>

text \<open>The string values of the operation types, as error messages show them.\<close>

fun op_name :: "OperationType \<Rightarrow> string" where
  "op_name OpReadWords = ''ReadWords''"
| "op_name OpReadBytes = ''ReadBytes''"
| "op_name OpReadString = ''ReadString''"
| "op_name OpReadBits = ''ReadBits''"
| "op_name OpReadClock = ''ReadClock''"
| "op_name OpWriteWords = ''WriteWords''"
| "op_name OpWriteBytes = ''WriteBytes''"
| "op_name OpWriteString = ''WriteString''"
| "op_name OpWriteBits = ''WriteBits''"
| "op_name OpSetBit = ''SetBit''"
| "op_name OpResetBit = ''ResetBit''"
| "op_name OpToggleBit = ''ToggleBit''"

text \<open>Go compares these strings; as they differ, comparing the constructors is the same.\<close>

lemma op_name_inj: "op_name a = op_name b \<longleftrightarrow> a = b"
proof -
  have "\<forall>a b. op_name a = op_name b \<longleftrightarrow> a = b" by code_simp
  then show ?thesis by blast
qed

definition validate_read :: "u16 \<Rightarrow> u16 \<Rightarrow> fins_error option" where
  "validate_read count limit =
     (if count = 0 then Some (Errorf ''invalid read count: 0'' [] None)
      else if count > limit
      then Some (Errorf ''read count too large: %d (max %d)'' [AInt (uint count), AInt (uint limit)] None)
      else None)"

definition validate_bytes :: "u16 \<Rightarrow> goval \<Rightarrow> fins_error option" where
  "validate_bytes maxWriteCount data =
     (case (case data of VBytes d \<Rightarrow> Some (length d) | VString d \<Rightarrow> Some (length d) | _ \<Rightarrow> None) of
        None \<Rightarrow> Some (Errorf ''invalid write data type'' [] None)
      | Some dataLen \<Rightarrow>
          if dataLen = 0 then Some (Errorf ''invalid write data: empty'' [] None)
          else if (of_nat dataLen :: u16) > maxWriteCount * 2
          then Some (Errorf ''write size too large: %d bytes (max %d)''
                      [AInt (int dataLen), AInt (uint (maxWriteCount * 2))] None)
          else None)"

text \<open>The limits \<open>maxReadCount*16\<close>, \<open>maxWriteCount*2\<close> and the lengths are \<open>uint16\<close>.\<close>

definition validate :: "u16 \<Rightarrow> u16 \<Rightarrow> InterceptorInfo \<Rightarrow> fins_error option" where
  "validate maxReadCount maxWriteCount nfo =
     (case Operation nfo of
        OpReadWords \<Rightarrow> validate_read (Count nfo) maxReadCount
      | OpReadBytes \<Rightarrow> validate_read (Count nfo) maxReadCount
      | OpReadString \<Rightarrow> validate_read (Count nfo) maxReadCount
      | OpReadBits \<Rightarrow> validate_read (Count nfo) (maxReadCount * 16)
      | OpWriteWords \<Rightarrow>
          (case Data nfo of
             VWords data \<Rightarrow>
               if length data = 0 then Some (Errorf ''invalid write data: empty slice'' [] None)
               else if (of_nat (length data) :: u16) > maxWriteCount
               then Some (Errorf ''write count too large: %d (max %d)''
                           [AInt (int (length data)), AInt (uint maxWriteCount)] None)
               else None
           | _ \<Rightarrow> Some (Errorf ''invalid write data type: expected []uint16'' [] None))
      | OpWriteBytes \<Rightarrow> validate_bytes maxWriteCount (Data nfo)
      | OpWriteString \<Rightarrow> validate_bytes maxWriteCount (Data nfo)
      | OpWriteBits \<Rightarrow>
          (case Data nfo of
             VBools data \<Rightarrow>
               if length data = 0 then Some (Errorf ''invalid write data: empty slice'' [] None)
               else if (of_nat (length data) :: u16) > maxWriteCount * 16
               then Some (Errorf ''write count too large: %d (max %d)''
                           [AInt (int (length data)), AInt (uint (maxWriteCount * 16))] None)
               else None
           | _ \<Rightarrow> Some (Errorf ''invalid write data type: expected []bool'' [] None))
      | _ \<Rightarrow> None)"

record addr_range =
  r_Min :: u16
  r_Max :: u16

definition range_verdict :: "(u8 \<rightharpoonup> addr_range) \<Rightarrow> InterceptorInfo \<Rightarrow> fins_error option" where
  "range_verdict allowedRanges nfo =
     (case allowedRanges (MemoryArea nfo) of
        None \<Rightarrow> Some (Errorf ''memory area 0x%02X is not allowed'' [AInt (uint (MemoryArea nfo))] None)
      | Some r \<Rightarrow>
          if Address nfo < r_Min r \<or> Address nfo > r_Max r
          then Some (Errorf ''address %d is outside allowed range [%d-%d] for area 0x%02X''
                      [AInt (uint (Address nfo)), AInt (uint (r_Min r)), AInt (uint (r_Max r)),
                       AInt (uint (MemoryArea nfo))] None)
          else if Count nfo > 0
          then (let endAddress = Address nfo + Count nfo - 1
                in if endAddress > r_Max r
                   then Some (Errorf ''operation would access address %d, which exceeds max %d''
                               [AInt (uint endAddress), AInt (uint (r_Max r))] None)
                   else None)
          else None)"

definition is_write :: "OperationType \<Rightarrow> bool" where
  "is_write op \<longleftrightarrow> op \<in> {OpWriteWords, OpWriteBytes, OpWriteString, OpWriteBits, OpSetBit, OpResetBit, OpToggleBit}"

definition read_only_verdict :: "InterceptorInfo \<Rightarrow> fins_error option" where
  "read_only_verdict nfo =
     (if is_write (Operation nfo)
      then Some (Errorf ''write operation %s is not allowed in read-only mode''
               [AStr (op_name (Operation nfo))] None) else None)"

section \<open>The interceptors\<close>

definition guarded :: "(InterceptorInfo \<Rightarrow> fins_error option) \<Rightarrow> 'w interceptor" where
  "guarded verdict c w =
     (case verdict (ic_info c) of Some e \<Rightarrow> Some ((VNil, Some e), w) | None \<Rightarrow> Invoke c None w)"

definition ValidationInterceptorWithLimits :: "u16 \<Rightarrow> u16 \<Rightarrow> 'w interceptor" where
  "ValidationInterceptorWithLimits maxReadCount maxWriteCount = guarded (validate maxReadCount maxWriteCount)"

definition ValidationInterceptor :: "'w interceptor" where
  "ValidationInterceptor = ValidationInterceptorWithLimits 1000 1000"

definition AddressRangeValidator :: "(u8 \<rightharpoonup> addr_range) \<Rightarrow> 'w interceptor" where
  "AddressRangeValidator allowedRanges = guarded (range_verdict allowedRanges)"

definition ReadOnlyInterceptor :: "'w interceptor" where
  "ReadOnlyInterceptor = guarded read_only_verdict"

section \<open>The contract of a guard\<close>

locale guard =
  fixes ic :: "'w interceptor"
    and verdict :: "InterceptorInfo \<Rightarrow> fins_error option"
  assumes refused: "verdict (ic_info c) = Some e \<Longrightarrow> ic c w = Some ((VNil, Some e), w)"
    and accepted: "verdict (ic_info c) = None \<Longrightarrow> ic c w = ic_invoker c (ic_ctx c) w"
begin

text \<open>The operation has an effect only if the verdict is favourable.\<close>

lemma effect_only_if_accepted:
  "ic c w = Some (r, w') \<Longrightarrow> w' \<noteq> w \<Longrightarrow> verdict (ic_info c) = None"
  using refused [of c _ w] by (cases "verdict (ic_info c)") auto

lemma chained_outside:
  assumes "verdict (ic_info c) = Some e"
  shows "the (ChainInterceptors [ic, j]) c w = Some ((VNil, Some e), w)"
  using assms by (simp add: refused)

text \<open>Inside another interceptor, a refusal is what the inner chain answers.\<close>

lemma chained_inside:
  assumes "verdict (ic_info c) = Some e"
  shows "the (ChainInterceptors [j, ic]) c = j (c\<lparr>ic_invoker := (\<lambda>_ w. Some ((VNil, Some e), w))\<rparr>)"
proof -
  have "(\<lambda>x. ic \<lparr>ic_ctx = x, ic_info = ic_info c, ic_invoker = ic_invoker c\<rparr>) =
      (\<lambda>_ w. Some ((VNil, Some e), w))"
    using assms by (intro ext refused) simp
  then show ?thesis by (cases c) simp
qed

end

locale two_guards = first: guard i v + second: guard j u
  for i :: "'w interceptor" and v and j :: "'w interceptor" and u
begin

text \<open>Two guards in a chain are one guard; the outer verdict counts first.\<close>

sublocale both: guard "the (ChainInterceptors [i, j])"
    "\<lambda>nfo. case v nfo of Some e \<Rightarrow> Some e | None \<Rightarrow> u nfo"
  by unfold_locales (auto simp: first.refused first.accepted second.refused second.accepted split: option.splits)

end

lemma guarded_guard: "guard (guarded v) v"
  by unfold_locales (simp_all add: guarded_def Invoke_def)

interpretation validation: guard "ValidationInterceptorWithLimits mr mw" "validate mr mw" for mr mw
  unfolding ValidationInterceptorWithLimits_def by (rule guarded_guard)

interpretation ranges: guard "AddressRangeValidator rs" "range_verdict rs" for rs
  unfolding AddressRangeValidator_def by (rule guarded_guard)

interpretation read_only: guard ReadOnlyInterceptor read_only_verdict
  unfolding ReadOnlyInterceptor_def by (rule guarded_guard)

interpretation validated_ranges: two_guards "ValidationInterceptorWithLimits mr mw" "validate mr mw"
    "AddressRangeValidator rs" "range_verdict rs" for mr mw rs ..

section \<open>What an accepted operation satisfies\<close>

lemma validate_read_accepts:
  "validate_read count limit = None \<longleftrightarrow> 1 \<le> unat count \<and> unat count \<le> unat limit"
  by (auto simp: validate_read_def word_less_nat_alt not_less Suc_le_eq unat_gt_0 split: if_splits)

text \<open>A read that the range validator accepts stays inside the range, unless its end wraps.\<close>

lemma range_verdict_reads:
  assumes "range_verdict rs nfo = None" "unat (Address nfo) + unat (Count nfo) \<le> 65536"
  shows "\<exists>r. rs (MemoryArea nfo) = Some r \<and> unat (r_Min r) \<le> unat (Address nfo) \<and>
    unat (Address nfo) + max 1 (unat (Count nfo)) - 1 \<le> unat (r_Max r)"
proof -
  obtain r where r: "rs (MemoryArea nfo) = Some r" "\<not> (Address nfo < r_Min r \<or> Address nfo > r_Max r)"
    and e: "Count nfo > 0 \<Longrightarrow> \<not> Address nfo + Count nfo - 1 > r_Max r"
    using assms(1) by (auto simp: range_verdict_def Let_def split: option.splits if_splits)
  show ?thesis
  proof (cases "Count nfo > 0")
    case False
    then have "Count nfo = 0" by (metis word_neq_0_conv)
    with r show ?thesis by (auto simp: word_less_nat_alt not_less)
  next
    case True
    have one: "unat (Count nfo - 1) = unat (Count nfo) - 1"
      using True by (intro unat_minus_one) auto
    have "unat (Address nfo + (Count nfo - 1)) = unat (Address nfo) + unat (Count nfo - 1)"
      using assms(2) one True by (intro unat_add_nowrap) (auto simp: word_less_nat_alt)
    then have "unat (Address nfo + Count nfo - 1) = unat (Address nfo) + unat (Count nfo - 1)"
      by (simp only: add_diff_eq)
    moreover have "0 < unat (Count nfo)" using True by (simp add: word_less_nat_alt)
    ultimately show ?thesis using r e [OF True] one by (auto simp: word_less_nat_alt not_less)
  qed
qed

section \<open>Properties\<close>

text \<open>
  The validator decides reads of words by their count alone: a count from 1 to the limit runs
  the operation unchanged, any other is refused with an error and the operation does not run.
\<close>

lemma validated_word_read:
  assumes "Operation (ic_info c) = OpReadWords"
  shows "if 1 \<le> unat (Count (ic_info c)) \<and> unat (Count (ic_info c)) \<le> unat mr
    then ValidationInterceptorWithLimits mr mw c w = ic_invoker c (ic_ctx c) w
    else \<exists>e. ValidationInterceptorWithLimits mr mw c w = Some ((VNil, Some e), w)"
proof -
  have v: "validate mr mw (ic_info c) = validate_read (Count (ic_info c)) mr" using assms by (simp add: validate_def)
  show ?thesis
  proof (cases "validate_read (Count (ic_info c)) mr")
    case None
    then show ?thesis using validation.accepted [of mr mw c w] v validate_read_accepts [of "Count (ic_info c)" mr] by simp
  next
    case (Some e)
    then have "\<not> (1 \<le> unat (Count (ic_info c)) \<and> unat (Count (ic_info c)) \<le> unat mr)"
      using validate_read_accepts [of "Count (ic_info c)" mr] by simp
    then show ?thesis using validation.refused [of mr mw c e w] v Some by auto
  qed
qed

definition word_read :: "u8 \<Rightarrow> u16 \<Rightarrow> u16 \<Rightarrow> InterceptorInfo" where
  "word_read area addr n = \<lparr>Operation = OpReadWords, MemoryArea = area, Address = addr, BitOffset = 0, Count = n, Data = VNil\<rparr>"

definition counted :: "InterceptorInfo \<Rightarrow> nat InterceptorCtx" where
  "counted nfo = \<lparr>ic_ctx = Background, ic_info = nfo, ic_invoker = (\<lambda>x n. Some ((VNil, None), Suc n))\<rparr>"

lemma validated_word_read_example:
  "ValidationInterceptor (counted (word_read 0x82 0 1000)) 0 = Some ((VNil, None), 1) \<and>
   (\<exists>e. ValidationInterceptor (counted (word_read 0x82 0 1001)) 0 = Some ((VNil, Some e), 0))"
  using validated_word_read [of "counted (word_read 0x82 0 1000)" 1000 1000 0]
    validated_word_read [of "counted (word_read 0x82 0 1001)" 1000 1000 0]
  by (simp add: ValidationInterceptor_def counted_def word_read_def)

text \<open>
  What the range validator lets through stays in range.  If an operation behind it had any
  effect, its area is configured and, unless its end passes address 65535, all its addresses lie
  within the area's bounds.
\<close>

lemma range_validator_safe:
  assumes "AddressRangeValidator rs c w = Some (r, w')" "w' \<noteq> w"
    and "unat (Address (ic_info c)) + unat (Count (ic_info c)) \<le> 65536"
  shows "\<exists>b. rs (MemoryArea (ic_info c)) = Some b \<and> unat (r_Min b) \<le> unat (Address (ic_info c)) \<and>
    unat (Address (ic_info c)) + max 1 (unat (Count (ic_info c))) - 1 \<le> unat (r_Max b)"
  using ranges.effect_only_if_accepted [OF assms(1,2)] assms(3) by (rule range_verdict_reads)

lemma range_validator_safe_example:
  "AddressRangeValidator [0x82 \<mapsto> \<lparr>r_Min = 100, r_Max = 199\<rparr>] (counted (word_read 0x82 150 50)) 0 = Some ((VNil, None), 1) \<and>
   (\<exists>b. [0x82 \<mapsto> \<lparr>r_Min = 100, r_Max = 199\<rparr>] (0x82 :: u8) = Some b \<and> 150 + 50 - 1 \<le> unat (r_Max b))"
proof -
  let ?c = "counted (word_read 0x82 150 50)" and ?rs = "[0x82 \<mapsto> \<lparr>r_Min = 100, r_Max = 199\<rparr>]"
  have run: "AddressRangeValidator ?rs ?c 0 = Some ((VNil, None), 1)"
    by (simp add: AddressRangeValidator_def guarded_def range_verdict_def counted_def word_read_def Invoke_def Let_def)
  then show ?thesis
    using range_validator_safe [OF run] by (simp add: counted_def word_read_def)
qed

text \<open>
  Read-only mode.  Put around any interceptor, the read-only interceptor answers every write,
  bit set, reset and toggle with an error before anything runs, and leaves every read to the rest.
\<close>

lemma read_only_blocks_writes:
  "if is_write (Operation (ic_info c))
   then \<exists>e. the (ChainInterceptors [ReadOnlyInterceptor, j]) c w = Some ((VNil, Some e), w)
   else the (ChainInterceptors [ReadOnlyInterceptor, j]) c w = j c w"
proof (cases "read_only_verdict (ic_info c)")
  case None
  then have "the (ChainInterceptors [ReadOnlyInterceptor, j]) c w =
      j \<lparr>ic_ctx = ic_ctx c, ic_info = ic_info c, ic_invoker = ic_invoker c\<rparr> w"
    by (simp add: read_only.accepted)
  moreover have "\<lparr>ic_ctx = ic_ctx c, ic_info = ic_info c, ic_invoker = ic_invoker c\<rparr> = c" by (cases c) simp
  ultimately show ?thesis using None by (simp add: read_only_verdict_def split: if_splits)
next
  case (Some e)
  then show ?thesis
    using read_only.chained_outside [OF Some] by (simp add: read_only_verdict_def split: if_splits)
qed

end
