(* ===== verification/Fins_Reconnect.thy ===== *)
theory Fins_Reconnect
  imports Fins_Client
begin

text \<open>
  Losing and regaining the connection: \<open>reconnect\<close>, the error branch of \<open>listenLoop\<close>, \<open>Close\<close>
  and \<open>Shutdown\<close> of \<open>client.go\<close>.
\<close>

section \<open>reconnect\<close>

text \<open>
  The loop depends on what other goroutines do to the client before its \<open>k\<close>-th turn
  (\<open>interfere k\<close>: a \<open>Close\<close>, a \<open>DisableAutoReconnect\<close>), on the outcome of its \<open>k\<close>-th dial and
  on the connect hooks.  Its result is the error, the client, the number of attempts, and the
  delays it slept.  With \<open>maxRetries = 0\<close> it may run forever, so it has fuel.
\<close>

record dialing =
  interfere :: "nat \<Rightarrow> Client \<Rightarrow> Client"
  dial :: "nat \<Rightarrow> fins_error option"
  hook :: "fins_error option"

text \<open>The pause before an attempt, and the delay for the next one.\<close>

definition pause :: "bool \<Rightarrow> int \<Rightarrow> int \<Rightarrow> int list \<times> int" where
  "pause backoff delay attempts =
     (if attempts > 1 \<and> delay > 0
      then ([delay], if backoff then (let d = wrap64 (delay * 2) in if d > MAX_RECONNECT_DELAY then MAX_RECONNECT_DELAY else d)
                     else delay)
      else ([], delay))"

definition established :: "Client \<Rightarrow> Client" where
  "established c = c\<lparr>cl_hasTransport := True, cl_connected := True, cl_listenErr := []\<rparr>"

fun reconnect_loop ::
    "nat \<Rightarrow> dialing \<Rightarrow> int \<Rightarrow> bool \<Rightarrow> int \<Rightarrow> nat \<Rightarrow> fins_error option \<Rightarrow> Client \<Rightarrow>
     (fins_error option \<times> Client \<times> nat \<times> int list) option" where
  "reconnect_loop 0 env maxRetries backoff delay attempts lastErr c = None"
| "reconnect_loop (Suc fuel) env maxRetries backoff delay attempts lastErr c0 =
     (let c = interfere env (Suc attempts) c0 in
      if cl_closed c then Some (Some (Errorf ''client closed during reconnection'' [] None), c, attempts, [])
      else if \<not> cl_autoReconnect c then Some (Some (Errorf ''auto-reconnect disabled'' [] None), c, attempts, [])
      else if maxRetries > 0 \<and> int attempts \<ge> maxRetries
      then Some (Some (Errorf ''max reconnection attempts (%d) reached: %w'' [AInt maxRetries] lastErr), c, attempts, [])
      else
        let n = Suc attempts; (slept, delay1) = pause backoff delay (int n); c1 = c\<lparr>cl_hasTransport := False\<rparr>
        in case dial env n of
            Some e \<Rightarrow> map_option (\<lambda>(r, c2, k, ds). (r, c2, k, slept @ ds))
                (reconnect_loop fuel env maxRetries backoff delay1 n (Some e) c1)
          | None \<Rightarrow> Some (map_option (\<lambda>e. Errorf ''plugin connect hook failed: %w'' [] (Some e)) (hook env),
                        established c1, n, slept))"

definition reconnect :: "nat \<Rightarrow> dialing \<Rightarrow> Client \<Rightarrow> (fins_error option \<times> Client \<times> nat \<times> int list) option" where
  "reconnect fuel env c =
     (if cl_reconnecting c then Some (Some (Errorf ''already reconnecting'' [] None), c, 0, [])
      else map_option (\<lambda>(r, c1, k, ds). (r, c1\<lparr>cl_reconnecting := False\<rparr>, k, ds))
        (reconnect_loop fuel env (cl_maxReconnect c) (cl_useReconnectBackoff c)
           (if cl_useReconnectBackoff c then cl_reconnectDelay c else 0) 0 None (c\<lparr>cl_reconnecting := True\<rparr>)))"

section \<open>The listen loop meets an error\<close>

text \<open>
  A send on the loop's error channel, of capacity 1 with nobody receiving: \<open>None\<close> is blocked.
\<close>

definition err_send :: "fins_error \<Rightarrow> fins_error list \<Rightarrow> fins_error list option" where
  "err_send e ch = (if length ch < 1 then Some (ch @ [e]) else None)"

text \<open>
  \<open>listen_fail\<close>: what \<open>listenLoop\<close> does with an error of \<open>Recv\<close>.  \<open>hookErr\<close> is the outcome of
  the disconnect hooks; \<open>ch\<close> is the channel the loop took at its start.  \<open>others\<close>: what other goroutines
  do to that channel and the client before the hooks' error is sent (0), between that and the test
  for reconnecting (1), and before the last error (2); \<open>triggerReconnect\<close> may put the error of its own
  hooks into the channel, \<open>Close\<close> may close the client.
\<close>

type_synonym others = "nat \<Rightarrow> fins_error list \<times> Client \<Rightarrow> fins_error list \<times> Client"

definition listen_fail ::
    "nat \<Rightarrow> dialing \<Rightarrow> others \<Rightarrow> fins_error option \<Rightarrow> fins_error \<Rightarrow> fins_error list \<Rightarrow> Client \<Rightarrow>
     (fins_error list \<times> Client) option" where
  "listen_fail fuel env others hookErr err ch c =
     (if cl_closed c then Some (ch, c)
      else do {
        let (ch0, c1) = others 0 (ch, c\<lparr>cl_connected := False\<rparr>);
        ch1 \<leftarrow> (case hookErr of Some e \<Rightarrow> err_send e ch0 | None \<Rightarrow> Some ch0);
        let (ch2, c2) = others 1 (ch1, c1);
        if cl_autoReconnect c2 \<and> \<not> cl_closed c2
        then do {
          (r, c3, k, ds) \<leftarrow> reconnect fuel env c2;
          let (ch3, c4) = others 2 (ch2, c3);
          (case r of
             None \<Rightarrow> Some (ch3, c4)
           | Some e \<Rightarrow> do {
               ch4 \<leftarrow> err_send (Errorf ''reconnection failed: %w (original error: %v)'' [] (Some e)) ch3;
               Some (ch4, c4) }) }
        else do {
          let (ch3, c3) = others 2 (ch2, c2);
          ch4 \<leftarrow> (if cl_closed c3 then Some ch3 else err_send (Errorf ''listen loop error: %w'' [] (Some err)) ch3);
          Some (ch4, c3) } })"

section \<open>Close\<close>

definition Client_Close :: "fins_error option \<Rightarrow> Client \<Rightarrow> Client \<times> fins_error option" where
  "Client_Close trErr c =
     (if cl_closed c then (c, None)
      else (c\<lparr>cl_closed := True\<rparr>, if cl_hasTransport c then trErr else None))"

definition Client_Shutdown :: "fins_error option \<Rightarrow> Client \<Rightarrow> Client \<times> fins_error option" where
  "Client_Shutdown trErr c = Client_Close trErr (DisableAutoReconnect c)"

section \<open>Attempts and delays\<close>

text \<open>Other goroutines that leave what the loop looks at alone.\<close>

definition undisturbed :: "dialing \<Rightarrow> bool" where
  "undisturbed env \<longleftrightarrow> (\<forall>k c. interfere env k c = c)"

text \<open>The delay before attempt \<open>n + 2\<close>, with backoff.\<close>

fun backoff_delay :: "int \<Rightarrow> nat \<Rightarrow> int" where
  "backoff_delay d 0 = d"
| "backoff_delay d (Suc n) = min (2 * backoff_delay d n) MAX_RECONNECT_DELAY"

lemma backoff_delay_closed:
  "0 \<le> d \<Longrightarrow> d \<le> MAX_RECONNECT_DELAY \<Longrightarrow> backoff_delay d n = min (d * 2 ^ n) MAX_RECONNECT_DELAY"
  by (induction n) auto

lemma backoff_delay_bounds:
  "0 < d \<Longrightarrow> d \<le> MAX_RECONNECT_DELAY \<Longrightarrow> 0 < backoff_delay d n \<and> backoff_delay d n \<le> MAX_RECONNECT_DELAY"
  by (induction n) auto

lemma pause_backoff:
  assumes "0 < d" "d \<le> MAX_RECONNECT_DELAY" "1 < n"
  shows "pause True d n = ([d], min (2 * d) MAX_RECONNECT_DELAY)"
proof -
  have "wrap64 (d * 2) = 2 * d" using assms by (subst wrap64_id) simp_all
  then show ?thesis using assms by (auto simp: pause_def Let_def)
qed

lemma pause_first: "pause b d 1 = ([], d)"
  by (simp add: pause_def)

text \<open>With a positive limit the loop always returns, after at most that many attempts.\<close>

lemma reconnect_loop_bounded:
  assumes "0 < m" "int a \<le> m" "nat m - a < fuel"
  shows "\<exists>r c' k ds. reconnect_loop fuel env m b d a le c = Some (r, c', k, ds) \<and>
    a \<le> k \<and> int k \<le> m \<and> length ds \<le> k - a"
  using assms
proof (induction fuel arbitrary: a d le c)
  case (Suc fuel)
  let ?c = "interfere env (Suc a) c"
  obtain slept d1 where p: "pause b d (int (Suc a)) = (slept, d1)" by (cases "pause b d (int (Suc a))")
  then have len: "length slept \<le> 1" by (auto simp: pause_def split: if_splits)
  show ?case
  proof (cases "cl_closed ?c \<or> \<not> cl_autoReconnect ?c \<or> int a \<ge> m")
    case True
    then show ?thesis using Suc.prems by (auto simp: Let_def)
  next
    case False
    show ?thesis
    proof (cases "dial env (Suc a)")
      case None
      then show ?thesis using False Suc.prems p len by (simp add: Let_def)
    next
      case (Some e)
      have "int (Suc a) \<le> m" "nat m - Suc a < fuel" using False Suc.prems by auto
      then obtain r c' k ds where
        "reconnect_loop fuel env m b d1 (Suc a) (Some e) (?c\<lparr>cl_hasTransport := False\<rparr>) = Some (r, c', k, ds)"
        "int k \<le> m" "length ds \<le> k - Suc a" "Suc a \<le> k"
        using Suc.IH [of "Suc a" d1 "Some e" "?c\<lparr>cl_hasTransport := False\<rparr>"] Suc.prems(1) by blast
      then show ?thesis using False Some p len by (auto simp: Let_def)
    qed
  qed
qed simp

text \<open>The delay in force after \<open>a\<close> attempts.\<close>

definition delay_after :: "int \<Rightarrow> nat \<Rightarrow> int" where
  "delay_after d a = (if a = 0 then d else backoff_delay d (a - 1))"

lemma pause_delay_after:
  assumes "0 < d" "d \<le> MAX_RECONNECT_DELAY"
  shows "pause True (delay_after d a) (int (Suc a)) =
    (if a = 0 then [] else [backoff_delay d (a - 1)], delay_after d (Suc a))"
proof (cases a)
  case 0
  then show ?thesis by (simp add: delay_after_def pause_def)
next
  case (Suc b)
  then show ?thesis
    using backoff_delay_bounds [OF assms, of b] pause_backoff [of "backoff_delay d b" "int (Suc a)"]
    by (simp add: delay_after_def)
qed

definition delays_between :: "int \<Rightarrow> nat \<Rightarrow> nat \<Rightarrow> int list" where
  "delays_between d a j = map (backoff_delay d) [a - 1 ..< j - 1]"

lemma delays_step:
  "Suc a < j \<Longrightarrow> (if a = 0 then [] else [backoff_delay d (a - 1)]) @ delays_between d (Suc a) j = delays_between d a j"
  by (cases a) (simp_all add: delays_between_def upt_conv_Cons)

lemma failing_turn:
  assumes "undisturbed env" "\<not> cl_closed c" "cl_autoReconnect c" "m \<le> 0 \<or> int a < m" "dial env (Suc a) = Some e"
    and "0 < d" "d \<le> MAX_RECONNECT_DELAY"
  shows "reconnect_loop (Suc fuel) env m True (delay_after d a) a le c =
    map_option (\<lambda>(r, c2, k, ds). (r, c2, k, (if a = 0 then [] else [backoff_delay d (a - 1)]) @ ds))
      (reconnect_loop fuel env m True (delay_after d (Suc a)) (Suc a) (Some e) (c\<lparr>cl_hasTransport := False\<rparr>))"
  using assms pause_delay_after [OF assms(6,7), of a] by (auto simp: undisturbed_def Let_def)

lemma reconnect_loop_reaches:
  assumes "undisturbed env" "\<not> cl_closed c" "cl_autoReconnect c" "m \<le> 0 \<or> int j \<le> m"
    and "0 < d" "d \<le> MAX_RECONNECT_DELAY" "a < j" "j - a \<le> fuel"
    and "\<forall>k. a < k \<and> k < j \<longrightarrow> dial env k \<noteq> None" "dial env j = None"
  shows "reconnect_loop fuel env m True (delay_after d a) a le c =
    Some (map_option (\<lambda>e. Errorf ''plugin connect hook failed: %w'' [] (Some e)) (hook env),
      established c, j, delays_between d a j)"
  using assms(2-)
proof (induction "j - a" arbitrary: a le c fuel)
  case (Suc n)
  then obtain f where f: "fuel = Suc f" by (cases fuel) auto
  show ?case
  proof (cases "Suc a = j")
    case True
    then show ?thesis
      using Suc.prems assms(1) f pause_delay_after [of d a]
      by (cases a) (auto simp: undisturbed_def Let_def established_def delays_between_def)
  next
    case False
    then obtain e where e: "dial env (Suc a) = Some e" using Suc.prems(6,8) by fastforce
    have "reconnect_loop f env m True (delay_after d (Suc a)) (Suc a) (Some e) (c\<lparr>cl_hasTransport := False\<rparr>) =
      Some (map_option (\<lambda>e. Errorf ''plugin connect hook failed: %w'' [] (Some e)) (hook env),
        established c, j, delays_between d (Suc a) j)"
      using Suc.hyps(1) [of "Suc a" "c\<lparr>cl_hasTransport := False\<rparr>" f "Some e"] Suc.hyps(2) Suc.prems False f
      by (simp add: established_def)
    then show ?thesis
      using failing_turn [OF assms(1) Suc.prems(1,2) _ e Suc.prems(4,5), of m f le] Suc.prems(3,6) False f
        delays_step [of a j d] by auto
  qed
qed simp

lemma reconnect_loop_gives_up:
  assumes "undisturbed env" "\<not> cl_closed c" "cl_autoReconnect c" "m = int n" "0 < n"
    and "0 < d" "d \<le> MAX_RECONNECT_DELAY" "a < n" "n - a < fuel"
    and "\<forall>k. a < k \<and> k \<le> n \<longrightarrow> dial env k \<noteq> None"
  shows "reconnect_loop fuel env m True (delay_after d a) a le c =
    Some (Some (Errorf ''max reconnection attempts (%d) reached: %w'' [AInt m] (dial env n)),
      c\<lparr>cl_hasTransport := False\<rparr>, n, delays_between d a n)"
  using assms(2-)
proof (induction "n - a" arbitrary: a le c fuel)
  case (Suc i)
  then obtain f where f: "fuel = Suc f" by (cases fuel) auto
  obtain e where e: "dial env (Suc a) = Some e" using Suc.prems(7,9) by fastforce
  note turn = failing_turn [OF assms(1) Suc.prems(1,2) _ e Suc.prems(5,6), of m f le]
  show ?case
  proof (cases "Suc a = n")
    case True
    then obtain f' where "f = Suc f'" using Suc.prems(8) f by (cases f) auto
    then have "reconnect_loop f env m True (delay_after d n) n (Some e) (c\<lparr>cl_hasTransport := False\<rparr>) =
      Some (Some (Errorf ''max reconnection attempts (%d) reached: %w'' [AInt m] (Some e)),
        c\<lparr>cl_hasTransport := False\<rparr>, n, [])"
      using assms(1) Suc.prems(1-4) by (simp add: undisturbed_def Let_def)
    then show ?thesis
      using turn True e f Suc.prems(3) by (cases a) (auto simp: delays_between_def)
  next
    case False
    have "reconnect_loop f env m True (delay_after d (Suc a)) (Suc a) (Some e) (c\<lparr>cl_hasTransport := False\<rparr>) =
      Some (Some (Errorf ''max reconnection attempts (%d) reached: %w'' [AInt m] (dial env n)),
        c\<lparr>cl_hasTransport := False\<rparr>, n, delays_between d (Suc a) n)"
      using Suc.hyps(1) [of "Suc a" "c\<lparr>cl_hasTransport := False\<rparr>" f "Some e"] Suc.hyps(2) Suc.prems False f
      by simp
    then show ?thesis
      using turn Suc.prems(3,7) False f delays_step [of a n d] by auto
  qed
qed simp

section \<open>Properties\<close>

text \<open>
  C33: with a positive limit \<open>reconnect\<close> returns, whatever the network and the other goroutines do:
  it dials at most that many times, sleeps less often than it dials, and leaves the client not
  reconnecting.
\<close>

theorem reconnect_terminates:
  assumes "0 < cl_maxReconnect c" "\<not> cl_reconnecting c" "nat (cl_maxReconnect c) < fuel"
  shows "\<exists>r c' k ds. reconnect fuel env c = Some (r, c', k, ds) \<and> int k \<le> cl_maxReconnect c \<and>
    length ds \<le> k \<and> \<not> cl_reconnecting c'"
proof -
  obtain r c' k ds where "reconnect_loop fuel env (cl_maxReconnect c) (cl_useReconnectBackoff c)
      (if cl_useReconnectBackoff c then cl_reconnectDelay c else 0) 0 None (c\<lparr>cl_reconnecting := True\<rparr>) =
      Some (r, c', k, ds)" "int k \<le> cl_maxReconnect c" "length ds \<le> k"
    using reconnect_loop_bounded [of "cl_maxReconnect c" 0 fuel] assms by fastforce
  then show ?thesis using assms(2) by (auto simp: reconnect_def)
qed

definition lost :: Client where
  "lost = (EnableAutoReconnect 3 1000000000 (freshClient transportUDP \<lparr>Network = 0, Node = 1, Unit = 0\<rparr>
     \<lparr>Network = 0, Node = 2, Unit = 0\<rparr> False))\<lparr>cl_connected := False\<rparr>"

lemmas lost_defs = lost_def EnableAutoReconnect_def freshClient_def

definition dials :: "(nat \<Rightarrow> fins_error option) \<Rightarrow> dialing" where
  "dials f = \<lparr>interfere = (\<lambda>k c. c), dial = f, hook = None\<rparr>"

theorem reconnect_terminates_witness:
  "\<exists>r c' k ds. reconnect 4 (dials (\<lambda>_. Some ClientClosedError)) lost = Some (r, c', k, ds) \<and> int k \<le> 3"
  using reconnect_terminates [of lost 4 "dials (\<lambda>_. Some ClientClosedError)"] by (auto simp: lost_defs)

text \<open>
  C34: how \<open>reconnect\<close> gets back.  If nobody closes the client or disables it, the limit allows \<open>j\<close>
  attempts and the \<open>j\<close>-th dial is the first to succeed, then the client ends up connected after
  exactly \<open>j\<close> attempts, having slept the initial delay, doubled each time and cut at thirty
  seconds, before every attempt but the first.
\<close>

theorem reconnect_reaches:
  assumes "undisturbed env" "\<not> cl_closed c" "cl_autoReconnect c" "\<not> cl_reconnecting c" "cl_useReconnectBackoff c"
    and "cl_maxReconnect c \<le> 0 \<or> int j \<le> cl_maxReconnect c"
    and "0 < cl_reconnectDelay c" "cl_reconnectDelay c \<le> MAX_RECONNECT_DELAY" "0 < j" "j \<le> fuel"
    and "\<forall>k. 0 < k \<and> k < j \<longrightarrow> dial env k \<noteq> None" "dial env j = None" "hook env = None"
  shows "reconnect fuel env c = Some (None, established c, j,
    map (\<lambda>i. min (cl_reconnectDelay c * 2 ^ i) MAX_RECONNECT_DELAY) [0..<j - 1])"
proof -
  let ?c = "c\<lparr>cl_reconnecting := True\<rparr>"
  have l: "reconnect_loop fuel env (cl_maxReconnect c) True (delay_after (cl_reconnectDelay c) 0) 0 None ?c =
      Some (None, established ?c, j, delays_between (cl_reconnectDelay c) 0 j)"
    using reconnect_loop_reaches [OF assms(1), of ?c "cl_maxReconnect c" j "cl_reconnectDelay c" 0 fuel None] assms by simp
  have "delays_between (cl_reconnectDelay c) 0 j =
      map (\<lambda>i. min (cl_reconnectDelay c * 2 ^ i) MAX_RECONNECT_DELAY) [0..<j - 1]"
    unfolding delays_between_def using assms(7,8) by (intro map_cong) (simp_all add: backoff_delay_closed)
  with l show ?thesis
    using assms(4,5) by (simp add: reconnect_def delay_after_def established_def)
qed

theorem reconnect_reaches_witness:
  "reconnect 5 (dials (\<lambda>k. if k < 3 then Some ClientClosedError else None)) lost =
     Some (None, established lost, 3, [1000000000, 2000000000])"
  using reconnect_reaches [of "dials (\<lambda>k. if k < 3 then Some ClientClosedError else None)" lost 3 5]
  by (simp add: lost_defs dials_def undisturbed_def upt_rec)

text \<open>
  C35: when every dial fails, \<open>reconnect\<close> gives up after the limit: it returns the last dial's error,
  and the client has no transport, is not connected, and does not reconnect, although
  auto-reconnect is still enabled.
\<close>

theorem reconnect_gives_up:
  assumes "undisturbed env" "\<not> cl_closed c" "cl_autoReconnect c" "\<not> cl_reconnecting c" "cl_useReconnectBackoff c"
    and "cl_maxReconnect c = int n" "0 < n" "0 < cl_reconnectDelay c" "cl_reconnectDelay c \<le> MAX_RECONNECT_DELAY"
    and "n < fuel" "\<forall>k. 0 < k \<and> k \<le> n \<longrightarrow> dial env k \<noteq> None"
  shows "\<exists>ds. reconnect fuel env c =
    Some (Some (Errorf ''max reconnection attempts (%d) reached: %w'' [AInt (int n)] (dial env n)),
      c\<lparr>cl_hasTransport := False\<rparr>, n, ds) \<and> length ds = n - 1"
proof -
  let ?c = "c\<lparr>cl_reconnecting := True\<rparr>"
  have "reconnect_loop fuel env (cl_maxReconnect c) True (delay_after (cl_reconnectDelay c) 0) 0 None ?c =
    Some (Some (Errorf ''max reconnection attempts (%d) reached: %w'' [AInt (cl_maxReconnect c)] (dial env n)),
      ?c\<lparr>cl_hasTransport := False\<rparr>, n, delays_between (cl_reconnectDelay c) 0 n)"
    using assms by (intro reconnect_loop_gives_up [OF assms(1)]) simp_all
  then show ?thesis
    using assms(4-6) by (simp add: reconnect_def delay_after_def delays_between_def)
qed

theorem reconnect_gives_up_witness:
  "\<exists>ds. reconnect 4 (dials (\<lambda>_. Some ClientClosedError)) lost =
     Some (Some (Errorf ''max reconnection attempts (%d) reached: %w'' [AInt 3] (Some ClientClosedError)),
       lost\<lparr>cl_hasTransport := False\<rparr>, 3, ds) \<and> length ds = 2"
  using reconnect_gives_up [of "dials (\<lambda>_. Some ClientClosedError)" lost 3 4]
  by (simp add: lost_defs dials_def undisturbed_def)

end
