(* ===== verification/Fins_Plugin.thy ===== *)
theory Fins_Plugin
  imports Fins_Const
begin

text \<open>
  \<open>plugin.go\<close>: the plugin manager.  A plugin is its name, its \<open>Initialize\<close> and, for a
  connection plugin, its two hooks; each acts on the client (type \<open>'c\<close>) and returns an error or
  none.  Hooks that call back into \<open>Use\<close> are not modelled.
\<close>

record 'c Plugin =
  Name :: string
  Initialize :: "'c \<Rightarrow> fins_error option \<times> 'c"
  hooks :: "(('c \<Rightarrow> fins_error option \<times> 'c) \<times> ('c \<Rightarrow> fins_error option \<Rightarrow> fins_error option \<times> 'c)) option"

text \<open>A name that is only reserved maps to a nil plugin, \<open>None\<close>.\<close>

record 'c pluginManager =
  plugins :: "string \<rightharpoonup> 'c Plugin option"
  order :: "'c Plugin list"

definition no_plugins :: "'c pluginManager" where
  "no_plugins = \<lparr>plugins = Map.empty, order = []\<rparr>"

section \<open>Registration\<close>

text \<open>One turn of the loop of \<open>use\<close>.\<close>

definition use_one ::
    "('c \<Rightarrow> bool) \<Rightarrow> 'c Plugin option \<Rightarrow> 'c pluginManager \<Rightarrow> 'c \<Rightarrow>
     fins_error option \<times> 'c pluginManager \<times> 'c" where
  "use_one isConnected plugin pm c =
     (case plugin of
        None \<Rightarrow> (Some (Errorf ''plugin is nil'' [] None), pm, c)
      | Some p \<Rightarrow>
          if Name p = '''' then (Some (Errorf ''plugin name cannot be empty'' [] None), pm, c)
          else if plugins pm (Name p) \<noteq> None
          then (Some (Errorf ''plugin %s already registered'' [AStr (Name p)] None), pm, c)
          else
            let pm1 = pm\<lparr>plugins := (plugins pm)(Name p \<mapsto> None)\<rparr>;
                (ierr, c1) = Initialize p c
            in case ierr of
              Some e \<Rightarrow> (Some (Errorf ''initialize plugin %s: %w'' [AStr (Name p)] (Some e)),
                         pm1\<lparr>plugins := (plugins pm1)(Name p := None)\<rparr>, c1)
            | None \<Rightarrow>
                let pm2 = pm1\<lparr>plugins := (plugins pm1)(Name p \<mapsto> Some p), order := order pm1 @ [p]\<rparr>
                in case hooks p of
                  None \<Rightarrow> (None, pm2, c1)
                | Some (onConn, onDisc) \<Rightarrow>
                    if isConnected c1
                    then (let (cerr, c2) = onConn c1
                          in case cerr of
                            Some e \<Rightarrow> (Some (Errorf ''plugin %s OnConnected: %w'' [AStr (Name p)] (Some e)),
                              pm2\<lparr>plugins := (plugins pm2)(Name p := None), order := butlast (order pm2)\<rparr>, c2)
                          | None \<Rightarrow> (None, pm2, c2))
                    else (None, pm2, c1))"

fun use ::
    "('c \<Rightarrow> bool) \<Rightarrow> 'c Plugin option list \<Rightarrow> 'c pluginManager \<Rightarrow> 'c \<Rightarrow>
     fins_error option \<times> 'c pluginManager \<times> 'c" where
  "use isConnected [] pm c = (None, pm, c)"
| "use isConnected (p # ps) pm c =
     (case use_one isConnected p pm c of
        (Some e, pm1, c1) \<Rightarrow> (Some e, pm1, c1)
      | (None, pm1, c1) \<Rightarrow> use isConnected ps pm1 c1)"

section \<open>Notification\<close>

fun notify_connected :: "'c Plugin list \<Rightarrow> 'c \<Rightarrow> fins_error option \<times> 'c" where
  "notify_connected [] c = (None, c)"
| "notify_connected (p # ps) c =
     (case hooks p of
        None \<Rightarrow> notify_connected ps c
      | Some (onConn, onDisc) \<Rightarrow>
          (case onConn c of
             (Some e, c1) \<Rightarrow> (Some (Errorf ''plugin %s OnConnected: %w'' [AStr (Name p)] (Some e)), c1)
           | (None, c1) \<Rightarrow> notify_connected ps c1))"

definition notifyConnected :: "'c pluginManager \<Rightarrow> 'c \<Rightarrow> fins_error option \<times> 'c" where
  "notifyConnected pm c = notify_connected (order pm) c"

fun notify_disconnected :: "'c Plugin list \<Rightarrow> fins_error option \<Rightarrow> 'c \<Rightarrow> fins_error option \<times> 'c" where
  "notify_disconnected [] err c = (None, c)"
| "notify_disconnected (p # ps) err c =
     (case hooks p of
        None \<Rightarrow> notify_disconnected ps err c
      | Some (onConn, onDisc) \<Rightarrow>
          (case onDisc c err of
             (Some e, c1) \<Rightarrow> (Some (Errorf ''plugin %s OnDisconnected: %w'' [AStr (Name p)] (Some e)), c1)
           | (None, c1) \<Rightarrow> notify_disconnected ps err c1))"

definition notifyDisconnected :: "'c pluginManager \<Rightarrow> fins_error option \<Rightarrow> 'c \<Rightarrow> fins_error option \<times> 'c" where
  "notifyDisconnected pm err c = notify_disconnected (order pm) err c"

section \<open>The registry's invariant\<close>

text \<open>
  The map and the order hold the same plugins, each under its own non-empty name, and no name is
  left reserved.
\<close>

definition pm_inv :: "'c pluginManager \<Rightarrow> bool" where
  "pm_inv pm \<longleftrightarrow>
     distinct (map Name (order pm)) \<and> '''' \<notin> set (map Name (order pm)) \<and>
     dom (plugins pm) = set (map Name (order pm)) \<and>
     (\<forall>p \<in> set (order pm). plugins pm (Name p) = Some (Some p))"

lemma pm_inv_empty: "pm_inv no_plugins"
  by (simp add: pm_inv_def no_plugins_def)

lemma pm_inv_add:
  assumes "pm_inv pm" "plugins pm (Name p) = None" "Name p \<noteq> ''''"
  shows "pm_inv (pm\<lparr>plugins := (plugins pm)(Name p \<mapsto> Some p), order := order pm @ [p]\<rparr>)"
  using assms by (auto simp: pm_inv_def)

lemma fun_upd_restore: "m k = None \<Longrightarrow> m(k := None) = m"
  by (auto simp: fun_eq_iff)

text \<open>One registration either adds the plugin at the end or leaves the registry as it was.\<close>

lemma use_one_effect:
  "use_one isC plugin pm c = (r, pm', c') \<Longrightarrow>
   (case r of
      Some e \<Rightarrow> pm' = pm
    | None \<Rightarrow> (\<exists>p. plugin = Some p \<and> Name p \<noteq> '''' \<and> plugins pm (Name p) = None \<and>
        pm' = pm\<lparr>plugins := (plugins pm)(Name p \<mapsto> Some p), order := order pm @ [p]\<rparr>))"
  by (auto simp: use_one_def Let_def fun_upd_restore split: option.splits if_splits prod.splits)

lemma use_effect:
  assumes "use isC ps pm c = (r, pm', c')" "pm_inv pm"
  shows "pm_inv pm' \<and> (\<exists>added. order pm' = order pm @ added \<and> map Some added = take (length added) ps \<and>
    (r = None \<longrightarrow> length added = length ps))"
  using assms
proof (induction ps arbitrary: pm c)
  case Nil
  then show ?case by simp
next
  case (Cons p ps)
  obtain r1 pm1 c1 where one: "use_one isC p pm c = (r1, pm1, c1)" by (metis prod_cases3)
  show ?case
  proof (cases r1)
    case (Some e)
    with Cons.prems one use_one_effect [OF one] show ?thesis by auto
  next
    case None
    then obtain q where q: "p = Some q" "Name q \<noteq> ''''" "plugins pm (Name q) = None"
      "pm1 = pm\<lparr>plugins := (plugins pm)(Name q \<mapsto> Some q), order := order pm @ [q]\<rparr>"
      using use_one_effect [OF one] by auto
    have "pm_inv pm1" unfolding q(4) using Cons.prems(2) q(3,2) by (rule pm_inv_add)
    moreover have "use isC ps pm1 c1 = (r, pm', c')" using Cons.prems(1) one None by simp
    ultimately obtain added where d: "pm_inv pm'" "order pm' = order pm1 @ added"
      "map Some added = take (length added) ps" "r = None \<longrightarrow> length added = length ps"
      using Cons.IH by blast
    then have "order pm' = order pm @ q # added" "map Some (q # added) = take (length (q # added)) (p # ps)"
      using q by simp_all
    with d show ?thesis by (metis length_Cons)
  qed
qed

section \<open>Properties\<close>

text \<open>
  Registering plugins keeps the registry consistent.  From a consistent registry, \<open>Use\<close> ends
  in a consistent one whose order is the old order followed by the first of the given plugins; an
  error means that the rest, from the failing one on, left no trace, and without one all are in.
\<close>

lemma use_keeps_registry:
  assumes "use isC ps pm c = (r, pm', c')" "pm_inv pm"
  shows "pm_inv pm' \<and> (\<exists>added. order pm' = order pm @ added \<and> map Some added = take (length added) ps \<and>
    (r = None \<longrightarrow> length added = length ps))"
  using use_effect [OF assms] by blast

definition quiet_plugin :: "string \<Rightarrow> nat Plugin" where
  "quiet_plugin n = \<lparr>Name = n, Initialize = (\<lambda>c. (None, Suc c)), hooks = None\<rparr>"

lemma use_keeps_registry_example:
  "\<exists>r pm'. use (\<lambda>_. True) [Some (quiet_plugin ''a''), Some (quiet_plugin ''a'')] no_plugins 0 = (r, pm', 1) \<and>
     r \<noteq> None \<and> pm_inv pm' \<and> length (order pm') = 1"
proof -
  obtain r pm' where u: "use (\<lambda>_. True) [Some (quiet_plugin ''a''), Some (quiet_plugin ''a'')] no_plugins 0 = (r, pm', 1)"
    and r: "r \<noteq> None" "length (order pm') = 1"
    by (simp add: use_one_def quiet_plugin_def no_plugins_def Let_def)
  show ?thesis using u r use_keeps_registry [OF u pm_inv_empty] by blast
qed

end
