(* ===== verification/Fins_Inline.thy ===== *)
theory Fins_Inline
  imports Fins_Api
begin

text \<open>
  \<open>inline_client.go\<close>: the client that works on a simulator's memory without a transport.  The
  world is extended with the server; the client is its byte order and its interceptor.  An
  invoker that returns a value of the wrong type makes the operation's type assertion panic.
\<close>

section \<open>State\<close>

record inline_world = world +
  w_srv :: Server

record 'w InlineClient =
  il_byteOrder :: byteOrder
  il_interceptor :: "'w interceptor option"

definition InlineClientOf :: "'w InlineClient" where
  "InlineClientOf = \<lparr>il_byteOrder = BigEndian, il_interceptor = None\<rparr>"

text \<open>\<open>SetByteOrder\<close> ignores a nil order.\<close>

definition Inline_SetByteOrder :: "byteOrder option \<Rightarrow> 'w InlineClient \<Rightarrow> 'w InlineClient" where
  "Inline_SetByteOrder o' ic = (case o' of Some bo \<Rightarrow> ic\<lparr>il_byteOrder := bo\<rparr> | None \<Rightarrow> ic)"

definition Inline_SetInterceptor :: "'w interceptor option \<Rightarrow> 'w InlineClient \<Rightarrow> 'w InlineClient" where
  "Inline_SetInterceptor i ic = ic\<lparr>il_interceptor := i\<rparr>"

definition Inline_Use :: fins_error where
  "Inline_Use = Errorf ''plugins are not supported by InlineClient; use SetInterceptor instead'' [] None"

definition Inline_IsClosed :: "'a inline_world_scheme \<Rightarrow> bool" where
  "Inline_IsClosed w = IsClosed (w_srv w)"

section \<open>Calling the server\<close>

text \<open>\<open>check\<close>, in a context that is not nil; with a nil context the code skips the first test.\<close>

definition inline_check :: "Context \<Rightarrow> 'a inline_world_scheme \<Rightarrow> fins_error option" where
  "inline_check x w =
     (case ctx_Err x (w_now w) of
        Some e \<Rightarrow> Some e
      | None \<Rightarrow> if IsClosed (w_srv w) then Some ClientClosedError else None)"

text \<open>How every invoker but the clock's starts: the check, then the area.\<close>

definition inline_guard ::
    "(u8 \<Rightarrow> bool) \<Rightarrow> u8 \<Rightarrow> ('a inline_world_scheme \<Rightarrow> (gores \<times> 'a inline_world_scheme) option) \<Rightarrow>
     ('a inline_world_scheme) invoker" where
  "inline_guard okArea area body x w =
     (case inline_check x w of
        Some e \<Rightarrow> Some ((VNil, Some e), w)
      | None \<Rightarrow> if \<not> okArea area then Some ((VNil, Some (IncompatibleMemoryAreaError area)), w)
                else body w)"

definition end_code_result :: "u16 \<Rightarrow> gores" where
  "end_code_result ec = (VNil, if ec \<noteq> EndCodeNormalCompletion then Some (EndCodeError ec) else None)"

definition put_srv :: "Server \<Rightarrow> 'a inline_world_scheme \<Rightarrow> 'a inline_world_scheme" where
  "put_srv s w = w\<lparr>w_srv := s\<rparr>"

definition Inline_invoke ::
    "('a inline_world_scheme) InlineClient \<Rightarrow> Context \<Rightarrow> InterceptorInfo \<Rightarrow> ('a inline_world_scheme) invoker \<Rightarrow>
     'a inline_world_scheme \<Rightarrow> (gores \<times> 'a inline_world_scheme) option" where
  "Inline_invoke ic = invoke_with (il_interceptor ic)"

section \<open>Reading\<close>

definition Inline_ReadWords ::
    "('a inline_world_scheme) InlineClient \<Rightarrow> Context \<Rightarrow> ('a inline_world_scheme) word_reader" where
  "Inline_ReadWords ic x area addr n w = do {
     (r, w1) \<leftarrow> Inline_invoke ic x
       \<lparr>Operation = OpReadWords, MemoryArea = area, Address = addr, BitOffset = 0, Count = n, Data = VNil\<rparr>
       (inline_guard checkIsWordMemoryArea area (\<lambda>w. do {
          (raw, ec) \<leftarrow> readWords (w_srv w) area addr n;
          if ec \<noteq> EndCodeNormalCompletion then Some (end_code_result ec, w)
          else do { ws \<leftarrow> get_words (il_byteOrder ic) (sl_make raw) (unat n); Some ((VWords ws, None), w) } })) w;
     v \<leftarrow> assert_words r;
     Some (v, w1) }"

definition Inline_ReadBytes ::
    "('a inline_world_scheme) InlineClient \<Rightarrow> Context \<Rightarrow> u8 \<Rightarrow> u16 \<Rightarrow> u16 \<Rightarrow> 'a inline_world_scheme \<Rightarrow>
     ((fins_error + u8 list) \<times> 'a inline_world_scheme) option" where
  "Inline_ReadBytes ic x area addr n w = do {
     (r, w1) \<leftarrow> Inline_invoke ic x
       \<lparr>Operation = OpReadBytes, MemoryArea = area, Address = addr, BitOffset = 0, Count = n, Data = VNil\<rparr>
       (inline_guard checkIsWordMemoryArea area (\<lambda>w. do {
          (raw, ec) \<leftarrow> readWords (w_srv w) area addr n;
          Some (if ec \<noteq> EndCodeNormalCompletion then end_code_result ec else (VBytes raw, None), w) })) w;
     v \<leftarrow> assert_bytes r;
     Some (v, w1) }"

definition Inline_ReadString ::
    "('a inline_world_scheme) InlineClient \<Rightarrow> Context \<Rightarrow> u8 \<Rightarrow> u16 \<Rightarrow> u16 \<Rightarrow> 'a inline_world_scheme \<Rightarrow>
     ((fins_error + u8 list) \<times> 'a inline_world_scheme) option" where
  "Inline_ReadString ic x area addr n w =
     map_option (\<lambda>(v, w1). (map_sum id cut_string v, w1)) (Inline_ReadBytes ic x area addr n w)"

text \<open>
  \<open>bools := make([]bool, readCount); for i := range raw { bools[i] = ... }\<close> panics when \<open>raw\<close>
  is longer than \<open>readCount\<close>, and leaves the rest false when it is shorter.
\<close>

definition inline_bools :: "u8 list \<Rightarrow> nat \<Rightarrow> bool list option" where
  "inline_bools raw n =
     (if length raw \<le> n then Some (map byte_bool raw @ replicate (n - length raw) False) else None)"

definition Inline_ReadBits ::
    "('a inline_world_scheme) InlineClient \<Rightarrow> Context \<Rightarrow> ('a inline_world_scheme) bit_reader" where
  "Inline_ReadBits ic x area addr off n w = do {
     (r, w1) \<leftarrow> Inline_invoke ic x
       \<lparr>Operation = OpReadBits, MemoryArea = area, Address = addr, BitOffset = off, Count = n, Data = VNil\<rparr>
       (inline_guard checkIsBitMemoryArea area (\<lambda>w. do {
          (raw, ec) \<leftarrow> readBits (w_srv w) area addr off n;
          if ec \<noteq> EndCodeNormalCompletion then Some (end_code_result ec, w)
          else do { bs \<leftarrow> inline_bools raw (unat n); Some ((VBools bs, None), w) } })) w;
     v \<leftarrow> assert_bools r;
     Some (v, w1) }"

definition Inline_ReadClock ::
    "('a inline_world_scheme) InlineClient \<Rightarrow> Context \<Rightarrow> 'a inline_world_scheme \<Rightarrow>
     ((fins_error + int list) \<times> 'a inline_world_scheme) option" where
  "Inline_ReadClock ic x w = do {
     (r, w1) \<leftarrow> Inline_invoke ic x
       \<lparr>Operation = OpReadClock, MemoryArea = 0, Address = 0, BitOffset = 0, Count = 0, Data = VNil\<rparr>
       (\<lambda>x w. Some (case inline_check x w of Some e \<Rightarrow> (VNil, Some e) | None \<Rightarrow> (VTime [w_now w], None), w)) w;
     v \<leftarrow> assert_time r;
     Some (v, w1) }"

section \<open>Writing\<close>

definition Inline_WriteWords ::
    "('a inline_world_scheme) InlineClient \<Rightarrow> Context \<Rightarrow> ('a inline_world_scheme) word_writer" where
  "Inline_WriteWords ic x area addr data w = do {
     (r, w1) \<leftarrow> Inline_invoke ic x
       \<lparr>Operation = OpWriteWords, MemoryArea = area, Address = addr, BitOffset = 0, Count = 0, Data = VWords data\<rparr>
       (inline_guard checkIsWordMemoryArea area (\<lambda>w. do {
          bts \<leftarrow> words_bytes (il_byteOrder ic) data;
          (s, ec) \<leftarrow> writeWords (w_srv w) area addr (of_nat (length data)) bts;
          Some (end_code_result ec, put_srv s w) })) w;
     Some (snd r, w1) }"

definition Inline_WriteString ::
    "('a inline_world_scheme) InlineClient \<Rightarrow> Context \<Rightarrow> u8 \<Rightarrow> u16 \<Rightarrow> u8 list \<Rightarrow> 'a inline_world_scheme \<Rightarrow>
     (fins_error option \<times> 'a inline_world_scheme) option" where
  "Inline_WriteString ic x area addr str w = do {
     (r, w1) \<leftarrow> Inline_invoke ic x
       \<lparr>Operation = OpWriteString, MemoryArea = area, Address = addr, BitOffset = 0, Count = 0, Data = VString str\<rparr>
       (inline_guard checkIsWordMemoryArea area (\<lambda>w. do {
          (s, ec) \<leftarrow> writeWords (w_srv w) area addr (string_words str) (string_bytes str);
          Some (end_code_result ec, put_srv s w) })) w;
     Some (snd r, w1) }"

definition Inline_WriteBytes ::
    "('a inline_world_scheme) InlineClient \<Rightarrow> Context \<Rightarrow> u8 \<Rightarrow> u16 \<Rightarrow> u8 list \<Rightarrow> 'a inline_world_scheme \<Rightarrow>
     (fins_error option \<times> 'a inline_world_scheme) option" where
  "Inline_WriteBytes ic x area addr b w = do {
     (r, w1) \<leftarrow> Inline_invoke ic x
       \<lparr>Operation = OpWriteBytes, MemoryArea = area, Address = addr, BitOffset = 0, Count = 0, Data = VBytes b\<rparr>
       (inline_guard checkIsWordMemoryArea area (\<lambda>w. do {
          (s, ec) \<leftarrow> writeWords (w_srv w) area addr (of_nat (length b)) b;
          Some (end_code_result ec, put_srv s w) })) w;
     Some (snd r, w1) }"

definition Inline_WriteBits ::
    "('a inline_world_scheme) InlineClient \<Rightarrow> Context \<Rightarrow> ('a inline_world_scheme) bit_writer" where
  "Inline_WriteBits ic x area addr off data w = do {
     (r, w1) \<leftarrow> Inline_invoke ic x
       \<lparr>Operation = OpWriteBits, MemoryArea = area, Address = addr, BitOffset = off, Count = 0, Data = VBools data\<rparr>
       (inline_guard checkIsBitMemoryArea area (\<lambda>w. do {
          (s, ec) \<leftarrow> writeBits (w_srv w) area addr off (of_nat (length data)) (bools_bytes data);
          Some (end_code_result ec, put_srv s w) })) w;
     Some (snd r, w1) }"

definition Inline_bitTwiddle ::
    "('a inline_world_scheme) InlineClient \<Rightarrow> Context \<Rightarrow> OperationType \<Rightarrow> u8 \<Rightarrow> u16 \<Rightarrow> u8 \<Rightarrow> u8 \<Rightarrow>
     'a inline_world_scheme \<Rightarrow> (fins_error option \<times> 'a inline_world_scheme) option" where
  "Inline_bitTwiddle ic x op area addr off v w = do {
     (r, w1) \<leftarrow> Inline_invoke ic x
       \<lparr>Operation = op, MemoryArea = area, Address = addr, BitOffset = off, Count = 0, Data = VBools [v = 1]\<rparr>
       (inline_guard checkIsBitMemoryArea area (\<lambda>w. do {
          (s, ec) \<leftarrow> writeBits (w_srv w) area addr off 1 [v];
          Some (end_code_result ec, put_srv s w) })) w;
     Some (snd r, w1) }"

definition Inline_SetBit where
  "Inline_SetBit ic x area addr off = Inline_bitTwiddle ic x OpSetBit area addr off 1"

definition Inline_ResetBit where
  "Inline_ResetBit ic x area addr off = Inline_bitTwiddle ic x OpResetBit area addr off 0"

text \<open>\<open>b[0]\<close> panics on an empty result.\<close>

definition Inline_ToggleBit ::
    "('a inline_world_scheme) InlineClient \<Rightarrow> Context \<Rightarrow> u8 \<Rightarrow> u16 \<Rightarrow> u8 \<Rightarrow> 'a inline_world_scheme \<Rightarrow>
     (fins_error option \<times> 'a inline_world_scheme) option" where
  "Inline_ToggleBit ic x area addr off w = do {
     (v, w1) \<leftarrow> Inline_ReadBits ic x area addr off 1 w;
     (case v of
        Inl e \<Rightarrow> Some (Some e, w1)
      | Inr [] \<Rightarrow> None
      | Inr (b # _) \<Rightarrow> Inline_bitTwiddle ic x OpToggleBit area addr off (if b then 0 else 1) w1) }"

section \<open>The inline client keeps the contract\<close>

definition inline_ready :: "'a inline_world_scheme \<Rightarrow> bool" where
  "inline_ready w \<longleftrightarrow> server_ok (w_srv w) \<and> \<not> closed (w_srv w)"

definition inline_plc :: "'a inline_world_scheme \<Rightarrow> plc" where
  "inline_plc w = server_view (w_srv w)"

lemma inline_check_None: "unending x \<Longrightarrow> inline_ready w \<Longrightarrow> inline_check x w = None"
  by (simp add: inline_check_def inline_ready_def IsClosed_def)

lemma put_srv_simps [simp]: "w_srv (put_srv s w) = s"
  by (simp add: put_srv_def)

lemmas inline_ops = Inline_ReadWords_def Inline_ReadBytes_def Inline_ReadBits_def Inline_WriteWords_def
  Inline_WriteString_def Inline_WriteBytes_def Inline_WriteBits_def Inline_bitTwiddle_def
  Inline_invoke_def invoke_with_def inline_guard_def end_code_result_def
  assert_words_def assert_bytes_def assert_bools_def

lemma inline_ready_put:
  "server_ok s \<Longrightarrow> closed s = closed (w_srv w) \<Longrightarrow> inline_ready w \<Longrightarrow> inline_ready (put_srv s w)"
  by (simp add: inline_ready_def)

text \<open>A client without an interceptor, in a context that never ends.\<close>

definition bare :: "Context \<Rightarrow> 'w InlineClient \<Rightarrow> bool" where
  "bare x ic \<longleftrightarrow> unending x \<and> il_interceptor ic = None \<and> byte_order (il_byteOrder ic)"

lemma bareD:
  "bare x ic \<Longrightarrow> il_interceptor ic = None" "bare x ic \<Longrightarrow> byte_order (il_byteOrder ic)"
  "bare x ic \<Longrightarrow> inline_ready w \<Longrightarrow> inline_check x w = None"
  by (simp_all add: bare_def inline_check_None)

lemma inline_read_words:
  assumes ic: "bare x ic" and w: "inline_ready w" and a: "checkIsWordMemoryArea a"
    and f: "fits DM_AREA_SIZE (unat ad) (2 * unat n)"
  shows "Inline_ReadWords ic x a ad n w =
      Some (Inr (words_from (il_byteOrder ic) (wmem (inline_plc w) a) (unat ad) (unat n)), w)"
proof -
  have "readWords (w_srv w) a ad n =
      Some (load (wmem (inline_plc w) a) (unat ad) (2 * unat n), EndCodeNormalCompletion)"
    using readWords_view [of "w_srv w" a ad n] check_word_area [OF a] w f
    by (simp add: fits_def inline_ready_def inline_plc_def)
  then show ?thesis
    using a bareD(1,2) [OF ic] bareD(3) [OF ic w] w by (simp add: inline_ops sl_make_def get_words_load)
qed

lemma inline_write_words:
  assumes ic: "bare x ic" and w: "inline_ready w" and a: "checkIsWordMemoryArea a"
    and f: "fits DM_AREA_SIZE (unat ad) (2 * length ws)"
  shows "\<exists>w'. Inline_WriteWords ic x a ad ws w = Some (None, w') \<and> inline_ready w' \<and>
      inline_plc w' = store_word_bytes a (unat ad) (order_words (il_byteOrder ic) ws) (inline_plc w)"
proof -
  let ?p = "order_words (il_byteOrder ic) ws"
  have n: "unat (of_nat (length ws) :: u16) = length ws" using f by (simp add: fits_def unat_of_nat_small)
  have enc: "words_bytes (il_byteOrder ic) ws = Some ?p" "length ?p = 2 * length ws"
    using f byte_order.words_bytes_small [OF bareD(2) [OF ic]] byte_order.length_order_words [OF bareD(2) [OF ic]]
    by (simp_all add: fits_def)
  then obtain s where s: "writeWords (w_srv w) a ad (of_nat (length ws)) ?p = Some (s, EndCodeNormalCompletion)"
    "server_ok s" "closed s = closed (w_srv w)" "server_view s = store_word_bytes a (unat ad) ?p (inline_plc w)"
    using writeWords_view [of "w_srv w" a ad "of_nat (length ws)" ?p] check_word_area [OF a] w f n
    by (auto simp: fits_def inline_ready_def inline_plc_def)
  then show ?thesis
    using a enc bareD(1,2) [OF ic] bareD(3) [OF ic w] w inline_ready_put [OF s(2,3) w] by (simp add: inline_ops inline_plc_def)
qed

lemma inline_read_bits:
  assumes ic: "bare x ic" and w: "inline_ready w" and a: "checkIsBitMemoryArea a"
    and f: "fits DM_AREA_SIZE (unat ad + unat off) (unat n)"
  shows "Inline_ReadBits ic x a ad off n w =
      Some (Inr (map byte_bool (load (bmem (inline_plc w) a) (unat ad + unat off) (unat n))), w)"
proof -
  have "readBits (w_srv w) a ad off n =
      Some (load (bmem (inline_plc w) a) (unat ad + unat off) (unat n), EndCodeNormalCompletion)"
    using readBits_view [of "w_srv w" a ad off n] check_bit_area [OF a] w f
    by (simp add: fits_def inline_ready_def inline_plc_def)
  then show ?thesis
    using a bareD(1,2) [OF ic] bareD(3) [OF ic w] w by (simp add: inline_ops inline_bools_def)
qed

lemma inline_twiddle:
  assumes ic: "bare x ic" and w: "inline_ready w" and a: "checkIsBitMemoryArea a"
    and f: "fits DM_AREA_SIZE (unat ad + unat off) 1"
  shows "\<exists>w'. Inline_bitTwiddle ic x op a ad off v w = Some (None, w') \<and> inline_ready w' \<and>
      inline_plc w' = store_bit_bytes a (unat ad + unat off) [v] (inline_plc w)"
proof -
  obtain s where s: "writeBits (w_srv w) a ad off 1 [v] = Some (s, EndCodeNormalCompletion)"
    "server_ok s" "closed s = closed (w_srv w)"
    "server_view s = store_bit_bytes a (unat ad + unat off) [v] (inline_plc w)"
    using writeBits_view [of "w_srv w" a ad off 1 "[v]"] check_bit_area [OF a] w f
    by (auto simp: fits_def inline_ready_def inline_plc_def)
  then show ?thesis
    using a bareD(1,2) [OF ic] bareD(3) [OF ic w] w inline_ready_put [OF s(2,3) w] by (simp add: inline_ops inline_plc_def)
qed

lemma inline_write_bits:
  assumes ic: "bare x ic" and w: "inline_ready w" and a: "checkIsBitMemoryArea a"
    and f: "fits DM_AREA_SIZE (unat ad + unat off) (length bs)"
  shows "\<exists>w'. Inline_WriteBits ic x a ad off bs w = Some (None, w') \<and> inline_ready w' \<and>
      inline_plc w' = store_bit_bytes a (unat ad + unat off) (bool_bytes bs) (inline_plc w)"
proof -
  have n: "unat (of_nat (length bs) :: u16) = length bs" using f by (simp add: fits_def unat_of_nat_small)
  obtain s where s: "writeBits (w_srv w) a ad off (of_nat (length bs)) (bool_bytes bs) =
      Some (s, EndCodeNormalCompletion)" "server_ok s" "closed s = closed (w_srv w)"
    "server_view s = store_bit_bytes a (unat ad + unat off) (bool_bytes bs) (inline_plc w)"
    using writeBits_view [of "w_srv w" a ad off "of_nat (length bs)" "bool_bytes bs"]
      check_bit_area [OF a] w f n
    by (auto simp: fits_def inline_ready_def inline_plc_def)
  moreover have "bools_bytes bs = bool_bytes bs" using f by (intro bools_bytes_small) (simp add: fits_def)
  ultimately show ?thesis
    using a bareD(1,2) [OF ic] bareD(3) [OF ic w] w inline_ready_put [OF s(2,3) w] by (simp add: inline_ops inline_plc_def)
qed

lemma inline_refines:
  assumes "bare x ic"
  shows "fins_client (il_byteOrder ic) (Inline_ReadWords ic x) (Inline_WriteWords ic x)
    (Inline_ReadBits ic x) (Inline_WriteBits ic x) inline_ready inline_plc DM_AREA_SIZE"
  using inline_read_words [OF assms] inline_write_words [OF assms] inline_read_bits [OF assms]
    inline_write_bits [OF assms] bareD(2) [OF assms]
  by (intro fins_client.intro fins_client_axioms.intro) simp_all

interpretation inline_be: fins_client BigEndian "Inline_ReadWords InlineClientOf Background"
    "Inline_WriteWords InlineClientOf Background" "Inline_ReadBits InlineClientOf Background"
    "Inline_WriteBits InlineClientOf Background" inline_ready inline_plc DM_AREA_SIZE
  using inline_refines [of Background InlineClientOf] be.byte_order_axioms
  by (simp add: InlineClientOf_def bare_def)

definition InlineClientLE :: "'w InlineClient" where
  "InlineClientLE = Inline_SetByteOrder (Some LittleEndian) InlineClientOf"

interpretation inline_le: fins_client LittleEndian "Inline_ReadWords InlineClientLE Background"
    "Inline_WriteWords InlineClientLE Background" "Inline_ReadBits InlineClientLE Background"
    "Inline_WriteBits InlineClientLE Background" inline_ready inline_plc DM_AREA_SIZE
  using inline_refines [of Background InlineClientLE] le.byte_order_axioms
  by (simp add: InlineClientLE_def Inline_SetByteOrder_def InlineClientOf_def bare_def)

section \<open>Toggling, bytes and strings\<close>

lemma inline_toggle:
  assumes ic: "bare x ic" and w: "inline_ready w" and a: "checkIsBitMemoryArea a"
    and f: "fits DM_AREA_SIZE (unat ad + unat off) 1"
  shows "\<exists>w'. Inline_ToggleBit ic x a ad off w = Some (None, w') \<and> inline_ready w' \<and>
      inline_plc w' = store_bit_bytes a (unat ad + unat off)
        [if byte_bool (bmem (inline_plc w) a (unat ad + unat off)) then 0 else 1] (inline_plc w)"
proof -
  have "Inline_ReadBits ic x a ad off 1 w = Some (Inr [byte_bool (bmem (inline_plc w) a (unat ad + unat off))], w)"
    using inline_read_bits [OF ic w a, of ad off 1] f by (simp add: load_def)
  then show ?thesis
    using inline_twiddle [OF ic w a f, of OpToggleBit
        "if byte_bool (bmem (inline_plc w) a (unat ad + unat off)) then 0 else 1"]
    by (simp add: Inline_ToggleBit_def)
qed

lemma inline_write_bytes:
  assumes ic: "bare x ic" and w: "inline_ready w" and a: "checkIsWordMemoryArea a"
    and f: "fits DM_AREA_SIZE (unat ad) (2 * length b)"
  shows "\<exists>w'. Inline_WriteBytes ic x a ad b w = Some (None, w') \<and> inline_ready w' \<and>
      inline_plc w' = store_word_bytes a (unat ad) b (inline_plc w)"
proof -
  have n: "unat (of_nat (length b) :: u16) = length b" using f by (simp add: fits_def unat_of_nat_small)
  obtain s where s: "writeWords (w_srv w) a ad (of_nat (length b)) b = Some (s, EndCodeNormalCompletion)"
    "server_ok s" "closed s = closed (w_srv w)" "server_view s = store_word_bytes a (unat ad) b (inline_plc w)"
    using writeWords_view [of "w_srv w" a ad "of_nat (length b)" b] check_word_area [OF a] w f n
    by (auto simp: fits_def inline_ready_def inline_plc_def)
  then show ?thesis
    using a bareD(1,2) [OF ic] bareD(3) [OF ic w] inline_ready_put [OF s(2,3) w]
    by (simp add: inline_ops inline_plc_def)
qed

lemma inline_read_bytes:
  assumes ic: "bare x ic" and w: "inline_ready w" and a: "checkIsWordMemoryArea a"
    and f: "fits DM_AREA_SIZE (unat ad) (2 * unat n)"
  shows "Inline_ReadBytes ic x a ad n w =
      Some (Inr (load (wmem (inline_plc w) a) (unat ad) (2 * unat n)), w)"
proof -
  have "readWords (w_srv w) a ad n =
      Some (load (wmem (inline_plc w) a) (unat ad) (2 * unat n), EndCodeNormalCompletion)"
    using readWords_view [of "w_srv w" a ad n] check_word_area [OF a] w f
    by (simp add: fits_def inline_ready_def inline_plc_def)
  then show ?thesis
    using a bareD(1,2) [OF ic] bareD(3) [OF ic w] by (simp add: inline_ops)
qed

text \<open>A string is written with an even number of bytes, a zero after an odd one.\<close>

definition padded :: "u8 list \<Rightarrow> u8 list" where
  "padded s = s @ replicate (length s mod 2) 0"

lemma take_string_bytes: "take (2 * ((length s + 1) div 2)) (string_bytes s) = padded s"
proof -
  have "2 * ((length s + 1) div 2) = length s + length s mod 2" by presburger
  then show ?thesis
    by (simp add: string_bytes_def padded_def go_copy_def)
qed

lemma length_padded: "length (padded s) = 2 * ((length s + 1) div 2)"
  unfolding padded_def length_append length_replicate by presburger

lemma cut_padded: "0 \<notin> set s \<Longrightarrow> cut_string (padded s) = s"
  unfolding cut_string_takeWhile padded_def
  by (subst takeWhile_append2) (auto simp: takeWhile_replicate)

section \<open>Properties\<close>

text \<open>
  A string without NUL characters that fits the area is read back as it was written, an odd
  length included: \<open>WriteString\<close> pads it to whole words and \<open>ReadString\<close> cuts at the first NUL.
\<close>

lemma inline_write_read_string:
  assumes ic: "bare x ic" and w: "inline_ready w" and a: "checkIsWordMemoryArea a"
    and f: "fits DM_AREA_SIZE (unat ad) (length s + length s mod 2)" and nul: "0 \<notin> set s"
  shows "\<exists>w'. Inline_WriteString ic x a ad s w = Some (None, w') \<and>
      Inline_ReadString ic x a ad (string_words s) w' = Some (Inr s, w')"
proof -
  have len: "length s + length s mod 2 = 2 * ((length s + 1) div 2)" by presburger
  then have n: "unat (string_words s) = (length s + 1) div 2"
    using f unfolding string_words_def fits_def by (intro unat_of_nat_small) simp
  then have f': "fits DM_AREA_SIZE (unat ad) (2 * unat (string_words s))" using f len by simp
  obtain s1 where s: "writeWords (w_srv w) a ad (string_words s) (string_bytes s) = Some (s1, EndCodeNormalCompletion)"
    "server_ok s1" "closed s1 = closed (w_srv w)" "server_view s1 = store_word_bytes a (unat ad) (padded s) (inline_plc w)"
    using writeWords_view [of "w_srv w" a ad "string_words s" "string_bytes s"] check_word_area [OF a] w f'
      take_string_bytes [of s]
    by (auto simp: fits_def inline_ready_def inline_plc_def n)
  let ?w = "put_srv s1 w"
  have r: "inline_ready ?w" using s(2,3) w by (rule inline_ready_put)
  have "load (wmem (inline_plc ?w) a) (unat ad) (2 * unat (string_words s)) = padded s"
    using load_store_same [of "wmem (inline_plc w) a" "unat ad" "padded s"] s(4) length_padded [of s] n
    by (simp add: inline_plc_def)
  then have "Inline_ReadString ic x a ad (string_words s) ?w = Some (Inr s, ?w)"
    using inline_read_bytes [OF ic r a f'] cut_padded [OF nul] by (simp add: Inline_ReadString_def)
  moreover have "Inline_WriteString ic x a ad s w = Some (None, ?w)"
    using a s(1) bareD(1,2) [OF ic] bareD(3) [OF ic w] by (simp add: inline_ops)
  ultimately show ?thesis by blast
qed

definition sim_world :: "Server \<Rightarrow> inline_world" where
  "sim_world s = \<lparr>w_now = 0, w_log = [], w_collectors = (\<lambda>_. NewMetricsCollector), w_srv = s\<rparr>"

lemma sim_world_ready:
  obtains s where "NewPLCSimulator transportUDP True None = Inr s" "inline_ready (sim_world s)"
proof -
  obtain s where "NewPLCSimulator transportUDP True None = Inr s" by (simp add: NewPLCSimulator_def Let_def)
  then show ?thesis using that server_ok_new by (auto simp: inline_ready_def sim_world_def)
qed

lemma bare_new: "bare Background InlineClientOf"
  by (simp add: bare_def InlineClientOf_def be.byte_order_axioms)

lemma inline_write_read_string_example:
  "\<exists>(w :: inline_world) w'. Inline_WriteString InlineClientOf Background MemoryAreaDMWord 20 [72, 105, 33] w = Some (None, w') \<and>
      Inline_ReadString InlineClientOf Background MemoryAreaDMWord 20 2 w' = Some (Inr [72, 105, 33], w')"
proof -
  obtain s where "inline_ready (sim_world s)" using sim_world_ready by blast
  from inline_write_read_string [OF bare_new this, of MemoryAreaDMWord 20 "[72, 105, 33]"]
  show ?thesis by (auto simp: checkIsWordMemoryArea_def fits_def string_words_def)
qed

text \<open>
  The inline client refines the memory specification.  For every byte order, any sequence of
  word and bit writes that fit the areas does to the simulator's memory what the specification
  says, and a read after it returns the words the specification's memory holds.
\<close>

lemma inline_client_refines:
  assumes "bare x ic" "inline_ready w" "list_all (write_fits DM_AREA_SIZE) ops"
    and "checkIsWordMemoryArea a" "unat ad + 2 * unat n \<le> DM_AREA_SIZE"
  shows "\<exists>w'. run_writes (Inline_WriteWords ic x) (Inline_WriteBits ic x) ops w = Some w' \<and>
      inline_plc w' = fold (apply_write (il_byteOrder ic)) ops (inline_plc w) \<and>
      Inline_ReadWords ic x a ad n w' =
        Some (Inr (words_from (il_byteOrder ic) (wmem (inline_plc w') a) (unat ad) (unat n)), w')"
proof -
  obtain w' where "run_writes (Inline_WriteWords ic x) (Inline_WriteBits ic x) ops w = Some w'"
    "inline_ready w'" "inline_plc w' = fold (apply_write (il_byteOrder ic)) ops (inline_plc w)"
    using fins_client.run_writes_refines [OF inline_refines [OF assms(1)] assms(2,3)] by blast
  then show ?thesis using inline_read_words [OF assms(1) _ assms(4)] assms(5) by (auto simp: fits_def)
qed

lemma inline_client_refines_example:
  "\<exists>(w :: inline_world) w'. run_writes (Inline_WriteWords InlineClientOf Background) (Inline_WriteBits InlineClientOf Background)
        [WordsAt MemoryAreaHRWord 4 [7, 8]] w = Some w' \<and>
      inline_plc w' = apply_write BigEndian (WordsAt MemoryAreaHRWord 4 [7, 8]) (inline_plc w)"
proof -
  obtain s where "inline_ready (sim_world s)" using sim_world_ready by blast
  from inline_client_refines [OF bare_new this, of "[WordsAt MemoryAreaHRWord 4 [7, 8]]" MemoryAreaHRWord 4 2]
  have "\<exists>w'. run_writes (Inline_WriteWords InlineClientOf Background) (Inline_WriteBits InlineClientOf Background)
        [WordsAt MemoryAreaHRWord 4 [7, 8]] (sim_world s) = Some w' \<and>
      inline_plc w' = apply_write BigEndian (WordsAt MemoryAreaHRWord 4 [7, 8]) (inline_plc (sim_world s))"
    by (auto simp: checkIsWordMemoryArea_def fits_def InlineClientOf_def simp del: run_writes.simps)
  then show ?thesis by blast
qed

text \<open>
  On a closed simulator no operation of the inline client does anything: with a context that has
  not ended, reads and writes of words and bits return \<open>ClientClosedError\<close> whatever the area, the
  address and the count, and the memory stays.
\<close>

lemma inline_closed_refuses:
  assumes "closed (w_srv w)" "ctx_Err x (w_now w) = None" "il_interceptor ic = None"
  shows "Inline_ReadWords ic x a ad n w = Some (Inl ClientClosedError, w) \<and>
    Inline_WriteWords ic x a ad ws w = Some (Some ClientClosedError, w) \<and>
    Inline_ReadBits ic x a ad off n w = Some (Inl ClientClosedError, w) \<and>
    Inline_WriteBits ic x a ad off bs w = Some (Some ClientClosedError, w) \<and>
    Inline_ToggleBit ic x a ad off w = Some (Some ClientClosedError, w) \<and>
    Inline_WriteString ic x a ad s w = Some (Some ClientClosedError, w) \<and>
    Inline_ReadClock ic x w = Some (Inl ClientClosedError, w)"
  using assms
  by (simp add: inline_ops inline_check_def IsClosed_def Inline_ToggleBit_def Inline_ReadClock_def assert_time_def)

lemma inline_closed_refuses_example:
  "\<exists>w :: inline_world. Inline_ReadWords InlineClientOf Background 0x82 0 1 w = Some (Inl ClientClosedError, w)"
proof -
  obtain s where "NewPLCSimulator transportUDP True None = Inr s" using sim_world_ready by blast
  let ?w = "sim_world (fst (Close None s))"
  have "closed (w_srv ?w)" "ctx_Err Background (w_now ?w) = None"
    by (auto simp: sim_world_def Close_def Background_def ctx_Err_def due_def)
  moreover have "il_interceptor (InlineClientOf :: inline_world InlineClient) = None" by (simp add: InlineClientOf_def)
  ultimately show ?thesis using inline_closed_refuses [of ?w Background InlineClientOf] by blast
qed

end
