(* ===== verification/Fins_Iface.thy ===== *)
theory Fins_Iface
  imports Fins_Loopback Fins_Reconnect Fins_Plugin Fins_Inline
begin

text \<open>
  The interface \<open>FINSClient\<close> of \<open>client_interface.go\<close> as a record of operations on an object, and
  its three implementations: the network client, the inline client, and the one that does nothing
  (\<open>nop_client.go\<close>).  A program over the interface reads and writes through the record; the last
  section shows that it cannot tell the inline client from a network client of the same simulator.
\<close>

section \<open>The interface\<close>

text \<open>
  \<open>'s\<close> is the object with the world it acts on, \<open>'w\<close> what interceptors see, \<open>'c\<close> what plugins see,
  \<open>'t\<close> a time; \<open>None\<close> is a nil time.
\<close>

record ('w, 'c, 't, 's) FINSClient =
  fc_SetByteOrder :: "byteOrder option \<Rightarrow> 's \<Rightarrow> 's"
  fc_SetTimeoutMs :: "u64 \<Rightarrow> 's \<Rightarrow> 's"
  fc_SetReadTimeout :: "int \<Rightarrow> 's \<Rightarrow> 's"
  fc_EnableAutoReconnect :: "int \<Rightarrow> int \<Rightarrow> 's \<Rightarrow> 's"
  fc_DisableAutoReconnect :: "'s \<Rightarrow> 's"
  fc_IsReconnecting :: "'s \<Rightarrow> bool"
  fc_EnableDynamicLocalAddress :: "'s \<Rightarrow> 's"
  fc_DisableDynamicLocalAddress :: "'s \<Rightarrow> 's"
  fc_SetInterceptor :: "'w interceptor option \<Rightarrow> 's \<Rightarrow> 's"
  fc_Use :: "'c Plugin option list \<Rightarrow> 's \<Rightarrow> fins_error option \<times> 's"
  fc_IsClosed :: "'s \<Rightarrow> bool"
  fc_Close :: "'s \<Rightarrow> fins_error option \<times> 's"
  fc_Shutdown :: "'s \<Rightarrow> fins_error option \<times> 's"
  fc_ReadWords :: "Context \<Rightarrow> 's word_reader"
  fc_ReadBytes :: "Context \<Rightarrow> u8 \<Rightarrow> u16 \<Rightarrow> u16 \<Rightarrow> 's \<Rightarrow> ((fins_error + u8 list) \<times> 's) option"
  fc_ReadString :: "Context \<Rightarrow> u8 \<Rightarrow> u16 \<Rightarrow> u16 \<Rightarrow> 's \<Rightarrow> ((fins_error + u8 list) \<times> 's) option"
  fc_ReadBits :: "Context \<Rightarrow> 's bit_reader"
  fc_ReadClock :: "Context \<Rightarrow> 's \<Rightarrow> ((fins_error + 't option) \<times> 's) option"
  fc_WriteWords :: "Context \<Rightarrow> 's word_writer"
  fc_WriteString :: "Context \<Rightarrow> u8 \<Rightarrow> u16 \<Rightarrow> u8 list \<Rightarrow> 's \<Rightarrow> (fins_error option \<times> 's) option"
  fc_WriteBytes :: "Context \<Rightarrow> u8 \<Rightarrow> u16 \<Rightarrow> u8 list \<Rightarrow> 's \<Rightarrow> (fins_error option \<times> 's) option"
  fc_WriteBits :: "Context \<Rightarrow> 's bit_writer"
  fc_SetBit :: "Context \<Rightarrow> u8 \<Rightarrow> u16 \<Rightarrow> u8 \<Rightarrow> 's \<Rightarrow> (fins_error option \<times> 's) option"
  fc_ResetBit :: "Context \<Rightarrow> u8 \<Rightarrow> u16 \<Rightarrow> u8 \<Rightarrow> 's \<Rightarrow> (fins_error option \<times> 's) option"
  fc_ToggleBit :: "Context \<Rightarrow> u8 \<Rightarrow> u16 \<Rightarrow> u8 \<Rightarrow> 's \<Rightarrow> (fins_error option \<times> 's) option"

section \<open>NopClient\<close>

definition NopClient :: "('w, 'c, 't, 's) FINSClient" where
  "NopClient = \<lparr>fc_SetByteOrder = (\<lambda>_ s. s), fc_SetTimeoutMs = (\<lambda>_ s. s), fc_SetReadTimeout = (\<lambda>_ s. s),
     fc_EnableAutoReconnect = (\<lambda>_ _ s. s), fc_DisableAutoReconnect = (\<lambda>s. s), fc_IsReconnecting = (\<lambda>_. False),
     fc_EnableDynamicLocalAddress = (\<lambda>s. s), fc_DisableDynamicLocalAddress = (\<lambda>s. s),
     fc_SetInterceptor = (\<lambda>_ s. s), fc_Use = (\<lambda>_ s. (None, s)), fc_IsClosed = (\<lambda>_. False),
     fc_Close = (\<lambda>s. (None, s)), fc_Shutdown = (\<lambda>s. (None, s)),
     fc_ReadWords = (\<lambda>_ _ _ _ s. Some (Inr [], s)), fc_ReadBytes = (\<lambda>_ _ _ _ s. Some (Inr [], s)),
     fc_ReadString = (\<lambda>_ _ _ _ s. Some (Inr [], s)), fc_ReadBits = (\<lambda>_ _ _ _ _ s. Some (Inr [], s)),
     fc_ReadClock = (\<lambda>_ s. Some (Inr None, s)),
     fc_WriteWords = (\<lambda>_ _ _ _ s. Some (None, s)), fc_WriteString = (\<lambda>_ _ _ _ s. Some (None, s)),
     fc_WriteBytes = (\<lambda>_ _ _ _ s. Some (None, s)), fc_WriteBits = (\<lambda>_ _ _ _ _ s. Some (None, s)),
     fc_SetBit = (\<lambda>_ _ _ _ s. Some (None, s)), fc_ResetBit = (\<lambda>_ _ _ _ s. Some (None, s)),
     fc_ToggleBit = (\<lambda>_ _ _ _ s. Some (None, s))\<rparr>"

section \<open>The network client\<close>

text \<open>
  The object: the client in its world, its interceptor, its plugins.  Plugins act on the first two.
  \<open>onW f\<close> runs an operation of the world, given the interceptor.
\<close>

type_synonym 'w seat = "'w \<times> 'w interceptor option"

record 'w clientObj =
  co_seat :: "'w seat"
  co_pm :: "'w seat pluginManager"

definition onW ::
    "('w interceptor option \<Rightarrow> 'w \<Rightarrow> ('b \<times> 'w) option) \<Rightarrow> 'w clientObj \<Rightarrow> ('b \<times> 'w clientObj) option" where
  "onW f s = map_option (\<lambda>(r, w). (r, s\<lparr>co_seat := (w, snd (co_seat s))\<rparr>)) (f (snd (co_seat s)) (fst (co_seat s)))"

definition configure ::
    "(Client \<Rightarrow> Client) \<Rightarrow> ('a client_world_scheme) clientObj \<Rightarrow> ('a client_world_scheme) clientObj" where
  "configure f s = s\<lparr>co_seat := (upd_cli f (fst (co_seat s)), snd (co_seat s))\<rparr>"

definition Client_SetInterceptor :: "'w interceptor option \<Rightarrow> 'w clientObj \<Rightarrow> 'w clientObj" where
  "Client_SetInterceptor i s = s\<lparr>co_seat := (fst (co_seat s), i)\<rparr>"

definition Client_Use ::
    "('a client_world_scheme) seat Plugin option list \<Rightarrow> ('a client_world_scheme) clientObj \<Rightarrow>
     fins_error option \<times> ('a client_world_scheme) clientObj" where
  "Client_Use ps s =
     (let (e, pm, st) = use (\<lambda>(w, i). isConnected (w_cli w)) ps (co_pm s) (co_seat s)
      in (e, s\<lparr>co_seat := st, co_pm := pm\<rparr>))"

definition Client_IsClosed :: "('a client_world_scheme) clientObj \<Rightarrow> bool" where
  "Client_IsClosed s = cl_closed (w_cli (fst (co_seat s)))"

definition closing ::
    "(Client \<Rightarrow> Client \<times> fins_error option) \<Rightarrow> ('a client_world_scheme) clientObj \<Rightarrow>
     fins_error option \<times> ('a client_world_scheme) clientObj" where
  "closing f s = (snd (f (w_cli (fst (co_seat s)))), configure (fst \<circ> f) s)"

definition netClient ::
    "('a client_world_scheme) environ \<Rightarrow> fins_error option \<Rightarrow>
     ('a client_world_scheme, ('a client_world_scheme) seat, goTime, ('a client_world_scheme) clientObj) FINSClient" where
  "netClient env trErr = \<lparr>fc_SetByteOrder = (\<lambda>o'. configure (SetByteOrder o')),
     fc_SetTimeoutMs = (\<lambda>t. configure (SetTimeoutMs t)), fc_SetReadTimeout = (\<lambda>t. configure (SetReadTimeout t)),
     fc_EnableAutoReconnect = (\<lambda>m d. configure (EnableAutoReconnect m d)),
     fc_DisableAutoReconnect = configure DisableAutoReconnect,
     fc_IsReconnecting = (\<lambda>s. IsReconnecting (w_cli (fst (co_seat s)))),
     fc_EnableDynamicLocalAddress = configure EnableDynamicLocalAddress,
     fc_DisableDynamicLocalAddress = configure DisableDynamicLocalAddress,
     fc_SetInterceptor = Client_SetInterceptor, fc_Use = Client_Use, fc_IsClosed = Client_IsClosed,
     fc_Close = closing (Client_Close trErr), fc_Shutdown = closing (Client_Shutdown trErr),
     fc_ReadWords = (\<lambda>x a ad n. onW (\<lambda>i. Client_ReadWords env i x a ad n)),
     fc_ReadBytes = (\<lambda>x a ad n. onW (\<lambda>i. Client_ReadBytes env i x a ad n)),
     fc_ReadString = (\<lambda>x a ad n. onW (\<lambda>i. Client_ReadString env i x a ad n)),
     fc_ReadBits = (\<lambda>x a ad off n. onW (\<lambda>i. Client_ReadBits env i x a ad off n)),
     fc_ReadClock = (\<lambda>x. onW (\<lambda>_ w. map_option (\<lambda>(t, w). (map_sum id Some t, w)) (Client_ReadClock env x w))),
     fc_WriteWords = (\<lambda>x a ad ws. onW (\<lambda>i. Client_WriteWords env i x a ad ws)),
     fc_WriteString = (\<lambda>x a ad s. onW (\<lambda>_. Client_WriteString env x a ad s)),
     fc_WriteBytes = (\<lambda>x a ad b. onW (\<lambda>_. Client_WriteBytes env x a ad b)),
     fc_WriteBits = (\<lambda>x a ad off bs. onW (\<lambda>i. Client_WriteBits env i x a ad off bs)),
     fc_SetBit = (\<lambda>x a ad off. onW (\<lambda>_. Client_SetBit env x a ad off)),
     fc_ResetBit = (\<lambda>x a ad off. onW (\<lambda>_. Client_ResetBit env x a ad off)),
     fc_ToggleBit = (\<lambda>x a ad off. onW (\<lambda>i. Client_ToggleBit env i x a ad off))\<rparr>"

section \<open>The inline client\<close>

text \<open>
  \<open>SetTimeoutMs\<close>, \<open>SetReadTimeout\<close>, the reconnection and dynamic address methods, \<open>IsReconnecting\<close>,
  \<open>Close\<close> and \<open>Shutdown\<close> of the inline client do nothing, as those of \<open>NopClient\<close>.
\<close>

type_synonym 'w inlineObj = "'w InlineClient \<times> 'w"

definition onInline ::
    "('w InlineClient \<Rightarrow> 'w \<Rightarrow> ('b \<times> 'w) option) \<Rightarrow> 'w inlineObj \<Rightarrow> ('b \<times> 'w inlineObj) option" where
  "onInline f s = map_option (\<lambda>(r, w). (r, (fst s, w))) (f (fst s) (snd s))"

definition inlineClient ::
    "('a inline_world_scheme, ('a inline_world_scheme) inlineObj, int list, ('a inline_world_scheme) inlineObj) FINSClient" where
  "inlineClient = NopClient\<lparr>fc_SetByteOrder := (\<lambda>o' (ic, w). (Inline_SetByteOrder o' ic, w)),
     fc_SetInterceptor := (\<lambda>i (ic, w). (Inline_SetInterceptor i ic, w)),
     fc_Use := (\<lambda>_ s. (Some Inline_Use, s)), fc_IsClosed := (\<lambda>(ic, w). Inline_IsClosed w),
     fc_ReadWords := (\<lambda>x a ad n. onInline (\<lambda>ic. Inline_ReadWords ic x a ad n)),
     fc_ReadBytes := (\<lambda>x a ad n. onInline (\<lambda>ic. Inline_ReadBytes ic x a ad n)),
     fc_ReadString := (\<lambda>x a ad n. onInline (\<lambda>ic. Inline_ReadString ic x a ad n)),
     fc_ReadBits := (\<lambda>x a ad off n. onInline (\<lambda>ic. Inline_ReadBits ic x a ad off n)),
     fc_ReadClock := (\<lambda>x. onInline (\<lambda>ic w. map_option (\<lambda>(t, w). (map_sum id Some t, w)) (Inline_ReadClock ic x w))),
     fc_WriteWords := (\<lambda>x a ad ws. onInline (\<lambda>ic. Inline_WriteWords ic x a ad ws)),
     fc_WriteString := (\<lambda>x a ad s. onInline (\<lambda>ic. Inline_WriteString ic x a ad s)),
     fc_WriteBytes := (\<lambda>x a ad b. onInline (\<lambda>ic. Inline_WriteBytes ic x a ad b)),
     fc_WriteBits := (\<lambda>x a ad off bs. onInline (\<lambda>ic. Inline_WriteBits ic x a ad off bs)),
     fc_SetBit := (\<lambda>x a ad off. onInline (\<lambda>ic. Inline_SetBit ic x a ad off)),
     fc_ResetBit := (\<lambda>x a ad off. onInline (\<lambda>ic. Inline_ResetBit ic x a ad off)),
     fc_ToggleBit := (\<lambda>x a ad off. onInline (\<lambda>ic. Inline_ToggleBit ic x a ad off))\<rparr>"

section \<open>Programs over the interface\<close>

datatype fins_call = GetWords u8 u16 u16 | GetBits u8 u16 u8 u16 | Put write_op

datatype fins_answer = GotWords "u16 list" | GotBits "bool list" | Stored | Failed fins_error

definition answer_of :: "('b \<Rightarrow> fins_answer) \<Rightarrow> fins_error + 'b \<Rightarrow> fins_answer" where
  "answer_of f r = (case r of Inl e \<Rightarrow> Failed e | Inr v \<Rightarrow> f v)"

definition stored :: "fins_error option \<Rightarrow> fins_answer" where
  "stored e = (case e of Some e \<Rightarrow> Failed e | None \<Rightarrow> Stored)"

fun run_call ::
    "'s word_reader \<Rightarrow> 's word_writer \<Rightarrow> 's bit_reader \<Rightarrow> 's bit_writer \<Rightarrow> fins_call \<Rightarrow> 's \<Rightarrow> (fins_answer \<times> 's) option" where
  "run_call rw ww rb wb (GetWords a ad n) s = map_option (map_prod (answer_of GotWords) id) (rw a ad n s)"
| "run_call rw ww rb wb (GetBits a ad off n) s = map_option (map_prod (answer_of GotBits) id) (rb a ad off n s)"
| "run_call rw ww rb wb (Put op) s = map_option (map_prod stored id) (run_write ww wb op s)"

fun run_calls ::
    "'s word_reader \<Rightarrow> 's word_writer \<Rightarrow> 's bit_reader \<Rightarrow> 's bit_writer \<Rightarrow> fins_call list \<Rightarrow> 's \<Rightarrow>
     (fins_answer list \<times> 's) option" where
  "run_calls rw ww rb wb [] s = Some ([], s)"
| "run_calls rw ww rb wb (c # cs) s = do {
     (r, s1) \<leftarrow> run_call rw ww rb wb c s;
     (rs, s2) \<leftarrow> run_calls rw ww rb wb cs s1;
     Some (r # rs, s2) }"

text \<open>A program over an implementation of the interface, every call in the same context.\<close>

definition run_program ::
    "('w, 'c, 't, 's) FINSClient \<Rightarrow> Context \<Rightarrow> fins_call list \<Rightarrow> 's \<Rightarrow> (fins_answer list \<times> 's) option" where
  "run_program fc x = run_calls (fc_ReadWords fc x) (fc_WriteWords fc x) (fc_ReadBits fc x) (fc_WriteBits fc x)"

text \<open>What the memory specification answers.\<close>

fun call_fits :: "nat \<Rightarrow> fins_call \<Rightarrow> bool" where
  "call_fits limit (GetWords a ad n) \<longleftrightarrow> checkIsWordMemoryArea a \<and> fits limit (unat ad) (2 * unat n)"
| "call_fits limit (GetBits a ad off n) \<longleftrightarrow> checkIsBitMemoryArea a \<and> fits limit (unat ad + unat off) (unat n)"
| "call_fits limit (Put op) \<longleftrightarrow> write_fits limit op"

fun spec_call :: "byteOrder \<Rightarrow> fins_call \<Rightarrow> plc \<Rightarrow> fins_answer \<times> plc" where
  "spec_call bo (GetWords a ad n) p = (GotWords (words_from bo (wmem p a) (unat ad) (unat n)), p)"
| "spec_call bo (GetBits a ad off n) p = (GotBits (map byte_bool (load (bmem p a) (unat ad + unat off) (unat n))), p)"
| "spec_call bo (Put op) p = (Stored, apply_write bo op p)"

fun spec_calls :: "byteOrder \<Rightarrow> fins_call list \<Rightarrow> plc \<Rightarrow> fins_answer list \<times> plc" where
  "spec_calls bo [] p = ([], p)"
| "spec_calls bo (c # cs) p =
     (let (r, p1) = spec_call bo c p; (rs, p2) = spec_calls bo cs p1 in (r # rs, p2))"

lemma call_fits_mono: "call_fits l c \<Longrightarrow> l \<le> m \<Longrightarrow> call_fits m c"
  by (cases c; cases "case c of Put op \<Rightarrow> op | _ \<Rightarrow> undefined") (auto simp: fits_def)

context fins_client
begin

lemma run_call_refines:
  assumes "ready w" "call_fits limit c"
  shows "\<exists>w'. run_call readW writeW readB writeB c w = Some (fst (spec_call bo c (plc_of w)), w') \<and>
    ready w' \<and> plc_of w' = snd (spec_call bo c (plc_of w))"
  using assms read_words read_bits run_write_refines by (cases c) (fastforce simp: answer_of_def stored_def)+

lemma run_calls_refines:
  "ready w \<Longrightarrow> list_all (call_fits limit) cs \<Longrightarrow>
    \<exists>w'. run_calls readW writeW readB writeB cs w = Some (fst (spec_calls bo cs (plc_of w)), w') \<and>
      ready w' \<and> plc_of w' = snd (spec_calls bo cs (plc_of w))"
proof (induction cs arbitrary: w)
  case (Cons c cs)
  then obtain w1 where "run_call readW writeW readB writeB c w = Some (fst (spec_call bo c (plc_of w)), w1)"
    "ready w1" "plc_of w1 = snd (spec_call bo c (plc_of w))"
    using run_call_refines [of w c] by auto
  with Cons show ?case by (fastforce simp: Let_def split: prod.split)
qed simp

end

section \<open>The implementations keep the contract\<close>

definition net_ready :: "('w \<Rightarrow> bool) \<Rightarrow> 'w clientObj \<Rightarrow> bool" where
  "net_ready ready s \<longleftrightarrow> snd (co_seat s) = None \<and> ready (fst (co_seat s))"

definition net_plc :: "('w \<Rightarrow> plc) \<Rightarrow> 'w clientObj \<Rightarrow> plc" where
  "net_plc plc_of s = plc_of (fst (co_seat s))"

lemma netClient_refines:
  assumes "fins_client bo (Client_ReadWords env None x) (Client_WriteWords env None x)
    (Client_ReadBits env None x) (Client_WriteBits env None x) ready plc_of limit"
  shows "fins_client bo (fc_ReadWords (netClient env e) x) (fc_WriteWords (netClient env e) x)
    (fc_ReadBits (netClient env e) x) (fc_WriteBits (netClient env e) x) (net_ready ready) (net_plc plc_of) limit"
proof (intro fins_client.intro fins_client_axioms.intro)
  show "byte_order bo" using assms by (rule fins_client.axioms)
qed (use fins_client.read_words [OF assms] fins_client.write_words [OF assms] fins_client.read_bits [OF assms]
    fins_client.write_bits [OF assms] in \<open>fastforce simp: net_ready_def net_plc_def netClient_def onW_def\<close>)+

lemma inlineClient_refines:
  assumes "bare x ic"
  shows "fins_client (il_byteOrder ic) (fc_ReadWords inlineClient x) (fc_WriteWords inlineClient x)
    (fc_ReadBits inlineClient x) (fc_WriteBits inlineClient x)
    (\<lambda>s. fst s = ic \<and> inline_ready (snd s)) (\<lambda>s. inline_plc (snd s)) DM_AREA_SIZE"
proof (intro fins_client.intro fins_client_axioms.intro)
  show "byte_order (il_byteOrder ic)" using assms by (simp add: bare_def)
qed (use inline_read_words [OF assms] inline_write_words [OF assms] inline_read_bits [OF assms]
    inline_write_bits [OF assms] in \<open>fastforce simp: inlineClient_def NopClient_def onInline_def\<close>)+

lemma InlineClientOf_order: "il_byteOrder InlineClientOf = BigEndian" "bare Background InlineClientOf"
  using be.byte_order_axioms by (simp_all add: InlineClientOf_def bare_def)

interpretation udp_object: fins_client BigEndian "fc_ReadWords (netClient udp_env e) Background"
    "fc_WriteWords (netClient udp_env e) Background" "fc_ReadBits (netClient udp_env e) Background"
    "fc_WriteBits (netClient udp_env e) Background" "net_ready (client_ready BigEndian)"
    "net_plc udp_be.view" 1006 for e
  by (rule netClient_refines [OF udp_be.fins_client_axioms])

interpretation tcp_object: fins_client BigEndian "fc_ReadWords (netClient tcp_env e) Background"
    "fc_WriteWords (netClient tcp_env e) Background" "fc_ReadBits (netClient tcp_env e) Background"
    "fc_WriteBits (netClient tcp_env e) Background" "net_ready (client_ready BigEndian)"
    "net_plc tcp_be.view" DM_AREA_SIZE for e
  by (rule netClient_refines [OF tcp_be.fins_client_axioms])

interpretation inline_object: fins_client BigEndian "fc_ReadWords inlineClient Background"
    "fc_WriteWords inlineClient Background" "fc_ReadBits inlineClient Background" "fc_WriteBits inlineClient Background"
    "\<lambda>s. fst s = InlineClientOf \<and> inline_ready (snd s)" "\<lambda>s. inline_plc (snd s)" DM_AREA_SIZE
  using inlineClient_refines [OF InlineClientOf_order(2)] by (simp only: InlineClientOf_order(1))

section \<open>Properties\<close>

text \<open>The no-op client answers every program with nothing and remembers nothing.\<close>

definition nothing_for :: "fins_call \<Rightarrow> fins_answer" where
  "nothing_for c = (case c of GetWords _ _ _ \<Rightarrow> GotWords [] | GetBits _ _ _ _ \<Rightarrow> GotBits [] | Put _ \<Rightarrow> Stored)"

lemma nop_program: "run_program NopClient x cs s = Some (map nothing_for cs, s)"
proof (induction cs)
  case Nil
  then show ?case by (simp add: run_program_def)
next
  case (Cons c cs)
  have "run_write (fc_WriteWords NopClient x) (fc_WriteBits NopClient x) op s = Some (None, s)" for op
    by (cases op) (simp_all add: NopClient_def)
  then show ?case
    using Cons by (cases c) (simp_all add: run_program_def nothing_for_def answer_of_def stored_def NopClient_def)
qed

text \<open>Closing: only the network client is closed by its own \<open>Close\<close>.\<close>

lemma close_and_closed:
  "fc_IsClosed (netClient env e) (snd (fc_Close (netClient env e) s))"
  "fc_IsClosed inlineClient (snd (fc_Close inlineClient s')) = fc_IsClosed inlineClient s'"
  "\<not> fc_IsClosed NopClient (snd (fc_Close NopClient s''))"
  by (auto simp: netClient_def inlineClient_def NopClient_def Client_IsClosed_def closing_def configure_def Client_Close_def)

text \<open>The memory of the simulator that a network client is connected to.\<close>

definition simulator_of :: "('a net_world_scheme) clientObj \<Rightarrow> plc" where
  "simulator_of s = server_view (n_srv (fst (co_seat s)))"

lemma simulator_view: "net_plc udp_be.view s = simulator_of s" "net_plc tcp_be.view s = simulator_of s"
  by (simp_all add: net_plc_def udp_be.view_def tcp_be.view_def simulator_of_def)

text \<open>
  C5: a program over the interface cannot tell the clients apart.  On simulators with the same
  memory, any program of word and bit reads and writes that fit an area and a datagram gets the
  same answers from the UDP client, the TCP client and the inline client, those of the memory
  specification, and leaves the same memory behind.
\<close>

theorem clients_interchangeable:
  assumes "net_ready (client_ready BigEndian) u" "net_ready (client_ready BigEndian) t" "inline_ready w"
    and "simulator_of u = inline_plc w" "simulator_of t = inline_plc w"
    and "list_all (call_fits 1006) prog"
  shows "\<exists>answers u' t' w'. run_program (netClient udp_env e) Background prog u = Some (answers, u') \<and>
    run_program (netClient tcp_env e) Background prog t = Some (answers, t') \<and>
    run_program inlineClient Background prog (InlineClientOf, w) = Some (answers, (InlineClientOf, w')) \<and>
    answers = fst (spec_calls BigEndian prog (inline_plc w)) \<and> inline_plc w' = snd (spec_calls BigEndian prog (inline_plc w)) \<and>
    simulator_of u' = inline_plc w' \<and> simulator_of t' = inline_plc w'"
proof -
  have wide: "list_all (call_fits DM_AREA_SIZE) prog"
    using assms(6) call_fits_mono [of 1006 _ DM_AREA_SIZE] by (auto simp: list_all_iff)
  show ?thesis
    using udp_object.run_calls_refines [of u prog e, OF assms(1,6)] tcp_object.run_calls_refines [of t prog e, OF assms(2) wide]
      inline_object.run_calls_refines [of "(InlineClientOf, w)" prog] assms(3-5) wide
    by (auto simp: run_program_def simulator_view)
qed

theorem clients_interchangeable_witness:
  "\<exists>u t w answers u' t' w'. run_program (netClient udp_env None) Background
       [Put (WordsAt MemoryAreaDMWord 7 [5]), GetWords MemoryAreaDMWord 7 1] (u :: net_world clientObj) = Some (answers, u') \<and>
    run_program (netClient tcp_env None) Background
       [Put (WordsAt MemoryAreaDMWord 7 [5]), GetWords MemoryAreaDMWord 7 1] (t :: net_world clientObj) = Some (answers, t') \<and>
    run_program inlineClient Background
       [Put (WordsAt MemoryAreaDMWord 7 [5]), GetWords MemoryAreaDMWord 7 1] (InlineClientOf, w :: inline_world) =
       Some (answers, (InlineClientOf, w')) \<and> answers = [Stored, GotWords [5]]"
proof -
  obtain s where s: "NewPLCSimulator transportUDP True None = Inr s" by (rule new_simulator)
  let ?u = "\<lparr>co_seat = (net_of transportUDP BigEndian noon s, None), co_pm = no_plugins\<rparr>"
  let ?t = "\<lparr>co_seat = (net_of transportTCP BigEndian noon s, None), co_pm = no_plugins\<rparr>"
  have ready: "net_ready (client_ready BigEndian) ?u" using net_of_ready [OF s] by (simp add: net_ready_def)
  then have ready': "net_ready (client_ready BigEndian) ?t" "inline_ready (sim_world s)"
    using net_of_ready [OF s]
    by (auto simp: net_ready_def client_ready_def net_of_def freshClient_def SetByteOrder_def inline_ready_def sim_world_def)
  have spec: "fst (spec_calls BigEndian [Put (WordsAt MemoryAreaDMWord 7 [5]), GetWords MemoryAreaDMWord 7 1] p) =
      [Stored, GotWords [5]]" for p
    using be.words_from_store [of _ 7 "[5]"] by (simp add: Let_def)
  show ?thesis
    using clients_interchangeable [OF ready ready', of "[Put (WordsAt MemoryAreaDMWord 7 [5]), GetWords MemoryAreaDMWord 7 1]" None]
      spec [of "inline_plc (sim_world s)"]
    by (auto simp: simulator_of_def net_of_def sim_world_def inline_plc_def
        checkIsWordMemoryArea_def fits_def)
qed

end
