(* ===== verification/Fins_Observe.thy ===== *)
theory Fins_Observe
  imports Fins_Metrics Fins_Retry Fins_Validation Fins_Iface
begin

text \<open>
  Watching does not change behaviour.  Two computations agree when they return the same value and
  leave worlds that differ at most in the log lines and the collectors.  The locale
  \<open>core_respecting\<close> is the contract of an interceptor that looks at neither (retries, guards);
  \<open>observer\<close> extends it: its own step makes no difference (logging, tracing, metrics).  Observers
  can be taken out of a chain, or put in anywhere, without a difference to the caller.
\<close>

section \<open>Agreement\<close>

definition agree :: "('v \<times> 'a world_scheme) option \<Rightarrow> ('v \<times> 'a world_scheme) option \<Rightarrow> bool" where
  "agree a b \<longleftrightarrow> (case a of None \<Rightarrow> b = None
     | Some (v, w) \<Rightarrow> (case b of None \<Rightarrow> False | Some (v', w') \<Rightarrow> v' = v \<and> same_core w w'))"

definition invokers_agree :: "('a world_scheme) invoker \<Rightarrow> ('a world_scheme) invoker \<Rightarrow> bool" where
  "invokers_agree f g \<longleftrightarrow> (\<forall>x w w'. same_core w w' \<longrightarrow> agree (f x w) (g x w'))"

lemma agree_simps [simp]:
  "agree None b \<longleftrightarrow> b = None" "agree (Some (v, w)) (Some (v', w')) \<longleftrightarrow> v' = v \<and> same_core w w'"
  "agree (Some p) None = False"
  by (auto simp: agree_def split: prod.splits)

lemma agree_cases:
  assumes "agree a b"
  obtains "a = None" "b = None" | v w w' where "a = Some (v, w)" "b = Some (v, w')" "same_core w w'"
  using assms by (auto simp: agree_def split: option.splits prod.splits)

lemma agree_bind:
  assumes "agree a b" "\<And>v w w'. same_core w w' \<Longrightarrow> agree (g v w) (h v w')"
  shows "agree (do { (v, w) \<leftarrow> a; g v w }) (do { (v, w) \<leftarrow> b; h v w })"
  using assms(1) by (cases rule: agree_cases) (simp_all add: assms(2))

lemma same_core_effects [simp]:
  "same_core w w' \<Longrightarrow> same_core (Sleep d w) (Sleep d w')" "same_core (Log l w) w' = same_core w w'"
  by (simp_all add: same_core_def Sleep_def Log_def)

lemma same_core_sym: "same_core w w' \<Longrightarrow> same_core w' w"
  by (simp add: same_core_def)

lemma same_core_now: "same_core w w' \<Longrightarrow> w_now w' = w_now w"
  by (simp add: same_core_def)

lemma invokers_agreeD: "invokers_agree f g \<Longrightarrow> same_core w w' \<Longrightarrow> agree (f x w) (g x w')"
  by (simp add: invokers_agree_def)

section \<open>The two contracts\<close>

locale core_respecting =
  fixes ic :: "('a world_scheme) interceptor"
  assumes respects: "invokers_agree f g \<Longrightarrow> same_core w w' \<Longrightarrow>
    agree (ic \<lparr>ic_ctx = x, ic_info = nfo, ic_invoker = f\<rparr> w) (ic \<lparr>ic_ctx = x, ic_info = nfo, ic_invoker = g\<rparr> w')"

locale observer = core_respecting +
  assumes observes: "invokers_agree f g \<Longrightarrow> same_core w w' \<Longrightarrow>
    agree (ic \<lparr>ic_ctx = x, ic_info = nfo, ic_invoker = f\<rparr> w) (g x w')"

text \<open>What watches in the sense of \<open>pass_through\<close> is an observer.\<close>

context pass_through
begin

lemma watched:
  fixes w w' :: "'a world_scheme"
  assumes "agree (f x (before x nfo w)) (g x w')"
  shows "agree (ic \<lparr>ic_ctx = x, ic_info = nfo, ic_invoker = f\<rparr> w) (g x w')"
  using assms
proof (cases rule: agree_cases)
  case 1
  then show ?thesis by (simp add: ic_eq)
next
  case (2 v u u')
  then show ?thesis
    using same_core_trans [OF same_core_sym [OF after_core [of u x nfo w v]]] by (simp add: ic_eq)
qed

lemma before_agrees: "same_core w w' \<Longrightarrow> same_core (before x nfo w) w'"
  using same_core_trans [OF same_core_sym [OF before_core]] .

lemma makes_observer: "observer ic"
proof
  fix f g :: "('a world_scheme) invoker" and w w' :: "'a world_scheme" and x nfo
  assume "invokers_agree f g" and core: "same_core w w'"
  then have fg: "agree (f x w1) (g x w2)" if "same_core w1 w2" for w1 w2
    using that by (simp add: invokers_agreeD)
  show "agree (ic \<lparr>ic_ctx = x, ic_info = nfo, ic_invoker = f\<rparr> w) (g x w')"
    using fg [OF before_agrees [OF core]] by (rule watched)
  have "agree (f x (before x nfo w)) (g x (before x nfo w'))"
    using same_core_trans [OF before_agrees [OF core] before_core] by (rule fg)
  then show "agree (ic \<lparr>ic_ctx = x, ic_info = nfo, ic_invoker = f\<rparr> w) (ic \<lparr>ic_ctx = x, ic_info = nfo, ic_invoker = g\<rparr> w')"
  proof (cases rule: agree_cases)
    case 1
    then show ?thesis by (simp add: ic_eq)
  next
    case (2 v u u')
    have "same_core (after x nfo w v u) u'"
      using same_core_trans [OF same_core_sym [OF after_core] 2(3)] .
    then have "same_core (after x nfo w v u) (after x nfo w' v u')"
      by (rule same_core_trans [OF _ after_core])
    then show ?thesis using 2 by (simp add: ic_eq)
  qed
qed

end

section \<open>The library's interceptors\<close>

definition trace_area_before ::
    "ctx_key \<Rightarrow> Context \<Rightarrow> InterceptorInfo \<Rightarrow> 'a world_scheme \<Rightarrow> 'a world_scheme" where
  "trace_area_before key x nfo w = (case ctxValues x key of
     Some t \<Rightarrow> Log (LogTraceArea t (Operation nfo) (MemoryArea nfo) (Address nfo)) w | None \<Rightarrow> w)"

interpretation tracing_area: pass_through "TracingInterceptorWithLogger key" "trace_area_before key" "\<lambda>_ _ _ _ w'. w'" for key
  by unfold_locales
    (auto simp: TracingInterceptorWithLogger_def Invoke_def trace_area_before_def map_option_case split: option.splits)

interpretation log_watch: observer LoggingInterceptor by (rule logging.makes_observer)
interpretation trace_watch: observer "TracingInterceptor key" for key by (rule tracing.makes_observer)
interpretation area_watch: observer "TracingInterceptorWithLogger key" for key by (rule tracing_area.makes_observer)
interpretation metrics_watch: observer "MetricsInterceptor mid" for mid by (rule metrics.makes_observer)

text \<open>A guard decides by the operation's description alone.\<close>

lemma guarded_respects: "core_respecting (guarded v)"
  by unfold_locales (auto simp: guarded_def Invoke_def invokers_agreeD split: option.splits)

interpretation validation_core: core_respecting "ValidationInterceptorWithLimits mr mw" for mr mw
  unfolding ValidationInterceptorWithLimits_def by (rule guarded_respects)

interpretation ranges_core: core_respecting "AddressRangeValidator rs" for rs
  unfolding AddressRangeValidator_def by (rule guarded_respects)

interpretation read_only_core: core_respecting ReadOnlyInterceptor
  unfolding ReadOnlyInterceptor_def by (rule guarded_respects)

text \<open>A retry looks at the time, the error and the context.\<close>

lemma backoff_loop_respects:
  assumes "invokers_agree f g" "c = \<lparr>ic_ctx = x, ic_info = nfo, ic_invoker = f\<rparr>" "same_core w w'"
  shows "agree (backoff_loop m md c k d cur w) (backoff_loop m md (c\<lparr>ic_invoker := g\<rparr>) k d cur w')"
  using assms
proof (induction m md c k d cur w arbitrary: w' rule: backoff_loop.induct)
  case (1 m md c k d cur w)
  show ?case
  proof (cases "k \<le> m")
    case True
    have "agree (f x w) (g x w')" using "1.prems" by (simp add: invokers_agreeD)
    then show ?thesis
    proof (cases rule: agree_cases)
      case 1
      then show ?thesis
        using True "1.prems" by (simp add: backoff_loop.simps [of _ _ _ k] Invoke_def)
    next
      case (2 v u u')
      then show ?thesis
        using True "1.prems" "1.IH" [OF True]
        by (cases v) (auto simp: backoff_loop.simps [of _ _ _ k] Invoke_def same_core_now split: option.splits)
    qed
  qed (use "1.prems" in \<open>simp add: loops_done\<close>)
qed

lemma conditional_loop_respects:
  assumes "invokers_agree f g" "c = \<lparr>ic_ctx = x, ic_info = nfo, ic_invoker = f\<rparr>" "same_core w w'"
  shows "agree (conditional_loop m d sr c k cur w) (conditional_loop m d sr (c\<lparr>ic_invoker := g\<rparr>) k cur w')"
  using assms
proof (induction m d sr c k cur w arbitrary: w' rule: conditional_loop.induct)
  case (1 m d sr c k cur w)
  show ?case
  proof (cases "k \<le> m")
    case True
    have "agree (f x w) (g x w')" using "1.prems" by (simp add: invokers_agreeD)
    then show ?thesis
    proof (cases rule: agree_cases)
      case 1
      then show ?thesis
        using True "1.prems" by (simp add: conditional_loop.simps [of _ _ _ _ k] Invoke_def)
    next
      case (2 v u u')
      then show ?thesis
        using True "1.prems" "1.IH" [OF True]
        by (cases v) (auto simp: conditional_loop.simps [of _ _ _ _ k] Invoke_def same_core_now split: option.splits)
    qed
  qed (use "1.prems" in \<open>simp add: loops_done\<close>)
qed

text \<open>The plain retry is the conditional one that always tries again.\<close>

lemma retry_is_conditional: "RetryInterceptor m d = RetryInterceptorConditional m d (\<lambda>_. True)"
proof -
  have "retry_loop m d c k cur w = conditional_loop m d (\<lambda>_. True) c k cur w"
    for c :: "('a world_scheme) InterceptorCtx" and k cur w
  proof (induction m d c k cur w rule: retry_loop.induct)
    case (1 m d c k cur w)
    show ?case
      by (subst retry_loop.simps, subst conditional_loop.simps)
        (auto simp: 1 loops_done split: option.splits intro!: Option.bind_cong)
  qed
  then show ?thesis by (intro ext) (simp add: RetryInterceptor_def RetryInterceptorConditional_def)
qed

interpretation backoff_core: core_respecting "RetryInterceptorWithBackoff m d md" for m d md
  by unfold_locales (use backoff_loop_respects [OF _ refl] in \<open>simp add: RetryInterceptorWithBackoff_def\<close>)

interpretation conditional_core: core_respecting "RetryInterceptorConditional m d sr" for m d sr
  by unfold_locales (use conditional_loop_respects [OF _ refl] in \<open>simp add: RetryInterceptorConditional_def\<close>)

interpretation retry_core: core_respecting "RetryInterceptor m d" for m d
  unfolding retry_is_conditional ..

section \<open>Chains with and without observers\<close>

text \<open>\<open>thinned xs ys\<close>: the chain \<open>ys\<close> is \<open>xs\<close> without some of its watching interceptors.\<close>

definition watching :: "('a world_scheme) interceptor \<Rightarrow> bool" where
  "watching ic \<longleftrightarrow> ic = LoggingInterceptor \<or> (\<exists>key. ic = TracingInterceptor key) \<or>
     (\<exists>key. ic = TracingInterceptorWithLogger key) \<or> (\<exists>mid. ic = MetricsInterceptor mid)"

definition working :: "('a world_scheme) interceptor \<Rightarrow> bool" where
  "working ic \<longleftrightarrow> (\<exists>m d. ic = RetryInterceptor m d) \<or> (\<exists>m d md. ic = RetryInterceptorWithBackoff m d md) \<or>
     (\<exists>m d sr. ic = RetryInterceptorConditional m d sr) \<or>
     (\<exists>mr mw. ic = ValidationInterceptorWithLimits mr mw) \<or> (\<exists>rs. ic = AddressRangeValidator rs) \<or>
     ic = ReadOnlyInterceptor"

inductive thinned :: "('a world_scheme) interceptor list \<Rightarrow> ('a world_scheme) interceptor list \<Rightarrow> bool" where
  thinned_Nil: "thinned [] []"
| thinned_keep: "watching i \<or> working i \<Longrightarrow> thinned xs ys \<Longrightarrow> thinned (i # xs) (i # ys)"
| thinned_drop: "watching i \<Longrightarrow> thinned xs ys \<Longrightarrow> thinned (i # xs) ys"

inductive_simps thinned_simps [simp]: "thinned [] ys" "thinned (i # xs) ys"

lemma watching_observer: "watching ic \<Longrightarrow> observer ic"
  by (auto simp: watching_def log_watch.observer_axioms trace_watch.observer_axioms
      area_watch.observer_axioms metrics_watch.observer_axioms)

lemma library_respects: "watching ic \<or> working ic \<Longrightarrow> core_respecting ic"
  using watching_observer [THEN observer.axioms(1)]
  by (auto simp: working_def retry_core.core_respecting_axioms backoff_core.core_respecting_axioms
      conditional_core.core_respecting_axioms validation_core.core_respecting_axioms
      ranges_core.core_respecting_axioms read_only_core.core_respecting_axioms)

text \<open>A chain around an operation, the empty chain included.\<close>

definition run_chain :: "'w interceptor list \<Rightarrow> InterceptorInfo \<Rightarrow> 'w invoker \<Rightarrow> 'w invoker" where
  "run_chain ics nfo f = (\<lambda>x. invoke_with (ChainInterceptors ics) x nfo f)"

lemma run_chain_simps:
  "run_chain [] nfo f = f"
  "run_chain (i # ics) nfo f = (\<lambda>x. i \<lparr>ic_ctx = x, ic_info = nfo, ic_invoker = run_chain ics nfo f\<rparr>)"
proof -
  show "run_chain [] nfo f = f" by (simp add: run_chain_def invoke_with_def)
  show "run_chain (i # ics) nfo f = (\<lambda>x. i \<lparr>ic_ctx = x, ic_info = nfo, ic_invoker = run_chain ics nfo f\<rparr>)"
  proof (cases "ics = []")
    case True
    then show ?thesis by (simp add: run_chain_def invoke_with_def)
  next
    case False
    then show ?thesis
      using chain_nonempty [OF False] by (auto simp: run_chain_def invoke_with_def chain_Cons)
  qed
qed

lemma thinned_agrees:
  assumes "thinned xs ys" "invokers_agree f f"
  shows "invokers_agree (run_chain xs nfo f) (run_chain ys nfo f)"
  using assms(1)
proof induction
  case thinned_Nil
  then show ?case by (simp add: run_chain_simps assms(2))
next
  case (thinned_keep i xs ys)
  show ?case
    unfolding run_chain_simps
    by (subst invokers_agree_def)
      (simp add: core_respecting.respects [OF library_respects [OF thinned_keep(1)] thinned_keep(3)])
next
  case (thinned_drop i xs ys)
  show ?case
    unfolding run_chain_simps
    by (subst invokers_agree_def)
      (simp add: observer.observes [OF watching_observer [OF thinned_drop(1)] thinned_drop(3)])
qed

section \<open>The inline client\<close>

text \<open>The server is part of what the two worlds share.\<close>

lemma same_core_srv:
  assumes "same_core w w'"
  shows "w_srv w' = w_srv w" "same_core (put_srv s w) (put_srv s w')" "inline_check x w' = inline_check x w"
proof -
  have "w_srv w' = w_srv w \<and> same_core (put_srv s w) (put_srv s w')"
    using assms by (cases w, cases w') (simp add: same_core_def put_srv_def)
  then show "w_srv w' = w_srv w" "same_core (put_srv s w) (put_srv s w')" by simp_all
  then show "inline_check x w' = inline_check x w" by (simp add: inline_check_def same_core_now [OF assms])
qed

text \<open>A body that reads the server, or replaces it by what it computes from it.\<close>

lemma guard_agrees:
  assumes "\<And>w w'. same_core w w' \<Longrightarrow> agree (body w) (body w')"
  shows "invokers_agree (inline_guard okArea a body) (inline_guard okArea a body)"
  by (auto simp: invokers_agree_def inline_guard_def same_core_srv assms split: option.splits)

definition chained :: "'w interceptor list \<Rightarrow> 'w InlineClient \<Rightarrow> 'w InlineClient" where
  "chained ics ic = ic\<lparr>il_interceptor := ChainInterceptors ics\<rparr>"

lemma chained_fields [simp]: "il_byteOrder (chained ics ic) = il_byteOrder ic"
  by (simp add: chained_def)

lemma chained_invoke: "Inline_invoke (chained ics ic) x nfo f = run_chain ics nfo f x"
  by (simp add: Inline_invoke_def chained_def run_chain_def)

lemma chained_agrees:
  assumes "thinned xs ys" "same_core w w'" "\<And>w w'. same_core w w' \<Longrightarrow> agree (body w) (body w')"
    "\<And>r w w'. same_core w w' \<Longrightarrow> agree (k r w) (k r w')"
  shows "agree (do { (r, w1) \<leftarrow> Inline_invoke (chained xs ic) x nfo (inline_guard okArea a body) w; k r w1 })
    (do { (r, w1) \<leftarrow> Inline_invoke (chained ys ic) x nfo (inline_guard okArea a body) w'; k r w1 })"
proof (rule agree_bind [OF _ assms(4)])
  show "agree (Inline_invoke (chained xs ic) x nfo (inline_guard okArea a body) w)
    (Inline_invoke (chained ys ic) x nfo (inline_guard okArea a body) w')"
    unfolding chained_invoke
    by (rule invokers_agreeD [OF thinned_agrees [OF assms(1) guard_agrees [OF assms(3)]] assms(2)])
qed

lemma agree_bind_pure:
  "(\<And>v. agree (g v) (h v)) \<Longrightarrow> agree (do { v \<leftarrow> e; g v }) (do { v \<leftarrow> e; h v })"
  by (cases e) simp_all

lemma inline_reads_agree:
  assumes "thinned xs ys" "same_core w w'"
  shows "agree (Inline_ReadWords (chained xs ic) x a ad n w) (Inline_ReadWords (chained ys ic) x a ad n w')"
    and "agree (Inline_ReadBytes (chained xs ic) x a ad n w) (Inline_ReadBytes (chained ys ic) x a ad n w')"
    and "agree (Inline_ReadBits (chained xs ic) x a ad off n w) (Inline_ReadBits (chained ys ic) x a ad off n w')"
  unfolding Inline_ReadWords_def Inline_ReadBytes_def Inline_ReadBits_def chained_fields
  by (rule chained_agrees [OF assms]; auto simp: same_core_srv intro!: agree_bind_pure split: prod.splits)+

lemma inline_writes_agree:
  assumes "thinned xs ys" "same_core w w'"
  shows "agree (Inline_WriteWords (chained xs ic) x a ad ws w) (Inline_WriteWords (chained ys ic) x a ad ws w')"
    and "agree (Inline_WriteBytes (chained xs ic) x a ad b w) (Inline_WriteBytes (chained ys ic) x a ad b w')"
    and "agree (Inline_WriteString (chained xs ic) x a ad b w) (Inline_WriteString (chained ys ic) x a ad b w')"
    and "agree (Inline_WriteBits (chained xs ic) x a ad off bs w) (Inline_WriteBits (chained ys ic) x a ad off bs w')"
    and "agree (Inline_bitTwiddle (chained xs ic) x o' a ad off v w) (Inline_bitTwiddle (chained ys ic) x o' a ad off v w')"
  unfolding Inline_WriteWords_def Inline_WriteBytes_def Inline_WriteString_def Inline_WriteBits_def Inline_bitTwiddle_def
    chained_fields
  by (rule chained_agrees [OF assms]; auto simp: same_core_srv intro!: agree_bind_pure split: prod.splits)+

lemma agree_map: "agree (map_option (map_prod f id) a) (map_option (map_prod f id) b)" if "agree a b"
  using that by (cases rule: agree_cases) simp_all

lemma inline_toggle_agrees:
  assumes "thinned xs ys" "same_core w w'"
  shows "agree (Inline_ToggleBit (chained xs ic) x a ad off w) (Inline_ToggleBit (chained ys ic) x a ad off w')"
  unfolding Inline_ToggleBit_def
  by (rule agree_bind [OF inline_reads_agree(3) [OF assms]])
    (auto split: sum.split list.split intro: inline_writes_agree(5) [OF assms(1)])

section \<open>Programs\<close>

lemma run_call_agrees:
  assumes "thinned xs ys" "same_core w w'"
  shows "agree
    (run_call (Inline_ReadWords (chained xs ic) x) (Inline_WriteWords (chained xs ic) x) (Inline_ReadBits (chained xs ic) x)
      (Inline_WriteBits (chained xs ic) x) c w)
    (run_call (Inline_ReadWords (chained ys ic) x) (Inline_WriteWords (chained ys ic) x) (Inline_ReadBits (chained ys ic) x)
      (Inline_WriteBits (chained ys ic) x) c w')"
proof (cases c)
  case (Put op)
  then show ?thesis by (cases op) (simp_all add: agree_map inline_writes_agree [OF assms])
qed (simp_all add: agree_map inline_reads_agree [OF assms])

lemma run_calls_agree:
  assumes "thinned xs ys" "same_core w w'"
  shows "agree
    (run_calls (Inline_ReadWords (chained xs ic) x) (Inline_WriteWords (chained xs ic) x) (Inline_ReadBits (chained xs ic) x)
      (Inline_WriteBits (chained xs ic) x) cs w)
    (run_calls (Inline_ReadWords (chained ys ic) x) (Inline_WriteWords (chained ys ic) x) (Inline_ReadBits (chained ys ic) x)
      (Inline_WriteBits (chained ys ic) x) cs w')"
  using assms(2)
proof (induction cs arbitrary: w w')
  case (Cons c cs)
  show ?case
    unfolding run_calls.simps
    by (rule agree_bind [OF run_call_agrees [OF assms(1) Cons.prems]])
      (rule agree_bind [OF Cons.IH], simp_all)
qed simp

lemma run_inline:
  "run_program inlineClient x cs (ic, w) = map_option (\<lambda>(rs, w'). (rs, (ic, w')))
     (run_calls (Inline_ReadWords ic x) (Inline_WriteWords ic x) (Inline_ReadBits ic x) (Inline_WriteBits ic x) cs w)"
proof -
  have call: "run_call (fc_ReadWords inlineClient x) (fc_WriteWords inlineClient x) (fc_ReadBits inlineClient x)
      (fc_WriteBits inlineClient x) c (ic, w) = map_option (\<lambda>(r, w'). (r, (ic, w')))
     (run_call (Inline_ReadWords ic x) (Inline_WriteWords ic x) (Inline_ReadBits ic x) (Inline_WriteBits ic x) c w)" for c w
  proof (cases c)
    case (Put op)
    then show ?thesis
      by (cases op) (simp_all add: inlineClient_def onInline_def option.map_comp comp_def case_prod_unfold map_prod_def)
  qed (simp_all add: inlineClient_def onInline_def option.map_comp comp_def case_prod_unfold map_prod_def)
  show ?thesis
    unfolding run_program_def
    by (induction cs arbitrary: w) (auto simp: call map_option_bind bind_map_option case_prod_unfold comp_def)
qed

text \<open>
  C23: taking logging, tracing and metrics interceptors out of a chain, or putting them in, anywhere
  between retries and guards, does not change what a program of word and bit calls gets from an
  inline client, not even whether it panics, and leaves the same simulator at the same time.
\<close>

theorem observers_transparent:
  assumes "thinned xs ys" "same_core w w'"
  shows "case run_program inlineClient x prog (chained xs ic, w) of
      None \<Rightarrow> run_program inlineClient x prog (chained ys ic, w') = None
    | Some (answers, _, u) \<Rightarrow> \<exists>u'. run_program inlineClient x prog (chained ys ic, w') = Some (answers, (chained ys ic, u')) \<and>
        w_srv u' = w_srv u \<and> same_core u u'"
  using run_calls_agree [OF assms, of ic x prog]
  by (cases rule: agree_cases) (auto simp: run_inline dest: same_core_srv(1))

theorem observers_transparent_witness:
  "\<exists>s w. run_program inlineClient Background [Put (WordsAt MemoryAreaDMWord 7 [5]), GetWords MemoryAreaDMWord 7 1]
      (chained [LoggingInterceptor, MetricsInterceptor 0] InlineClientOf, sim_world s) = Some ([Stored, GotWords [5]], w)"
proof -
  let ?prog = "[Put (WordsAt MemoryAreaDMWord 7 [5]), GetWords MemoryAreaDMWord 7 1]"
  let ?ics = "[LoggingInterceptor, MetricsInterceptor 0] :: inline_world interceptor list"
  obtain s where ready: "inline_ready (sim_world s)" using sim_world_ready by blast
  have none: "chained [] InlineClientOf = (InlineClientOf :: inline_world InlineClient)"
    by (simp add: chained_def InlineClientOf_def)
  have spec: "fst (spec_calls BigEndian ?prog p) = [Stored, GotWords [5]]" for p
    using be.words_from_store [of _ 7 "[5]"] by (simp add: Let_def)
  obtain u where bare: "run_program inlineClient Background ?prog (InlineClientOf, sim_world s) = Some ([Stored, GotWords [5]], u)"
    using inline_object.run_calls_refines [of "(InlineClientOf, sim_world s)" ?prog] ready spec
    by (auto simp: run_program_def checkIsWordMemoryArea_def fits_def)
  have "thinned ?ics []" by (auto simp: watching_def)
  then show ?thesis
    using observers_transparent [of ?ics "[]" "sim_world s" "sim_world s" Background ?prog InlineClientOf] bare none
    by (auto split: option.splits)
qed

end
