(* ===== verification/Fins_Program.thy ===== *)
theory Fins_Program
  imports Fins_Server Fins_Address
begin

text \<open>
  The example server (\<open>examples/server/main.go\<close>): a service whose \<open>Start\<close> begins the goroutine
  \<open>run\<close> and whose \<open>Stop\<close> is called by the service manager at any time, with the options of the
  simulator (\<open>server.go\<close>).  Flags, logging texts and the service library are not modelled.
\<close>

section \<open>Options\<close>

record serverConfig =
  sc_transport :: transportKind

type_synonym ServerOption = "serverConfig \<Rightarrow> serverConfig"

definition WithTCPTransport :: ServerOption where
  "WithTCPTransport cfg = cfg\<lparr>sc_transport := transportTCP\<rparr>"

definition newSimulator :: "Address \<Rightarrow> ServerOption list \<Rightarrow> fins_error option \<Rightarrow> fins_error + Server" where
  "newSimulator plcAddr opts listenErr =
     (let cfg = fold (\<lambda>opt cfg. opt cfg) opts \<lparr>sc_transport = transportUDP\<rparr>
      in NewPLCSimulator (sc_transport cfg) (TcpAddress plcAddr \<noteq> None) listenErr)"

section \<open>The program\<close>

record program =
  pg_host :: string
  pg_port :: int
  pg_network :: int
  pg_node :: int
  pg_unit :: int
  pg_tcp :: bool

definition simulatorAddress :: "(string \<Rightarrow> IP) \<Rightarrow> program \<Rightarrow> Address" where
  "simulatorAddress ParseIP p =
     NewAddress ParseIP (pg_host p) (pg_port p) (of_int (pg_network p)) (of_int (pg_node p)) (of_int (pg_unit p))"

definition simulatorOptions :: "program \<Rightarrow> ServerOption list" where
  "simulatorOptions p = (if pg_tcp p then [WithTCPTransport] else [])"

text \<open>
  \<open>run\<close>, the calls of \<open>Stop\<close>, and what they share: the simulator \<open>srv\<close> once it is made,
  whether \<open>p.server\<close> points to it, whether \<open>p.done\<close> is closed, whether a signal waits in
  \<open>sigCh\<close>.  \<open>sv_panic\<close>: a panic has ended the process.
\<close>

datatype run_pc = RunCreate | RunStore | RunWait | RunClose | RunReturned

datatype stop_pc = StopBegin | StopTest | StopServer | StopReturned

record service =
  sv_srv :: "Server option"
  sv_field :: bool
  sv_done :: bool
  sv_signal :: bool
  sv_run :: run_pc
  sv_stops :: "stop_pc list"
  sv_panic :: bool

text \<open>After \<open>Start\<close>.\<close>

definition service_init :: service where
  "service_init = \<lparr>sv_srv = None, sv_field = False, sv_done = False, sv_signal = False, sv_run = RunCreate,
     sv_stops = [], sv_panic = False\<rparr>"

definition close_server :: "service \<Rightarrow> service" where
  "close_server s = s\<lparr>sv_srv := map_option (\<lambda>x. fst (Close None x)) (sv_srv s)\<rparr>"

text \<open>\<open>run_step\<close>: \<open>listenErr\<close> is the outcome of opening the socket; \<open>None\<close> is waiting.\<close>

definition run_step :: "(string \<Rightarrow> IP) \<Rightarrow> program \<Rightarrow> fins_error option \<Rightarrow> service \<Rightarrow> service option" where
  "run_step ParseIP p listenErr s =
     (case sv_run s of
        RunCreate \<Rightarrow>
          (case newSimulator (simulatorAddress ParseIP p) (simulatorOptions p) listenErr of
             Inl e \<Rightarrow> Some (s\<lparr>sv_run := RunReturned\<rparr>)
           | Inr srv \<Rightarrow> Some (s\<lparr>sv_srv := Some srv, sv_run := RunStore\<rparr>))
      | RunStore \<Rightarrow> Some (s\<lparr>sv_field := True, sv_run := RunWait\<rparr>)
      | RunWait \<Rightarrow> if sv_signal s \<or> sv_done s then Some (s\<lparr>sv_run := RunClose\<rparr>) else None
      | RunClose \<Rightarrow> Some ((close_server s)\<lparr>sv_run := RunReturned\<rparr>)
      | RunReturned \<Rightarrow> None)"

text \<open>Closing a closed channel panics.\<close>

definition stop_step :: "nat \<Rightarrow> service \<Rightarrow> service option" where
  "stop_step i s =
     (if i < length (sv_stops s)
      then case sv_stops s ! i of
          StopBegin \<Rightarrow> if sv_done s then Some (s\<lparr>sv_panic := True\<rparr>)
                       else Some (s\<lparr>sv_done := True, sv_stops := (sv_stops s)[i := StopTest]\<rparr>)
        | StopTest \<Rightarrow> Some (s\<lparr>sv_stops := (sv_stops s)[i := if sv_field s then StopServer else StopReturned]\<rparr>)
        | StopServer \<Rightarrow> Some ((close_server s)\<lparr>sv_stops := (sv_stops s)[i := StopReturned]\<rparr>)
        | StopReturned \<Rightarrow> None
      else None)"

datatype service_event = RunGoes "fins_error option" | StopGoes nat | StopCalled | SignalComes

fun service_step :: "(string \<Rightarrow> IP) \<Rightarrow> program \<Rightarrow> service_event \<Rightarrow> service \<Rightarrow> service option" where
  "service_step ParseIP p (RunGoes e) s = (if sv_panic s then None else run_step ParseIP p e s)"
| "service_step ParseIP p (StopGoes i) s = (if sv_panic s then None else stop_step i s)"
| "service_step ParseIP p StopCalled s = Some (s\<lparr>sv_stops := sv_stops s @ [StopBegin]\<rparr>)"
| "service_step ParseIP p SignalComes s = Some (s\<lparr>sv_signal := True\<rparr>)"

inductive service_reach :: "(string \<Rightarrow> IP) \<Rightarrow> program \<Rightarrow> service \<Rightarrow> bool" for ParseIP p where
  start: "service_reach ParseIP p service_init"
| step: "service_reach ParseIP p s \<Longrightarrow> service_step ParseIP p e s = Some s' \<Longrightarrow> service_reach ParseIP p s'"

section \<open>The invariant\<close>

fun run_ok :: "run_pc \<Rightarrow> Server option \<Rightarrow> bool" where
  "run_ok RunCreate srv = (srv = None)"
| "run_ok RunReturned srv = (case srv of None \<Rightarrow> True | Some x \<Rightarrow> closed x)"
| "run_ok _ srv = (srv \<noteq> None)"

definition stopping :: "stop_pc list \<Rightarrow> bool" where
  "stopping qs \<longleftrightarrow> list_ex (\<lambda>q. q \<noteq> StopBegin) qs"

definition service_inv :: "service \<Rightarrow> bool" where
  "service_inv s \<longleftrightarrow> run_ok (sv_run s) (sv_srv s) \<and> sv_done s = stopping (sv_stops s) \<and>
     (sv_panic s \<longrightarrow> 1 < length (sv_stops s))"

lemma service_inv_init: "service_inv service_init"
  by (simp add: service_inv_def service_init_def stopping_def)

lemma closed_Close [simp]: "closed (fst (Close e x))"
  by (simp add: Close_def)

lemma run_ok_close: "run_ok r srv \<Longrightarrow> run_ok r (map_option (\<lambda>x. fst (Close None x)) srv)"
  by (cases r; cases srv) simp_all

lemma stopping_update: "i < length qs \<Longrightarrow> q \<noteq> StopBegin \<Longrightarrow> stopping (qs[i := q])"
  unfolding stopping_def list_ex_iff by (metis set_update_memI)

lemma stopping_nth: "i < length qs \<Longrightarrow> qs ! i \<noteq> StopBegin \<Longrightarrow> stopping qs"
  unfolding stopping_def list_ex_iff by (metis nth_mem)

lemma stopping_two: "i < length qs \<Longrightarrow> qs ! i = StopBegin \<Longrightarrow> stopping qs \<Longrightarrow> 1 < length qs"
  by (cases qs rule: list.exhaust; cases "tl qs") (auto simp: stopping_def)

lemma service_inv_run:
  assumes "service_inv s" "run_step ParseIP p e s = Some s'"
  shows "service_inv s'"
  using assms by (cases "sv_run s")
    (auto simp: service_inv_def run_step_def close_server_def split: sum.splits if_splits option.splits)

lemma service_inv_stop:
  assumes "service_inv s" "\<not> sv_panic s" "stop_step i s = Some s'"
  shows "service_inv s'"
proof -
  have i: "i < length (sv_stops s)" using assms(3) by (simp add: stop_step_def split: if_splits)
  show ?thesis
    using assms i stopping_two [OF i] stopping_nth [OF i]
    by (cases "sv_stops s ! i")
      (auto simp: stop_step_def service_inv_def close_server_def stopping_update run_ok_close split: if_splits)
qed

lemma service_inv_step:
  assumes "service_inv s" "service_step ParseIP p e s = Some s'"
  shows "service_inv s'"
proof (cases e)
  case (RunGoes e')
  then show ?thesis using assms service_inv_run by (auto split: if_splits)
next
  case (StopGoes i)
  then show ?thesis using assms service_inv_stop by (auto split: if_splits)
next
  case StopCalled
  then show ?thesis using assms by (auto simp: service_inv_def stopping_def)
next
  case SignalComes
  then show ?thesis using assms by (auto simp: service_inv_def)
qed

lemma service_reach_inv: "service_reach ParseIP p s \<Longrightarrow> service_inv s"
  by (induction rule: service_reach.induct) (blast intro: service_inv_init service_inv_step)+

section \<open>Properties\<close>

text \<open>\<open>run\<close> goes on alone for at most \<open>n\<close> steps.\<close>

fun run_out :: "(string \<Rightarrow> IP) \<Rightarrow> program \<Rightarrow> fins_error option \<Rightarrow> nat \<Rightarrow> service \<Rightarrow> service" where
  "run_out ParseIP p e 0 s = s"
| "run_out ParseIP p e (Suc n) s = (case run_step ParseIP p e s of None \<Rightarrow> s | Some s' \<Rightarrow> run_out ParseIP p e n s')"

lemma run_out_done:
  assumes "run_ok (sv_run s) (sv_srv s)" "sv_done s"
  shows "sv_run (run_out ParseIP p e 4 s) = RunReturned \<and>
    (\<forall>x. sv_srv (run_out ParseIP p e 4 s) = Some x \<longrightarrow> closed x)"
  using assms by (cases "sv_run s"; cases "newSimulator (simulatorAddress ParseIP p) (simulatorOptions p) e")
    (auto simp: eval_nat_numeral run_step_def close_server_def split: option.splits)

text \<open>
  C27: \<open>Stop\<close> ends the server whenever it comes.  In every interleaving with \<open>run\<close> and a signal, a
  single call of \<open>Stop\<close> does not panic, and once it has begun \<open>run\<close> returns within four steps with
  the simulator closed, also when the simulator is still being made.
\<close>

theorem stop_ends_the_server:
  assumes "service_reach ParseIP p s" "length (sv_stops s) \<le> 1"
  shows "\<not> sv_panic s \<and>
    (\<not> sv_done s \<or> sv_run (run_out ParseIP p e 4 s) = RunReturned \<and>
       (\<forall>x. sv_srv (run_out ParseIP p e 4 s) = Some x \<longrightarrow> closed x))"
  using service_reach_inv [OF assms(1)] assms(2) run_out_done [of s ParseIP p e] unfolding service_inv_def
  by (metis not_le)

text \<open>\<open>Stop\<close> before the simulator is made.\<close>

definition early_stop :: "service_event list" where
  "early_stop = [StopCalled, StopGoes 0, StopGoes 0]"

fun service_run :: "(string \<Rightarrow> IP) \<Rightarrow> program \<Rightarrow> service_event list \<Rightarrow> service \<Rightarrow> service option" where
  "service_run ParseIP p [] s = Some s"
| "service_run ParseIP p (e # es) s =
     (case service_step ParseIP p e s of None \<Rightarrow> None | Some s' \<Rightarrow> service_run ParseIP p es s')"

lemma service_run_reach:
  "service_reach ParseIP p s \<Longrightarrow> service_run ParseIP p es s = Some s' \<Longrightarrow> service_reach ParseIP p s'"
  by (induction es arbitrary: s) (auto intro: service_reach.step split: option.splits)

definition udp_program :: program where
  "udp_program = \<lparr>pg_host = ''127.0.0.1'', pg_port = 9600, pg_network = 0, pg_node = 10, pg_unit = 0, pg_tcp = False\<rparr>"

theorem stop_ends_the_server_witness:
  "\<exists>s. service_run (\<lambda>_. None) udp_program early_stop service_init = Some s \<and> sv_run s = RunCreate \<and>
    sv_run (run_out (\<lambda>_. None) udp_program None 4 s) = RunReturned"
proof -
  obtain s where s: "service_run (\<lambda>_. None) udp_program early_stop service_init = Some s" "sv_done s"
    "length (sv_stops s) = 1" "sv_run s = RunCreate"
    by (simp add: early_stop_def service_init_def stop_step_def)
  have "service_reach (\<lambda>_. None) udp_program s" using service_run_reach [OF service_reach.start s(1)] .
  then show ?thesis using stop_ends_the_server [of "\<lambda>_. None" udp_program s None] s by auto
qed

text \<open>A second \<open>Stop\<close> closes the channel again.\<close>

lemma second_stop_panics:
  "\<exists>s. service_run ParseIP p [StopCalled, StopGoes 0, StopCalled, StopGoes 1] service_init = Some s \<and> sv_panic s"
  by (simp add: service_init_def stop_step_def)

text \<open>With \<open>-tcp\<close> the simulator listens on TCP; the program's address always has a TCP address.\<close>

lemma program_transport:
  "newSimulator (simulatorAddress ParseIP p) (simulatorOptions p) None = Inr s \<Longrightarrow>
    transport s = (if pg_tcp p then transportTCP else transportUDP)"
  by (auto simp: newSimulator_def simulatorOptions_def WithTCPTransport_def NewPLCSimulator_def simulatorAddress_def
    NewAddress_def split: if_splits)

end
