(* ===== verification/Fins_Dispatch.thy ===== *)
theory Fins_Dispatch
  imports Fins_Client
begin

text \<open>
  Concurrent calls of \<open>sendCommand\<close> and the listen loop of one client, as a step relation.  Calls
  are numbered by the order in which they take their service id, and a channel is named by the call
  that made it.  A call looks its channel up only after the command is sent, so it may find the
  channel of a later call with the same service id.
\<close>

section \<open>States and steps\<close>

datatype call = Sending | Waiting nat | Answered response | GaveUp

record dispatch =
  d_started :: nat
  d_sid :: u8
  d_resp :: "u8 \<Rightarrow> nat option"
  d_buf :: "nat \<Rightarrow> response list"
  d_calls :: "nat \<Rightarrow> call option"

definition d_init :: dispatch where
  "d_init = \<lparr>d_started = 0, d_sid = 0, d_resp = (\<lambda>_. None), d_buf = (\<lambda>_. []), d_calls = (\<lambda>_. None)\<rparr>"

datatype label = Start nat | Look nat | Arrive response | Take nat response | Leave nat

definition start_call :: "dispatch \<Rightarrow> dispatch" where
  "start_call d = (let n = Suc (d_started d); sid = d_sid d + 1
     in \<lparr>d_started = n, d_sid = sid, d_resp = (d_resp d)(sid := Some n), d_buf = (d_buf d)(n := []),
         d_calls = (d_calls d)(n := Some Sending)\<rparr>)"

definition arrive :: "response \<Rightarrow> dispatch \<Rightarrow> dispatch" where
  "arrive r d = (case d_resp d (serviceID (rs_header r)) of
     Some k \<Rightarrow> if d_buf d k = [] then d\<lparr>d_buf := (d_buf d)(k := [r])\<rparr> else d
   | None \<Rightarrow> d)"

inductive d_step :: "dispatch \<Rightarrow> label \<Rightarrow> dispatch \<Rightarrow> bool" where
  start: "n = Suc (d_started d) \<Longrightarrow> d_step d (Start n) (start_call d)"
| look: "d_calls d n = Some Sending \<Longrightarrow> d_resp d (of_nat n) = Some k \<Longrightarrow>
    d_step d (Look n) (d\<lparr>d_calls := (d_calls d)(n := Some (Waiting k))\<rparr>)"
| arrives: "d_step d (Arrive r) (arrive r d)"
| takes: "d_calls d n = Some (Waiting k) \<Longrightarrow> d_buf d k = r # rs \<Longrightarrow>
    d_step d (Take n r) (d\<lparr>d_buf := (d_buf d)(k := rs), d_calls := (d_calls d)(n := Some (Answered r))\<rparr>)"
| leaves: "d_calls d n = Some Sending \<or> d_calls d n = Some (Waiting k) \<Longrightarrow>
    d_step d (Leave n) (d\<lparr>d_calls := (d_calls d)(n := Some GaveUp)\<rparr>)"

inductive_cases d_step_takeE: "d_step d (Take n r) d'"
inductive_simps d_step_start_iff: "d_step d (Start n) d'"
inductive_simps d_step_arrive_iff: "d_step d (Arrive r) d'"

inductive d_reach :: "dispatch \<Rightarrow> bool" where
  init: "d_reach d_init"
| step: "d_reach d \<Longrightarrow> d_step d l d' \<Longrightarrow> d_reach d'"

section \<open>The invariant\<close>

definition d_inv :: "dispatch \<Rightarrow> bool" where
  "d_inv d \<longleftrightarrow> d_sid d = of_nat (d_started d) \<and>
     (\<forall>s k. d_resp d s = Some k \<longrightarrow> s = of_nat k \<and> k \<le> d_started d) \<and>
     (\<forall>k. length (d_buf d k) \<le> 1 \<and> (\<forall>r \<in> set (d_buf d k). serviceID (rs_header r) = of_nat k)) \<and>
     (\<forall>n c. d_calls d n = Some c \<longrightarrow> n \<le> d_started d) \<and>
     (\<forall>n k. d_calls d n = Some (Waiting k) \<longrightarrow> n \<le> k \<and> k \<le> d_started d \<and> (of_nat k :: u8) = of_nat n) \<and>
     (\<forall>n r. d_calls d n = Some (Answered r) \<longrightarrow> serviceID (rs_header r) = of_nat n) \<and>
     (\<forall>n \<le> d_started d. 0 < n \<longrightarrow> (\<exists>k. d_resp d (of_nat n) = Some k \<and> n \<le> k))"

lemma d_invD:
  assumes "d_inv d"
  shows "d_sid d = of_nat (d_started d)"
    and "d_resp d s = Some k \<Longrightarrow> s = of_nat k" "d_resp d s = Some k \<Longrightarrow> k \<le> d_started d"
    and "r \<in> set (d_buf d k) \<Longrightarrow> serviceID (rs_header r) = of_nat k" "length (d_buf d k) \<le> 1"
    and "d_calls d n = Some c \<Longrightarrow> n \<le> d_started d"
    and "d_calls d n = Some (Waiting k) \<Longrightarrow> n \<le> k" "d_calls d n = Some (Waiting k) \<Longrightarrow> k \<le> d_started d"
    and "d_calls d n = Some (Waiting k) \<Longrightarrow> (of_nat k :: u8) = of_nat n"
    and "0 < n \<Longrightarrow> n \<le> d_started d \<Longrightarrow> d_resp d (of_nat n) = Some k \<Longrightarrow> n \<le> k"
proof -
  note all = assms [unfolded d_inv_def]
  show "d_sid d = of_nat (d_started d)" using all by (rule conjunct1)
  note all = all [THEN conjunct2]
  from all [THEN conjunct1]
  show "d_resp d s = Some k \<Longrightarrow> s = of_nat k" "d_resp d s = Some k \<Longrightarrow> k \<le> d_started d" by blast+
  note all = all [THEN conjunct2]
  from all [THEN conjunct1]
  show "r \<in> set (d_buf d k) \<Longrightarrow> serviceID (rs_header r) = of_nat k" "length (d_buf d k) \<le> 1" by blast+
  note all = all [THEN conjunct2]
  from all [THEN conjunct1] show "d_calls d n = Some c \<Longrightarrow> n \<le> d_started d" by blast
  note all = all [THEN conjunct2]
  from all [THEN conjunct1]
  show "d_calls d n = Some (Waiting k) \<Longrightarrow> n \<le> k" "d_calls d n = Some (Waiting k) \<Longrightarrow> k \<le> d_started d"
    "d_calls d n = Some (Waiting k) \<Longrightarrow> (of_nat k :: u8) = of_nat n" by blast+
  from all [THEN conjunct2, THEN conjunct2]
  show "0 < n \<Longrightarrow> n \<le> d_started d \<Longrightarrow> d_resp d (of_nat n) = Some k \<Longrightarrow> n \<le> k" by auto
qed

lemma d_inv_init: "d_inv d_init"
  by (simp add: d_inv_def d_init_def)

lemma d_inv_start: "d_inv d \<Longrightarrow> d_inv (start_call d)"
  unfolding d_inv_def start_call_def Let_def
  by (auto simp: le_Suc_eq) 

lemma d_inv_arrive: "d_inv d \<Longrightarrow> d_inv (arrive r d)"
  unfolding arrive_def by (cases "d_resp d (serviceID (rs_header r))") (auto simp: d_inv_def)

lemma d_inv_take:
  assumes "d_inv d" "d_calls d n = Some (Waiting k)" "d_buf d k = r # rs"
  shows "d_inv (d\<lparr>d_buf := (d_buf d)(k := rs), d_calls := (d_calls d)(n := Some (Answered r))\<rparr>)"
proof -
  have "serviceID (rs_header r) = of_nat k" "(of_nat k :: u8) = of_nat n" "rs = []" "n \<le> d_started d"
    using d_invD(4) [OF assms(1), of r k] d_invD(5) [OF assms(1), of k] d_invD(6,9) [OF assms(1,2)] assms(3)
    by simp_all
  then show ?thesis
    using assms(1) unfolding d_inv_def by auto
qed

lemma d_inv_step: "d_step d l d' \<Longrightarrow> d_inv d \<Longrightarrow> d_inv d'"
proof (induction rule: d_step.induct)
  case start
  then show ?case using d_inv_start by blast
next
  case (look d n k)
  have "n \<le> k"
    using d_invD(6,10) [OF look(3)] look(1,2) by (cases n) auto
  moreover have "k \<le> d_started d" "(of_nat k :: u8) = of_nat n" "n \<le> d_started d"
    using d_invD(2,3,6) [OF look(3)] look(1,2) by auto
  ultimately show ?case using look(3) unfolding d_inv_def by auto
next
  case arrives
  then show ?case by (intro d_inv_arrive)
next
  case takes
  then show ?case by (intro d_inv_take)
next
  case (leaves d n k)
  have "n \<le> d_started d" using d_invD(6) [OF leaves(2)] leaves(1) by blast
  then show ?case using leaves(2) unfolding d_inv_def by auto
qed

lemma d_reach_inv: "d_reach d \<Longrightarrow> d_inv d"
  by (induction rule: d_reach.induct) (auto intro: d_inv_init d_inv_step)

section \<open>What a call can get\<close>

lemma same_sid: "(of_nat k :: u8) = of_nat n \<longleftrightarrow> k mod 256 = n mod 256"
  by (simp add: word_of_nat_eq_iff take_bit_eq_mod)

lemma same_sid_gap: "(of_nat k :: u8) = of_nat n \<Longrightarrow> n \<le> k \<Longrightarrow> k < n + 256 \<Longrightarrow> k = n"
proof -
  assume "(of_nat k :: u8) = of_nat n" "n \<le> k" "k < n + 256"
  then have "(k - n) mod 256 = 0" "k - n < 256"
    unfolding same_sid by (auto simp: mod_eq_dvd_iff_nat elim!: dvdE)
  then show "k = n" using \<open>n \<le> k\<close> by simp
qed

text \<open>A response taken by a call carries the service id of the call.\<close>

lemma take_service_id:
  "d_reach d \<Longrightarrow> d_step d (Take n r) d' \<Longrightarrow> serviceID (rs_header r) = of_nat n"
proof -
  assume "d_reach d" and s: "d_step d (Take n r) d'"
  then have inv: "d_inv d" by (simp add: d_reach_inv)
  from s obtain k rs where "d_calls d n = Some (Waiting k)" "d_buf d k = r # rs"
    by (auto elim: d_step_takeE)
  with inv show ?thesis unfolding d_inv_def by (metis list.set_intros(1))
qed

text \<open>
  Two calls wait on the same channel only if 256 calls or more have started in between.
\<close>

lemma own_channel:
  assumes "d_reach d" "d_calls d n = Some (Waiting k)" "d_started d < n + 256"
  shows "k = n"
  using d_invD(7-9) [OF d_reach_inv [OF assms(1)]] assms(2,3) by (intro same_sid_gap) fastforce+

lemma channels_distinct:
  assumes "d_reach d" "d_calls d n = Some (Waiting k)" "d_calls d m = Some (Waiting k')" "n \<noteq> m"
    and "d_started d < n + 256" "d_started d < m + 256"
  shows "k \<noteq> k'"
  using own_channel [OF assms(1,2,5)] own_channel [OF assms(1,3,6)] assms(4) by simp

section \<open>The client's functions are these steps\<close>

text \<open>The client's table shows, for each service id, what its current channel buffers.\<close>

definition mirrors :: "dispatch \<Rightarrow> Client \<Rightarrow> bool" where
  "mirrors d c \<longleftrightarrow> cl_sid c = d_sid d \<and> cl_resp c = (\<lambda>s. map_option (d_buf d) (d_resp d s))"

lemma incrementSid_is_start:
  assumes "d_inv d" "mirrors d c"
  shows "fst (incrementSid c) = of_nat (Suc (d_started d))" "mirrors (start_call d) (snd (incrementSid c))"
proof -
  have fresh: "d_resp d s \<noteq> Some (Suc (d_started d))" for s
    using assms(1) unfolding d_inv_def by (metis Suc_n_not_le_n)
  show "fst (incrementSid c) = of_nat (Suc (d_started d))"
    using assms by (simp add: incrementSid_def Let_def mirrors_def d_inv_def add.commute)
  show "mirrors (start_call d) (snd (incrementSid c))"
    using assms(2) fresh
    by (auto simp: incrementSid_def start_call_def Let_def mirrors_def fun_eq_iff map_option_case split: option.splits)
qed

lemma deliver_is_arrive:
  assumes "d_inv d" "mirrors d c" "deliver payload c = Some c'" "decodeResponse payload = Some r"
    and "sl_len payload > 0"
  shows "mirrors (arrive r d) c'"
proof -
  let ?s = "serviceID (rs_header r)"
  have own: "d_resp d s = Some k \<Longrightarrow> d_resp d s' = Some k \<Longrightarrow> s = s'" for s s' k
    using d_invD(2) [OF assms(1)] by metis
  have c': "c' = (case cl_resp c ?s of Some [] \<Rightarrow> c\<lparr>cl_resp := (cl_resp c)(?s := Some [r])\<rparr> | _ \<Rightarrow> c)"
    using assms(3-5) by (simp add: deliver_def)
  show ?thesis
  proof (cases "d_resp d ?s")
    case None
    then show ?thesis using assms(2) c' by (simp add: mirrors_def arrive_def)
  next
    case (Some k)
    show ?thesis
    proof (cases "d_buf d k")
      case Nil
      have "map_option ((d_buf d)(k := [r])) (d_resp d s) =
          (if s = ?s then Some [r] else map_option (d_buf d) (d_resp d s))" for s
        using Some own [OF Some, of s] by (cases "d_resp d s") auto
      then show ?thesis using assms(2) c' Some Nil by (auto simp: mirrors_def arrive_def)
    next
      case Cons
      then show ?thesis using assms(2) c' Some by (simp add: mirrors_def arrive_def)
    qed
  qed
qed

section \<open>Properties\<close>

text \<open>
  C13: no call gets the response to another one.  Let calls start, look up their channel, take a
  response or give up in any order, and let any responses arrive, duplicated or late.  If the
  response that call \<open>n\<close> takes has the service id of call \<open>m\<close> and fewer than 256 calls
  started between the two, then \<open>m = n\<close>.
\<close>

theorem take_own_response:
  assumes "d_reach d" "d_step d (Take n r) d'" "serviceID (rs_header r) = of_nat m"
    and "m < n + 256" "n < m + 256"
  shows "m = n"
proof -
  have e: "(of_nat m :: u8) = of_nat n" using take_service_id [OF assms(1,2)] assms(3) by simp
  show ?thesis
  proof (cases "n \<le> m")
    case True
    then show ?thesis using e assms(4) by (intro same_sid_gap)
  next
    case False
    then show ?thesis using same_sid_gap [OF e [symmetric]] assms(5) by simp
  qed
qed

definition some_reply :: "u8 \<Rightarrow> response" where
  "some_reply sid = \<lparr>rs_header = defaultResponseHeader (defaultCommandHeader \<lparr>Network = 0, Node = 1, Unit = 0\<rparr>
      \<lparr>Network = 0, Node = 2, Unit = 0\<rparr> sid), rs_commandCode = CommandCodeMemoryAreaRead,
      rs_endCode = EndCodeNormalCompletion, rs_data = sl_make [7]\<rparr>"

definition second_waits :: dispatch where
  "second_waits = (let d = start_call (start_call d_init)
     in d\<lparr>d_calls := (d_calls d)(2 := Some (Waiting 2)), d_buf := (d_buf d)(2 := [some_reply 2])\<rparr>)"

lemma some_reply_sid: "serviceID (rs_header (some_reply sid)) = sid"
  by (simp add: some_reply_def defaultResponseHeader_def defaultCommandHeader_def defaultHeader_def)

lemma second_waits_reach: "d_reach second_waits"
proof -
  let ?d = "start_call (start_call d_init)"
  have "d_reach ?d"
    by (intro d_reach.step [OF d_reach.step [OF d_reach.init d_step.start] d_step.start]) (rule refl)+
  moreover have "d_step ?d (Look 2) (?d\<lparr>d_calls := (d_calls ?d)(2 := Some (Waiting 2))\<rparr>)"
    by (rule d_step.look) (simp_all add: start_call_def d_init_def Let_def)
  ultimately have l: "d_reach (?d\<lparr>d_calls := (d_calls ?d)(2 := Some (Waiting 2))\<rparr>)" by (rule d_reach.step)
  have "arrive (some_reply 2) (?d\<lparr>d_calls := (d_calls ?d)(2 := Some (Waiting 2))\<rparr>) = second_waits"
    by (simp add: second_waits_def Let_def arrive_def some_reply_sid start_call_def d_init_def numeral_2_eq_2)
  with d_reach.step [OF l d_step.arrives [of _ "some_reply 2"]] show ?thesis by simp
qed

theorem take_own_response_witness:
  "\<exists>d'. d_step second_waits (Take 2 (some_reply 2)) d' \<and> (\<forall>m < 250. serviceID (rs_header (some_reply 2)) = of_nat m \<longrightarrow> m = 2)"
proof -
  have "d_step second_waits (Take 2 (some_reply 2)) (second_waits\<lparr>d_buf := (d_buf second_waits)(2 := []),
      d_calls := (d_calls second_waits)(2 := Some (Answered (some_reply 2)))\<rparr>)"
    by (rule d_step.takes) (simp_all add: second_waits_def Let_def)
  then show ?thesis
    using take_own_response [OF second_waits_reach] by fastforce
qed

text \<open>
  C20: the client's table of response channels refines the dispatcher.  Taking a service id is the
  step \<open>Start\<close>: the header gets the number of the call modulo 256, and the table stays the view of
  the channels.  Delivering a response is the step \<open>Arrive\<close>.
\<close>

theorem client_refines_dispatch:
  assumes "d_reach d" "mirrors d c"
  shows "fst (incrementSid c) = of_nat (Suc (d_started d)) \<and>
     d_step d (Start (Suc (d_started d))) (start_call d) \<and> mirrors (start_call d) (snd (incrementSid c)) \<and>
     (\<forall>payload c' r. deliver payload c = Some c' \<and> decodeResponse payload = Some r \<and> sl_len payload > 0 \<longrightarrow>
        d_step d (Arrive r) (arrive r d) \<and> mirrors (arrive r d) c')"
  using incrementSid_is_start [OF d_reach_inv [OF assms(1)] assms(2)] deliver_is_arrive [OF d_reach_inv [OF assms(1)] assms(2)]
  by (auto intro: d_step.start d_step.arrives)

lemma mirrors_init: "mirrors d_init (freshClient kind s t dyn)"
  by (simp add: mirrors_def d_init_def freshClient_def)

theorem client_refines_dispatch_witness:
  "\<forall>s t. fst (incrementSid (freshClient transportUDP s t False)) = of_nat (Suc 0) \<and>
     mirrors (start_call d_init) (snd (incrementSid (freshClient transportUDP s t False)))"
  using client_refines_dispatch [OF d_reach.init mirrors_init [of transportUDP _ _ False]]
  by (simp add: d_init_def)

end
