(* ===== verification/Fins_Wait.thy ===== *)
theory Fins_Wait
  imports Go_Prelude
begin

text \<open>
  The channel \<open>connected\<close> of \<open>client.go\<close> over time.  A channel is a number; a closed one lets its
  receivers through.  Losing the connection puts a new open channel in the field, regaining it a
  new closed one, and \<open>waitForConnection\<close> receives from the channel it found when it began.
\<close>

section \<open>Channels and steps\<close>

record gate =
  g_now :: nat
  g_next :: nat
  g_closed :: "nat set"
  g_wait :: "nat \<Rightarrow> nat option"

text \<open>A new client: its channel is made and closed at once.\<close>

definition g_init :: gate where
  "g_init = \<lparr>g_now = 0, g_next = 1, g_closed = {0}, g_wait = (\<lambda>_. None)\<rparr>"

definition mark_disconnected :: "gate \<Rightarrow> gate" where
  "mark_disconnected g = g\<lparr>g_now := g_next g, g_next := Suc (g_next g)\<rparr>"

definition mark_connected :: "gate \<Rightarrow> gate" where
  "mark_connected g = (let g1 = mark_disconnected g in g1\<lparr>g_closed := insert (g_now g1) (g_closed g1)\<rparr>)"

text \<open>\<open>Begin n\<close>: operation \<open>n\<close> reads the field; \<open>Pass n\<close> and \<open>Expire n\<close>: its \<open>select\<close> ends.\<close>

datatype gate_event = Lose | Regain | Begin nat | Pass nat | Expire nat

fun gate_step :: "gate_event \<Rightarrow> gate \<Rightarrow> gate option" where
  "gate_step Lose g = Some (mark_disconnected g)"
| "gate_step Regain g = Some (mark_connected g)"
| "gate_step (Begin n) g = Some (g\<lparr>g_wait := (g_wait g)(n := Some (g_now g))\<rparr>)"
| "gate_step (Pass n) g =
     (case g_wait g n of
        Some k \<Rightarrow> if k \<in> g_closed g then Some (g\<lparr>g_wait := (g_wait g)(n := None)\<rparr>) else None
      | None \<Rightarrow> None)"
| "gate_step (Expire n) g = (if g_wait g n = None then None else Some (g\<lparr>g_wait := (g_wait g)(n := None)\<rparr>))"

fun gate_run :: "gate_event list \<Rightarrow> gate \<Rightarrow> gate option" where
  "gate_run [] g = Some g"
| "gate_run (e # es) g = (case gate_step e g of Some g' \<Rightarrow> gate_run es g' | None \<Rightarrow> None)"

section \<open>Old channels do not change\<close>

definition gate_inv :: "gate \<Rightarrow> bool" where
  "gate_inv g \<longleftrightarrow> g_now g < g_next g \<and> (\<forall>k \<in> g_closed g. k < g_next g) \<and> (\<forall>n k. g_wait g n = Some k \<longrightarrow> k < g_next g)"

lemma gate_inv_init: "gate_inv g_init"
  by (simp add: gate_inv_def g_init_def)

lemma gate_inv_step: "gate_inv g \<Longrightarrow> gate_step e g = Some g' \<Longrightarrow> gate_inv g'"
  by (cases e)
    (auto simp: gate_inv_def mark_disconnected_def mark_connected_def Let_def less_Suc_eq split: option.splits if_splits)

lemma gate_inv_run: "gate_inv g \<Longrightarrow> gate_run es g = Some g' \<Longrightarrow> gate_inv g'"
  by (induction es arbitrary: g) (auto dest: gate_inv_step split: option.splits)

lemma step_waiting:
  assumes "gate_step e g = Some g'" "e \<noteq> Begin n" "g_wait g' n = Some k"
  shows "g_wait g n = Some k"
  using assms by (cases e) (auto simp: mark_disconnected_def mark_connected_def Let_def split: option.splits if_splits)

lemma step_closed:
  assumes "gate_inv g" "gate_step e g = Some g'" "k < g_next g"
  shows "k < g_next g' \<and> (k \<in> g_closed g' \<longleftrightarrow> k \<in> g_closed g)"
  using assms by (cases e) (auto simp: mark_disconnected_def mark_connected_def Let_def split: option.splits if_splits)

lemma run_waiting:
  assumes "gate_run es g = Some g'" "Begin n \<notin> set es" "g_wait g' n = Some k"
  shows "g_wait g n = Some k"
  using assms
proof (induction es arbitrary: g)
  case (Cons e es)
  then obtain g1 where "gate_step e g = Some g1" "gate_run es g1 = Some g'" by (auto split: option.splits)
  then show ?case using Cons step_waiting [of e g g1 n k] by auto
qed simp

lemma run_closed:
  assumes "gate_inv g" "gate_run es g = Some g'" "k < g_next g"
  shows "k \<in> g_closed g' \<longleftrightarrow> k \<in> g_closed g"
  using assms
proof (induction es arbitrary: g)
  case (Cons e es)
  then obtain g1 where g1: "gate_step e g = Some g1" "gate_run es g1 = Some g'" by (auto split: option.splits)
  then show ?case
    using Cons.IH [OF gate_inv_step [OF Cons.prems(1) g1(1)] g1(2)] step_closed [OF Cons.prems(1) g1(1) Cons.prems(3)]
    by blast
qed simp

section \<open>Properties\<close>

text \<open>
  C14: only operations that begin on a connected client are ever let through.  After any events,
  let operation \<open>n\<close> begin, and let any further events happen, disconnections and successful
  reconnections included, while \<open>n\<close> waits: \<open>n\<close> can pass exactly if the client was connected when
  it began.  So an operation that begins while the client is disconnected is not woken by a later
  reconnection; it ends with its context or the client.
\<close>

theorem wait_passes_iff_connected_before:
  assumes "gate_run es g_init = Some g" "gate_run (Begin n # fs) g = Some g'" "Begin n \<notin> set fs" "g_wait g' n \<noteq> None"
  shows "gate_step (Pass n) g' \<noteq> None \<longleftrightarrow> g_now g \<in> g_closed g"
proof -
  let ?g = "g\<lparr>g_wait := (g_wait g)(n := Some (g_now g))\<rparr>"
  have inv: "gate_inv g" using gate_inv_run [OF gate_inv_init assms(1)] .
  then have inv': "gate_inv ?g" and now: "g_now g < g_next ?g" by (auto simp: gate_inv_def)
  have run: "gate_run fs ?g = Some g'" using assms(2) by simp
  obtain k where k: "g_wait g' n = Some k" using assms(4) by blast
  with run_waiting [OF run assms(3) k] have "k = g_now g" by simp
  then show ?thesis using k run_closed [OF inv' run now] by simp
qed

theorem wait_passes_iff_connected_before_witness:
  "\<exists>g'. gate_run [Lose, Begin 1, Regain] g_init = Some g' \<and> g_now g' \<in> g_closed g' \<and> gate_step (Pass 1) g' = None"
proof -
  let ?g = "mark_disconnected g_init"
  obtain g' where g': "gate_run [Begin 1, Regain] ?g = Some g'" "g_wait g' 1 \<noteq> None" "g_now g' \<in> g_closed g'"
    by (simp add: mark_disconnected_def mark_connected_def g_init_def Let_def)
  have "g_now ?g \<notin> g_closed ?g" by (simp add: mark_disconnected_def g_init_def)
  then have "gate_step (Pass 1) g' = None"
    using wait_passes_iff_connected_before [of "[Lose]" ?g 1 "[Regain]" g'] g'(1,2) by simp
  then show ?thesis using g'(1,3) by auto
qed

end
