(* ===== verification/Fins_Listen.thy ===== *)
theory Fins_Listen
  imports Fins_Reconnect
begin

text \<open>
  \<open>listenLoop\<close> of \<open>client.go\<close> as a whole: what it does with the payloads and the error that \<open>Recv\<close>
  returns, while other goroutines change the client.
\<close>

section \<open>The loop\<close>

text \<open>
  \<open>Received\<close>: a payload; \<open>Others\<close>: other goroutines run, on the loop's error channel and the client
  (the channel is the client's until a reconnection replaces that one); \<open>Failed\<close>: \<open>Recv\<close> returns an
  error, with the outcome of the disconnect hooks, what others do meanwhile and what a reconnection meets.
\<close>

datatype listen_event =
    Received "u8 slice"
  | Others "fins_error list \<times> Client \<Rightarrow> fins_error list \<times> Client"
  | Failed fins_error "fins_error option" others dialing

datatype loop_state = Listening | Ended

text \<open>
  The events end while the loop waits for the next payload, or with the event that ends it.  \<open>None\<close>:
  the loop panics, or blocks on its error channel, which nobody reads.
\<close>

fun listen_events ::
    "nat \<Rightarrow> listen_event list \<Rightarrow> fins_error list \<Rightarrow> Client \<Rightarrow> (loop_state \<times> fins_error list \<times> Client) option" where
  "listen_events fuel [] ch c = Some (Listening, ch, c)"
| "listen_events fuel (Received p # es) ch c = do { c1 \<leftarrow> deliver p c; listen_events fuel es ch c1 }"
| "listen_events fuel (Others f # es) ch c = (let (ch1, c1) = f (ch, c) in listen_events fuel es ch1 c1)"
| "listen_events fuel (Failed err hookErr others env # es) ch c =
     map_option (\<lambda>(ch1, c1). (Ended, ch1, c1)) (listen_fail fuel env others hookErr err ch c)"

definition listenLoop ::
    "nat \<Rightarrow> listen_event list \<Rightarrow> Client \<Rightarrow> (loop_state \<times> fins_error list \<times> Client) option" where
  "listenLoop fuel es c =
     (let errChan = cl_listenErr c in
      if \<not> cl_hasTransport c
      then do {
        ch \<leftarrow> err_send (Errorf ''transport not initialized'' [] None) errChan;
        Some (Ended, ch, c) }
      else listen_events fuel es errChan c)"

text \<open>Nobody else acts while the loop handles the error.\<close>

definition left_alone :: "others \<Rightarrow> bool" where
  "left_alone others \<longleftrightarrow> (\<forall>k s. others k s = s)"

section \<open>Properties\<close>

text \<open>
  C37: when the listen loop hangs.  Its error channel has room for one error and nobody reads it before
  \<open>Close\<close>.  Let the loop of an open client meet an error, with at most one error in the channel
  already (\<open>triggerReconnect\<close> puts that of its hooks there), while no other goroutine acts and the
  reconnection, if there is one, returns.  Then it blocks (until \<open>Close\<close> takes an error out) exactly
  if that error, the one of a failing disconnect hook, and the one sent because auto-reconnect is off
  or the reconnection failed, are more than one.
\<close>

theorem listen_fail_blocks_iff:
  assumes "\<not> cl_closed c" "length ch \<le> 1" "left_alone others"
    and "cl_autoReconnect c \<Longrightarrow> \<exists>c' k ds. reconnect fuel env (c\<lparr>cl_connected := False\<rparr>) = Some (r, c', k, ds)"
  shows "listen_fail fuel env others hookErr err ch c = None \<longleftrightarrow>
    1 < length ch + of_bool (hookErr \<noteq> None) + of_bool (\<not> cl_autoReconnect c \<or> r \<noteq> None)"
proof (cases "cl_autoReconnect c")
  case True
  then obtain c' k ds where "reconnect fuel env (c\<lparr>cl_connected := False\<rparr>) = Some (r, c', k, ds)"
    using assms(4) by blast
  then show ?thesis
    using assms(1-3) True
    by (cases hookErr; cases r; cases ch)
      (simp_all add: listen_fail_def left_alone_def err_send_def)
next
  case False
  then show ?thesis
    using assms(1-3)
    by (cases hookErr; cases ch) (simp_all add: listen_fail_def left_alone_def err_send_def)
qed

text \<open>
  With auto-reconnect off a failing hook is enough; with the error of a late response's hooks in the
  channel it is enough although the reconnection succeeds.
\<close>

theorem listen_fail_blocks_iff_witness:
  "listen_fail 6 (dials (\<lambda>_. Some ClientClosedError)) (\<lambda>_ s. s) (Some (IOError EOF)) (IOError EOF) [] (DisableAutoReconnect lost) = None \<and>
   listen_fail 6 (dials (\<lambda>_. Some ClientClosedError)) (\<lambda>_ s. s) None (IOError EOF) [] (DisableAutoReconnect lost) \<noteq> None \<and>
   listen_fail 6 (dials (\<lambda>_. None)) (\<lambda>_ s. s) (Some (IOError EOF)) (IOError EOF) [ClientClosedError] lost = None \<and>
   listen_fail 6 (dials (\<lambda>_. None)) (\<lambda>_ s. s) None (IOError EOF) [ClientClosedError] lost \<noteq> None"
proof -
  have others: "left_alone (\<lambda>_ s. s)" by (simp add: left_alone_def)
  have off: "\<not> cl_closed (DisableAutoReconnect lost)" "\<not> cl_autoReconnect (DisableAutoReconnect lost)" "\<not> cl_closed lost"
    by (simp_all add: lost_defs DisableAutoReconnect_def)
  have returns: "\<exists>c' k ds. reconnect 6 (dials (\<lambda>_. None)) (lost\<lparr>cl_connected := False\<rparr>) = Some (None, c', k, ds)"
    by (simp add: reconnect_def lost_defs dials_def eval_nat_numeral pause_def)
  have blocks: "listen_fail 6 (dials (\<lambda>_. Some ClientClosedError)) (\<lambda>_ s. s) h (IOError EOF) [] (DisableAutoReconnect lost) = None \<longleftrightarrow>
      h \<noteq> None" for h
    using listen_fail_blocks_iff [OF off(1) _ others, of "[]" 6 "dials (\<lambda>_. Some ClientClosedError)" None h "IOError EOF"] off(2)
    by simp
  have late: "listen_fail 6 (dials (\<lambda>_. None)) (\<lambda>_ s. s) h (IOError EOF) [ClientClosedError] lost = None \<longleftrightarrow> h \<noteq> None" for h
    using listen_fail_blocks_iff [OF off(3) _ others returns, of "[ClientClosedError]" h "IOError EOF"]
    by (simp add: lost_defs)
  show ?thesis by (simp add: blocks late)
qed

end
