(* ===== verification/Fins_Race.thy ===== *)
theory Fins_Race
  imports Fins_Client "HOL-Library.Multiset"
begin

text \<open>
  The goroutines of one client of \<open>client.go\<close> over the fields they share: the listen loop, the
  reconnections it and \<open>triggerReconnect\<close> start, operations inside \<open>sendCommand\<close>, and \<open>Close\<close>.
  A goroutine is its program counter; an event lets one of them take its next step, in any order.
  A step is an access to the shared fields; the reads that decide one branch make one step.  No
  plugin is registered, so hooks return at once and every error channel has room for the one error
  its loop may send.
\<close>

section \<open>Shared fields and program counters\<close>

text \<open>
  A transport is a number; \<open>r_dead\<close> are those that were closed, \<open>r_next\<close> the next one to be
  dialled.  \<open>r_connected\<close>: whether the channel in \<open>c.connected\<close> is closed.  \<open>r_panic\<close>: the goroutine
  that called a method of the nil transport, which ends the process.
\<close>

datatype role = Listener | Sender | Closer

text \<open>
  \<open>Loop...\<close>: \<open>listenLoop\<close>; \<open>Enter\<close> to \<open>Leave\<close>: \<open>reconnect\<close>, with the limit it has read, the number of
  attempts and, at \<open>Install\<close>, the transport just dialled; \<open>Wait\<close>: \<open>waitForConnection\<close> with the state of the channel
  it took; \<open>Send...\<close>: \<open>sendCommand\<close>; \<open>TimedOut\<close> and \<open>Mark\<close>: \<open>triggerReconnect\<close>.
\<close>

datatype pc =
    LoopStart | LoopTop | Receiving nat | LoopFailed | LoopAsk
  | Enter | Turn int nat | Dial int nat | Dialing int nat | Install nat | Announce | Spawn | Leave
  | Wait bool | SendStart | SendCall | SendWait | TimedOut | Mark
  | CloseStart | CloseDone | CloseCheck | CloseCall
  | Ended

record race =
  r_tr :: "nat option"
  r_dead :: "nat set"
  r_next :: nat
  r_connected :: bool
  r_reconnecting :: bool
  r_closed :: bool
  r_done :: bool
  r_auto :: bool
  r_max :: int
  r_panic :: "role option"
  r_threads :: "pc list"

text \<open>A client as the constructors leave it: transport 0 is dialled and the listen loop started.\<close>

definition race_init :: "bool \<Rightarrow> int \<Rightarrow> race" where
  "race_init auto m = \<lparr>r_tr = Some 0, r_dead = {}, r_next = 1, r_connected = True, r_reconnecting = False,
     r_closed = False, r_done = False, r_auto = auto, r_max = m, r_panic = None, r_threads = [LoopStart]\<rparr>"

section \<open>Steps\<close>

text \<open>
  What the outside answers at a step: a payload, a sent command, a response, a successful dial
  (\<open>Good\<close>), an error of these or an expired context (\<open>Bad\<close>), the response timeout (\<open>Late\<close>).
\<close>

datatype outcome = Good | Bad | Late

definition jump :: "pc \<Rightarrow> race \<Rightarrow> (pc \<times> pc list \<times> race) option" where
  "jump p r = Some (p, [], r)"

text \<open>\<open>pc_step\<close>: the next counter, the goroutines started, the fields; \<open>None\<close> is a goroutine that cannot go on.\<close>

fun listen_step :: "outcome \<Rightarrow> pc \<Rightarrow> race \<Rightarrow> (pc \<times> pc list \<times> race) option" where
  "listen_step x LoopStart r = (if r_tr r = None then jump Ended r else jump LoopTop r)"
| "listen_step x LoopTop r =
     (case r_tr r of None \<Rightarrow> jump LoopTop (r\<lparr>r_panic := Some Listener\<rparr>) | Some t \<Rightarrow> jump (Receiving t) r)"
| "listen_step x (Receiving t) r =
     (case x of Good \<Rightarrow> if t \<in> r_dead r then None else jump LoopTop r | Bad \<Rightarrow> jump LoopFailed r | Late \<Rightarrow> None)"
| "listen_step x LoopFailed r = (if r_done r then jump Ended r else jump LoopAsk (r\<lparr>r_connected := False\<rparr>))"
| "listen_step x LoopAsk r = (if r_auto r \<and> \<not> r_closed r then jump Enter r else jump Ended r)"
| "listen_step x p r = None"

fun reconnect_step :: "outcome \<Rightarrow> pc \<Rightarrow> race \<Rightarrow> (pc \<times> pc list \<times> race) option" where
  "reconnect_step x Enter r =
     (if r_reconnecting r then jump Ended r else jump (Turn (r_max r) 0) (r\<lparr>r_reconnecting := True\<rparr>))"
| "reconnect_step x (Turn m n) r =
     (if r_closed r \<or> \<not> r_auto r \<or> (m > 0 \<and> int n \<ge> m) then jump Leave r else jump (Dial m (Suc n)) r)"
| "reconnect_step x (Dial m n) r =
     (case r_tr r of
        Some t \<Rightarrow> jump (Dialing m n) (r\<lparr>r_dead := insert t (r_dead r), r_tr := None\<rparr>)
      | None \<Rightarrow> jump (Dialing m n) r)"
| "reconnect_step x (Dialing m n) r =
     (case x of Good \<Rightarrow> jump (Install (r_next r)) (r\<lparr>r_next := Suc (r_next r)\<rparr>) | Bad \<Rightarrow> jump (Turn m n) r | Late \<Rightarrow> None)"
| "reconnect_step x (Install t) r = jump Announce (r\<lparr>r_tr := Some t\<rparr>)"
| "reconnect_step x Announce r = jump Spawn (r\<lparr>r_connected := True\<rparr>)"
| "reconnect_step x Spawn r = Some (Leave, [LoopStart], r)"
| "reconnect_step x Leave r = jump Ended (r\<lparr>r_reconnecting := False\<rparr>)"
| "reconnect_step x p r = None"

fun wait_step :: "outcome \<Rightarrow> pc \<Rightarrow> race \<Rightarrow> (pc \<times> pc list \<times> race) option" where
  "wait_step x (Wait b) r =
     (case x of Good \<Rightarrow> if b then jump SendStart r else None | Bad \<Rightarrow> jump Ended r | Late \<Rightarrow> None)"
| "wait_step x p r = None"

fun send_step :: "outcome \<Rightarrow> pc \<Rightarrow> race \<Rightarrow> (pc \<times> pc list \<times> race) option" where
  "send_step x SendStart r = (if r_tr r = None then jump Ended r else jump SendCall r)"
| "send_step x SendCall r =
     (case r_tr r of
        None \<Rightarrow> jump SendCall (r\<lparr>r_panic := Some Sender\<rparr>)
      | Some t \<Rightarrow> if x = Good \<and> t \<notin> r_dead r then jump SendWait r else jump Ended r)"
| "send_step x SendWait r = (case x of Late \<Rightarrow> jump TimedOut r | _ \<Rightarrow> jump Ended r)"
| "send_step x p r = None"

fun trigger_step :: "outcome \<Rightarrow> pc \<Rightarrow> race \<Rightarrow> (pc \<times> pc list \<times> race) option" where
  "trigger_step x TimedOut r =
     (if r_closed r \<or> \<not> r_auto r \<or> r_reconnecting r then jump Ended r else jump Mark r)"
| "trigger_step x Mark r = Some (Ended, [Enter], r\<lparr>r_connected := False\<rparr>)"
| "trigger_step x p r = None"

fun close_step :: "outcome \<Rightarrow> pc \<Rightarrow> race \<Rightarrow> (pc \<times> pc list \<times> race) option" where
  "close_step x CloseStart r = (if r_closed r then jump Ended r else jump CloseDone (r\<lparr>r_closed := True\<rparr>))"
| "close_step x CloseDone r = jump CloseCheck (r\<lparr>r_done := True\<rparr>)"
| "close_step x CloseCheck r = (if r_tr r = None then jump Ended r else jump CloseCall r)"
| "close_step x CloseCall r =
     (case r_tr r of
        None \<Rightarrow> jump CloseCall (r\<lparr>r_panic := Some Closer\<rparr>)
      | Some t \<Rightarrow> jump Ended (r\<lparr>r_dead := insert t (r_dead r)\<rparr>))"
| "close_step x p r = None"

fun pc_step :: "outcome \<Rightarrow> pc \<Rightarrow> race \<Rightarrow> (pc \<times> pc list \<times> race) option" where
  "pc_step x LoopStart r = listen_step x LoopStart r"
| "pc_step x LoopTop r = listen_step x LoopTop r"
| "pc_step x (Receiving t) r = listen_step x (Receiving t) r"
| "pc_step x LoopFailed r = listen_step x LoopFailed r"
| "pc_step x LoopAsk r = listen_step x LoopAsk r"
| "pc_step x CloseStart r = close_step x CloseStart r"
| "pc_step x CloseDone r = close_step x CloseDone r"
| "pc_step x CloseCheck r = close_step x CloseCheck r"
| "pc_step x CloseCall r = close_step x CloseCall r"
| "pc_step x (Wait b) r = wait_step x (Wait b) r"
| "pc_step x SendStart r = send_step x SendStart r"
| "pc_step x SendCall r = send_step x SendCall r"
| "pc_step x SendWait r = send_step x SendWait r"
| "pc_step x TimedOut r = trigger_step x TimedOut r"
| "pc_step x Mark r = trigger_step x Mark r"
| "pc_step x p r = reconnect_step x p r"

text \<open>
  \<open>Thread i x\<close>: goroutine \<open>i\<close> goes on.  \<open>Call\<close>: an operation finds the client closed or takes
  the channel of \<open>c.connected\<close>.
  \<open>Enable m\<close>: \<open>EnableAutoReconnect\<close> with the limit \<open>m\<close>; \<open>Disable\<close>: \<open>DisableAutoReconnect\<close>.
\<close>

datatype event = Thread nat outcome | Call | CallClose | Enable int | Disable

fun race_step :: "event \<Rightarrow> race \<Rightarrow> race option" where
  "race_step (Thread i x) r =
     (if r_panic r = None \<and> i < length (r_threads r)
      then map_option (\<lambda>(p, new, r'). r'\<lparr>r_threads := (r_threads r)[i := p] @ new\<rparr>) (pc_step x (r_threads r ! i) r)
      else None)"
| "race_step Call r = Some (r\<lparr>r_threads := r_threads r @ [if r_closed r then Ended else Wait (r_connected r)]\<rparr>)"
| "race_step CallClose r = Some (r\<lparr>r_threads := r_threads r @ [CloseStart]\<rparr>)"
| "race_step (Enable m) r = Some (r\<lparr>r_auto := True, r_max := m\<rparr>)"
| "race_step Disable r = Some (r\<lparr>r_auto := False\<rparr>)"

fun race_run :: "event list \<Rightarrow> race \<Rightarrow> race option" where
  "race_run [] r = Some r"
| "race_run (e # es) r = (case race_step e r of Some r' \<Rightarrow> race_run es r' | None \<Rightarrow> None)"

text \<open>States reached by events of one kind; \<open>punctual\<close>: no response is late.\<close>

inductive reached :: "(event \<Rightarrow> bool) \<Rightarrow> race \<Rightarrow> race \<Rightarrow> bool" for P r0 where
  start: "reached P r0 r0"
| step: "reached P r0 r \<Longrightarrow> P e \<Longrightarrow> race_step e r = Some r' \<Longrightarrow> reached P r0 r'"

fun punctual :: "event \<Rightarrow> bool" where
  "punctual (Thread i Late) = False"
| "punctual e = True"

lemma reached_run: "reached P r0 r \<Longrightarrow> list_all P es \<Longrightarrow> race_run es r = Some r' \<Longrightarrow> reached P r0 r'"
  by (induction es arbitrary: r) (auto intro: reached.step split: option.splits)

lemma run_reached: "race_run es r = Some r' \<Longrightarrow> list_all P es \<Longrightarrow> reached P r r'"
  using reached_run reached.start by blast

lemma reached_invariant:
  assumes "reached P r0 r" "I r0" "\<And>r e r'. I r \<Longrightarrow> P e \<Longrightarrow> race_step e r = Some r' \<Longrightarrow> I r'"
  shows "I r"
  using assms by (induction rule: reached.induct) blast+

lemma race_run_append: "race_run (es @ fs) r = (case race_run es r of Some r' \<Rightarrow> race_run fs r' | None \<Rightarrow> None)"
  by (induction es arbitrary: r) (auto split: option.splits)

section \<open>One reconnection at a time\<close>

fun critical :: "pc \<Rightarrow> bool" where
  "critical (Turn m n) = True"
| "critical (Dial m n) = True"
| "critical (Dialing m n) = True"
| "critical (Install t) = True"
| "critical Announce = True"
| "critical Spawn = True"
| "critical Leave = True"
| "critical p = False"

text \<open>The goroutines inside \<open>reconnect\<close>, and the transports that are open.\<close>

definition tally :: "(pc \<Rightarrow> bool) \<Rightarrow> pc list \<Rightarrow> pc multiset" where
  "tally P ts = mset (filter P ts)"

definition inside :: "race \<Rightarrow> pc multiset" where
  "inside r = tally critical (r_threads r)"

definition live :: "race \<Rightarrow> nat set" where
  "live r = {t. t < r_next r \<and> t \<notin> r_dead r}"

fun owns :: "pc \<Rightarrow> race \<Rightarrow> bool" where
  "owns (Dialing m n) r = (r_tr r = None \<and> live r = {})"
| "owns (Install t) r = (r_tr r = None \<and> live r \<subseteq> {t} \<and> t < r_next r)"
| "owns p r = (live r \<subseteq> set_option (r_tr r))"

definition lock_inv :: "race \<Rightarrow> bool" where
  "lock_inv r \<longleftrightarrow> (\<forall>t. r_tr r = Some t \<longrightarrow> t < r_next r) \<and>
     (if r_reconnecting r then \<exists>p. inside r = {#p#} \<and> owns p r
      else inside r = {#} \<and> live r \<subseteq> set_option (r_tr r))"

lemma tally_simps [simp]:
  "tally P [] = {#}" "tally P (p # ts) = (if P p then add_mset p (tally P ts) else tally P ts)"
  "tally P (ts @ us) = tally P ts + tally P us" "p \<in># tally P ts \<longleftrightarrow> p \<in> set ts \<and> P p"
  by (auto simp: tally_def)

lemma tally_size: "length (filter P ts) = size (tally P ts)"
  by (simp only: tally_def size_mset)

lemma tally_update:
  assumes "i < length ts"
  shows "tally P (ts[i := p]) = tally P ts - (if P (ts ! i) then {#ts ! i#} else {#}) + (if P p then {#p#} else {#})"
  using assms by (simp add: tally_def mset_update)

lemma tally_none: "tally P ts = {#} \<Longrightarrow> p \<in> set ts \<Longrightarrow> \<not> P p"
  using tally_simps(4) [of p P ts] by (auto simp del: tally_simps(4))

lemma tally_one: "tally P ts = {#q#} \<Longrightarrow> p \<in> set ts \<Longrightarrow> P p \<Longrightarrow> p = q"
  using tally_simps(4) [of p P ts] by (auto simp del: tally_simps(4))

lemma thread_stepE:
  assumes "race_step (Thread i x) r = Some r'"
  obtains p new r1 where "r_panic r = None" "i < length (r_threads r)"
    "pc_step x (r_threads r ! i) r = Some (p, new, r1)" "r' = r1\<lparr>r_threads := (r_threads r)[i := p] @ new\<rparr>"
  using assms by (auto split: if_splits)

text \<open>A goroutine outside \<open>reconnect\<close> enters it or leaves what the lock protects alone.\<close>

lemma outside_step:
  assumes "pc_step x q r = Some (p, new, r1)" "\<not> critical q"
  shows "r_tr r1 = r_tr r \<and> r_next r1 = r_next r \<and> r_dead r \<subseteq> r_dead r1 \<and> tally critical new = {#} \<and>
    (if critical p then p = Turn (r_max r) 0 \<and> \<not> r_reconnecting r \<and> r_reconnecting r1 \<and> r_dead r1 = r_dead r
     else r_reconnecting r1 = r_reconnecting r)"
  using assms by (cases q) (auto simp: jump_def split: if_splits option.splits outcome.splits)

text \<open>The goroutine inside keeps what it owns, or gives the lock back.\<close>

lemma inside_step:
  assumes "pc_step x q r = Some (p, new, r1)" "critical q" "owns q r" "\<forall>t. r_tr r = Some t \<longrightarrow> t < r_next r"
  shows "(\<forall>t. r_tr r1 = Some t \<longrightarrow> t < r_next r1) \<and> tally critical new = {#} \<and>
    (if critical p then r_reconnecting r1 = r_reconnecting r \<and> owns p r1
     else \<not> r_reconnecting r1 \<and> live r1 \<subseteq> set_option (r_tr r1))"
  using assms by (cases q) (auto simp: jump_def live_def less_Suc_eq split: if_splits option.splits outcome.splits)

lemma owns_more_dead:
  assumes "owns p r" "r_tr r1 = r_tr r" "r_next r1 = r_next r" "r_dead r \<subseteq> r_dead r1"
  shows "owns p r1"
  using assms by (cases p) (auto simp: live_def)

lemma owns_threads [simp]: "owns p (r\<lparr>r_threads := ts\<rparr>) = owns p r" "live (r\<lparr>r_threads := ts\<rparr>) = live r"
  by (cases p) (auto simp: live_def)

lemma lock_inv_thread:
  assumes "lock_inv r" "race_step (Thread i x) r = Some r'"
  shows "lock_inv r'"
proof -
  obtain p new r1 where i: "i < length (r_threads r)" and st: "pc_step x (r_threads r ! i) r = Some (p, new, r1)"
    and r': "r' = r1\<lparr>r_threads := (r_threads r)[i := p] @ new\<rparr>"
    using assms(2) by (rule thread_stepE)
  have ins: "inside r' = inside r - (if critical (r_threads r ! i) then {#r_threads r ! i#} else {#}) +
    (if critical p then {#p#} else {#}) + tally critical new"
    by (simp add: inside_def r' tally_update [OF i])
  show ?thesis
  proof (cases "critical (r_threads r ! i)")
    case False
    have live: "r_dead r \<subseteq> r_dead r1 \<Longrightarrow> r_next r1 = r_next r \<Longrightarrow> live r1 \<subseteq> live r" by (auto simp: live_def)
    show ?thesis
      using assms(1) outside_step [OF st False] ins False owns_more_dead [of _ r r1] live
      by (auto simp: lock_inv_def r' split: if_splits)
  next
    case True
    then have "r_reconnecting r" 
      using assms(1) tally_none [OF _ nth_mem [OF i], of critical]
      by (auto simp: lock_inv_def inside_def split: if_splits)
    then obtain q where q: "inside r = {#q#}" "owns q r" using assms(1) by (auto simp: lock_inv_def)
    then have "r_threads r ! i = q" using tally_one [OF _ nth_mem [OF i], of critical] True by (simp add: inside_def)
    then show ?thesis
      using assms(1) inside_step [OF st True] ins True q \<open>r_reconnecting r\<close>
      by (auto simp: lock_inv_def r')
  qed
qed

lemma lock_inv_step:
  assumes "lock_inv r" "race_step e r = Some r'"
  shows "lock_inv r'"
proof (cases e)
  case (Thread i x)
  then show ?thesis using assms lock_inv_thread by blast
next
  case (Enable m)
  have "owns p (r\<lparr>r_auto := True, r_max := m\<rparr>) = owns p r" "live (r\<lparr>r_auto := True, r_max := m\<rparr>) = live r" for p
    by (cases p) (auto simp: live_def)
  then show ?thesis using assms Enable by (auto simp: lock_inv_def inside_def)
next
  case Disable
  have "owns p (r\<lparr>r_auto := False\<rparr>) = owns p r" "live (r\<lparr>r_auto := False\<rparr>) = live r" for p
    by (cases p) (auto simp: live_def)
  then show ?thesis using assms Disable by (auto simp: lock_inv_def inside_def)
qed (use assms in \<open>auto simp: lock_inv_def inside_def\<close>)

lemma lock_inv_init: "lock_inv (race_init a m)"
  by (simp add: lock_inv_def inside_def race_init_def live_def)

text \<open>
  C15: the flag \<open>reconnecting\<close> is a lock: in every reachable state at most one goroutine is inside
  \<open>reconnect\<close>, exactly one if the flag is set, and never is more than one transport open: a
  reconnection closes the old transport before it dials, and no dialled transport is forgotten.
\<close>

theorem one_reconnection_at_a_time:
  assumes "reached (\<lambda>_. True) (race_init auto m) r"
  shows "length (filter critical (r_threads r)) = (if r_reconnecting r then 1 else 0) \<and>
    (\<exists>t. live r \<subseteq> {t})"
proof -
  have inv: "lock_inv r" using reached_invariant [where I = lock_inv, OF assms lock_inv_init] lock_inv_step by blast
  have "size (inside r) = length (filter critical (r_threads r))"
    by (simp add: inside_def tally_size)
  moreover have "\<exists>t. live r \<subseteq> {t}" if "owns p r" for p
    using that by (cases p; cases "r_tr r") auto
  moreover have "\<exists>t. live r \<subseteq> {t}" if "live r \<subseteq> set_option (r_tr r)"
    using that by (cases "r_tr r") auto
  ultimately show ?thesis using inv by (auto simp: lock_inv_def split: if_splits)
qed

theorem one_reconnection_at_a_time_witness:
  "\<exists>r. reached (\<lambda>_. True) (race_init True 5) r \<and> length (filter critical (r_threads r)) = 1"
proof -
  let ?es = "Thread 0 Good # Thread 0 Good # Thread 0 Bad # replicate 6 (Thread 0 Good)"
  obtain r where run: "race_run ?es (race_init True 5) = Some r" "r_reconnecting r"
    by (simp add: race_init_def jump_def eval_nat_numeral)
  have "reached (\<lambda>_. True) (race_init True 5) r" using run_reached [OF run(1)] by (simp add: list_all_iff)
  then show ?thesis using one_reconnection_at_a_time [of True 5 r] run(2) by auto
qed

section \<open>Without late responses\<close>

text \<open>The goroutines that keep a connection served: the listen loop, or the reconnection for it.\<close>

fun active :: "pc \<Rightarrow> bool" where
  "active LoopStart = True"
| "active LoopTop = True"
| "active (Receiving t) = True"
| "active LoopFailed = True"
| "active LoopAsk = True"
| "active Enter = True"
| "active Leave = False"
| "active p = critical p"

fun serves :: "pc \<Rightarrow> race \<Rightarrow> bool" where
  "serves (Receiving t) r = (r_tr r = Some t \<and> r_connected r)"
| "serves LoopAsk r = (r_tr r \<noteq> None \<and> \<not> r_connected r)"
| "serves Enter r = (r_tr r \<noteq> None \<and> \<not> r_connected r)"
| "serves Announce r = (r_tr r \<noteq> None \<and> \<not> r_connected r)"
| "serves (Turn m n) r = (\<not> r_connected r)"
| "serves (Dial m n) r = (\<not> r_connected r)"
| "serves (Dialing m n) r = (r_tr r = None \<and> \<not> r_connected r)"
| "serves (Install t) r = (r_tr r = None \<and> \<not> r_connected r)"
| "serves p r = (r_tr r \<noteq> None \<and> r_connected r)"

definition late :: "pc \<Rightarrow> bool" where
  "late p \<longleftrightarrow> p = TimedOut \<or> p = Mark"

definition calm_inv :: "race \<Rightarrow> bool" where
  "calm_inv r \<longleftrightarrow> r_panic r \<noteq> Some Listener \<and> (\<forall>p \<in> set (r_threads r). \<not> late p) \<and>
     (tally active (r_threads r) = {#} \<or>
      (\<exists>p. tally active (r_threads r) = {#p#} \<and> serves p r))"

lemma idle_step:
  assumes "pc_step x q r = Some (p, new, r1)" "\<not> active q" "\<not> late q" "x \<noteq> Late" "r_panic r = None"
  shows "r_tr r1 = r_tr r \<and> r_connected r1 = r_connected r \<and> r_panic r1 \<noteq> Some Listener \<and> \<not> active p \<and>
    \<not> late p \<and> new = []"
  using assms by (cases q) (auto simp: jump_def late_def split: if_splits option.splits outcome.splits)

lemma active_step:
  assumes "pc_step x q r = Some (p, new, r1)" "active q" "serves q r" "r_panic r = None"
  shows "r_panic r1 = None \<and> \<not> late p \<and> (\<forall>p \<in> set new. \<not> late p) \<and>
    (if active p then tally active new = {#} \<and> serves p r1
     else tally active new = {#} \<or> (\<exists>p'. tally active new = {#p'#} \<and> serves p' r1))"
  using assms by (cases q) (auto simp: jump_def late_def split: if_splits option.splits outcome.splits)

lemma serves_cong:
  "r_tr r1 = r_tr r \<Longrightarrow> r_connected r1 = r_connected r \<Longrightarrow> serves p r1 = serves p r"
  by (cases p) auto

lemma serves_threads [simp]: "serves p (r\<lparr>r_threads := ts\<rparr>) = serves p r"
  by (rule serves_cong) simp_all

lemma calm_inv_thread:
  assumes "calm_inv r" "race_step (Thread i x) r = Some r'" "x \<noteq> Late"
  shows "calm_inv r'"
proof -
  obtain p new r1 where pan: "r_panic r = None" and i: "i < length (r_threads r)"
    and st: "pc_step x (r_threads r ! i) r = Some (p, new, r1)"
    and r': "r' = r1\<lparr>r_threads := (r_threads r)[i := p] @ new\<rparr>"
    using assms(2) by (rule thread_stepE)
  have ts: "set (r_threads r') \<subseteq> insert p (set (r_threads r) \<union> set new)"
    using set_update_subset_insert [of "r_threads r" i p] by (auto simp: r')
  have q: "\<not> late (r_threads r ! i)" using assms(1) i by (auto simp: calm_inv_def)
  have fil: "tally active (r_threads r') = tally active (r_threads r) -
    (if active (r_threads r ! i) then {#r_threads r ! i#} else {#}) + (if active p then {#p#} else {#}) + tally active new"
    by (simp add: r' tally_update [OF i])
  show ?thesis
  proof (cases "active (r_threads r ! i)")
    case False
    note st' = idle_step [OF st False q assms(3) pan]
    then show ?thesis
      using assms(1) ts fil False serves_cong [of r1 r] by (auto simp: calm_inv_def r')
  next
    case True
    then obtain q' where "tally active (r_threads r) = {#q'#}" "serves q' r"
      using assms(1) tally_none [OF _ nth_mem [OF i], of active] by (auto simp: calm_inv_def)
    then have q': "tally active (r_threads r) = {#r_threads r ! i#}" "serves (r_threads r ! i) r"
      using tally_one [OF _ nth_mem [OF i], of active] True by auto
    have same: "r_panic r' = r_panic r1" "serves q r' = serves q r1" for q by (simp_all add: r')
    show ?thesis
      using assms(1) ts fil True q'(1) active_step [OF st True q'(2) pan] unfolding calm_inv_def
      by (auto simp: same split: if_splits)
  qed
qed

lemma calm_inv_step:
  assumes "calm_inv r" "punctual e" "race_step e r = Some r'"
  shows "calm_inv r'"
proof (cases e)
  case (Thread i x)
  then show ?thesis using assms calm_inv_thread [of r i x r'] by (cases x) auto
next
  case (Enable m)
  have "serves p (r\<lparr>r_auto := True, r_max := m\<rparr>) = serves p r" for p by (rule serves_cong) simp_all
  then show ?thesis using assms Enable by (auto simp: calm_inv_def)
next
  case Disable
  have "serves p (r\<lparr>r_auto := False\<rparr>) = serves p r" for p by (rule serves_cong) simp_all
  then show ?thesis using assms Disable by (auto simp: calm_inv_def)
next
  case Call
  then have "r' = r\<lparr>r_threads := r_threads r @ [if r_closed r then Ended else Wait (r_connected r)]\<rparr>"
    using assms(3) by simp
  then show ?thesis using assms(1) by (simp add: calm_inv_def late_def)
next
  case CallClose
  then have "r' = r\<lparr>r_threads := r_threads r @ [CloseStart]\<rparr>" using assms(3) by simp
  then show ?thesis using assms(1) by (simp add: calm_inv_def late_def)
qed

text \<open>
  C16: as long as no response is late, whatever is lost, closed or switched, there is at most one
  listen loop or reconnection for it; the loop never meets the nil transport, and while it receives
  it does so from the transport that operations send on, and the client is marked connected.
\<close>

theorem punctual_listener:
  assumes "reached punctual (race_init auto m) r"
  shows "r_panic r \<noteq> Some Listener \<and> length (filter active (r_threads r)) \<le> 1 \<and>
    (\<forall>t. Receiving t \<notin> set (r_threads r) \<or> r_tr r = Some t \<and> r_connected r)"
proof -
  have "calm_inv (race_init auto m)" by (simp add: calm_inv_def race_init_def late_def)
  then have inv: "calm_inv r"
    using reached_invariant [where I = calm_inv, OF assms] calm_inv_step by blast
  have "r_tr r = Some t \<and> r_connected r" if t: "Receiving t \<in> set (r_threads r)" for t
    using inv tally_none [OF _ t, of active] tally_one [OF _ t, of active] by (auto simp: calm_inv_def)
  moreover have "size (tally active (r_threads r)) \<le> 1"
    using inv unfolding calm_inv_def by (elim conjE disjE exE) simp_all
  ultimately show ?thesis using inv tally_size unfolding calm_inv_def by auto
qed

theorem punctual_listener_witness:
  "\<exists>r. reached punctual (race_init True 5) r \<and> r_tr r = Some 0 \<and> r_connected r"
proof -
  let ?es = "[Thread 0 Good, Thread 0 Good, Call, Thread 1 Good, Thread 1 Good]"
  obtain r where run: "race_run ?es (race_init True 5) = Some r" "Receiving 0 \<in> set (r_threads r)"
    by (simp add: race_init_def jump_def eval_nat_numeral)
  have "reached punctual (race_init True 5) r" using run_reached [OF run(1)] by simp
  then show ?thesis using punctual_listener [of True 5 r] run(2) by auto
qed

section \<open>A connection lost while it is announced\<close>

text \<open>
  The new listen loop may run before the goroutine that started it leaves \<open>reconnect\<close>.  When its
  connection is lost by then, it finds the flag still set and ends.  \<open>stranded\<close>: goroutines that will
  not bring the connection back; \<open>in_flight\<close>: operations that may yet learn that they got no response.
\<close>

fun stranded :: "pc \<Rightarrow> bool" where
  "stranded Ended = True"
| "stranded Leave = True"
| "stranded (Wait b) = (\<not> b)"
| "stranded CloseStart = True"
| "stranded CloseDone = True"
| "stranded CloseCheck = True"
| "stranded CloseCall = True"
| "stranded p = False"

fun in_flight :: "pc \<Rightarrow> bool" where
  "in_flight (Wait b) = b"
| "in_flight SendStart = True"
| "in_flight SendCall = True"
| "in_flight SendWait = True"
| "in_flight p = False"

definition deserted :: "race \<Rightarrow> bool" where
  "deserted r \<longleftrightarrow> \<not> r_connected r \<and> (\<forall>p \<in> set (r_threads r). stranded p)"

lemma stranded_step:
  assumes "pc_step x q r = Some (p, new, r1)" "stranded q"
  shows "r_connected r1 = r_connected r \<and> r_next r1 = r_next r \<and> new = [] \<and> stranded p"
  using assms by (cases q) (auto simp: jump_def split: if_splits option.splits outcome.splits)

lemma deserted_step:
  assumes "deserted r" "race_step e r = Some r'"
  shows "deserted r' \<and> r_next r' = r_next r"
proof (cases e)
  case (Thread i x)
  obtain p new r1 where i: "i < length (r_threads r)" and st: "pc_step x (r_threads r ! i) r = Some (p, new, r1)"
    and r': "r' = r1\<lparr>r_threads := (r_threads r)[i := p] @ new\<rparr>"
    using assms(2) thread_stepE unfolding Thread by metis
  have "stranded (r_threads r ! i)" using assms(1) i by (simp add: deserted_def)
  from stranded_step [OF st this] show ?thesis
    using assms(1) set_update_subset_insert [of "r_threads r" i p] by (auto simp: deserted_def r')
qed (use assms in \<open>auto simp: deserted_def\<close>)

lemma deserted_run:
  "race_run es r = Some r' \<Longrightarrow> deserted r \<Longrightarrow> deserted r' \<and> r_next r' = r_next r"
proof (induction es arbitrary: r)
  case (Cons e es)
  then obtain r1 where "race_step e r = Some r1" "race_run es r1 = Some r'" by (auto split: option.splits)
  then show ?case using Cons deserted_step [of r e r1] by simp
qed simp

lemma turned_away:
  assumes "calm_inv r" "r_threads r ! i = Enter" "r_reconnecting r" "\<not> list_ex in_flight (r_threads r)"
    and "race_step (Thread i x) r = Some r'"
  shows "deserted r' \<and> r_next r' = r_next r"
proof -
  have i: "i < length (r_threads r)" and r': "r' = r\<lparr>r_threads := (r_threads r)[i := Ended]\<rparr>"
    using assms(2,3,5) by (auto simp: jump_def split: if_splits)
  have act: "tally active (r_threads r) = {#Enter#}" and down: "\<not> r_connected r"
    using assms(1) tally_none [OF _ nth_mem [OF i], of active] tally_one [OF _ nth_mem [OF i], of active]
    by (auto simp: calm_inv_def assms(2))
  have "tally active ((r_threads r)[i := Ended]) = {#}"
    by (simp add: tally_update [OF i] act assms(2))
  then have "\<not> active p" if "p \<in> set ((r_threads r)[i := Ended])" for p using that by (rule tally_none)
  moreover have "\<not> late p \<and> \<not> in_flight p" if "p \<in> set ((r_threads r)[i := Ended])" for p
    using that assms(1,4) set_update_subset_insert [of "r_threads r" i Ended]
    by (auto simp: calm_inv_def list_ex_iff late_def)
  moreover have "stranded p" if "\<not> active p" "\<not> late p" "\<not> in_flight p" for p
    using that by (cases p) (simp_all add: late_def)
  ultimately show ?thesis using down by (auto simp: deserted_def r')
qed

text \<open>
  C17: a connection lost too early is lost for good.  In any run without late responses so far, let a
  listen loop that lost its connection come to \<open>reconnect\<close> while the goroutine that made this
  connection has not left it (the flag is still set), and let no operation be in flight.  Then the loop
  ends, and whatever happens afterwards (calls, \<open>EnableAutoReconnect\<close>, \<open>Close\<close>, any failures) the client
  stays disconnected: nothing dials again, and no operation gets past its wait.
\<close>

theorem lost_for_good:
  assumes "reached punctual (race_init auto m) r" "r_threads r ! i = Enter" "r_reconnecting r"
    and "\<not> list_ex in_flight (r_threads r)" "race_run (Thread i x # es) r = Some r'"
  shows "\<not> r_connected r' \<and> r_next r' = r_next r \<and> list_all stranded (r_threads r')"
proof -
  have "calm_inv (race_init auto m)" by (simp add: calm_inv_def race_init_def late_def)
  then have inv: "calm_inv r"
    using reached_invariant [where I = calm_inv, OF assms(1)] calm_inv_step by blast
  obtain r1 where r1: "race_step (Thread i x) r = Some r1" "race_run es r1 = Some r'"
    using assms(5) by (auto simp del: race_step.simps split: option.splits)
  from turned_away [OF inv assms(2-4) r1(1)] have "deserted r1" "r_next r1 = r_next r" by simp_all
  then show ?thesis using deserted_run [OF r1(2)] by (simp add: deserted_def list_all_iff)
qed

definition lost_events :: "event list" where
  "lost_events = replicate 2 (Thread 0 Good) @ [Thread 0 Bad] @ replicate 9 (Thread 0 Good) @
     replicate 2 (Thread 1 Good) @ [Thread 1 Bad] @ replicate 2 (Thread 1 Good)"

lemma lost_run:
  "race_run lost_events (race_init True m) =
     Some \<lparr>r_tr = Some 1, r_dead = {0}, r_next = 2, r_connected = False, r_reconnecting = True,
       r_closed = False, r_done = False, r_auto = True, r_max = m, r_panic = None, r_threads = [Leave, Enter]\<rparr>"
  by (simp add: lost_events_def race_init_def jump_def eval_nat_numeral)

theorem lost_for_good_witness:
  "\<exists>r. race_run (lost_events @ [Thread 1 Good, Thread 0 Good, Call, Thread 2 Bad, Enable 7, Call]) (race_init True 5) = Some r \<and>
     \<not> r_connected r \<and> r_next r = 2"
proof -
  obtain r0 where r0: "race_run lost_events (race_init True 5) = Some r0" "r_threads r0 ! 1 = Enter" "r_reconnecting r0"
    "\<not> list_ex in_flight (r_threads r0)" "r_next r0 = 2"
    by (simp add: lost_run)
  have reached: "reached punctual (race_init True 5) r0"
    by (rule run_reached [OF r0(1)]) (simp add: lost_events_def eval_nat_numeral)
  obtain r where r: "race_run (Thread 1 Good # [Thread 0 Good, Call, Thread 2 Bad, Enable 7, Call]) r0 = Some r"
    using r0(1) by (auto simp: lost_run jump_def)
  then show ?thesis using lost_for_good [OF reached r0(2-4) r] r0(1,5) by (simp only: race_run_append) simp
qed

text \<open>
  An operation in flight can save the client: its response does not come, so it times out and starts
  a reconnection of its own.
\<close>

definition saved_events :: "event list" where
  "saved_events = replicate 2 (Thread 0 Good) @ [Call] @ replicate 3 (Thread 1 Good) @ [Thread 0 Bad] @ replicate 9 (Thread 0 Good) @
     replicate 2 (Thread 2 Good) @ [Thread 2 Bad] @ replicate 3 (Thread 2 Good) @ [Thread 0 Good] @
     [Thread 1 Late] @ replicate 2 (Thread 1 Good) @ replicate 7 (Thread 3 Good)"

lemma in_flight_recovers:
  "\<exists>r. race_run saved_events (race_init True m) = Some r \<and> r_connected r \<and> r_next r = 3"
  by (simp add: saved_events_def race_init_def jump_def eval_nat_numeral)

section \<open>Reconnections without end\<close>

text \<open>The events that are the fault of the network or the PLC, and their number in a run.\<close>

fun fault :: "event \<Rightarrow> race \<Rightarrow> bool" where
  "fault (Thread i x) r =
     (case r_threads r ! i of
        Receiving t \<Rightarrow> x = Bad \<and> t \<notin> r_dead r
      | Dialing m n \<Rightarrow> x \<noteq> Good
      | SendCall \<Rightarrow> x \<noteq> Good
      | SendWait \<Rightarrow> x \<noteq> Good
      | _ \<Rightarrow> False)"
| "fault e r = False"

fun faults :: "event list \<Rightarrow> race \<Rightarrow> nat" where
  "faults [] r = 0"
| "faults (e # es) r = of_bool (fault e r) + (case race_step e r of Some r' \<Rightarrow> faults es r' | None \<Rightarrow> 0)"

text \<open>
  Two generations of the listen loop: goroutine \<open>i\<close> still receives from a transport that was closed
  under it, goroutine \<open>j\<close> is the loop for the new one.
\<close>

definition two_loops :: "nat \<Rightarrow> nat \<Rightarrow> race \<Rightarrow> bool" where
  "two_loops i j r \<longleftrightarrow> i < j \<and> Suc j = length (r_threads r) \<and> r_threads r ! j = LoopStart \<and>
     (\<exists>t \<in> r_dead r. r_threads r ! i = Receiving t) \<and> r_tr r = Some (r_next r - 1) \<and> 0 < r_next r \<and>
     r_auto r \<and> \<not> r_closed r \<and> \<not> r_done r \<and> \<not> r_reconnecting r \<and> r_panic r = None"

definition storm_round :: "nat \<Rightarrow> nat \<Rightarrow> event list" where
  "storm_round i j = replicate 2 (Thread j Good) @ [Thread i Bad] @ replicate 10 (Thread i Good)"

lemma storm_step:
  assumes "two_loops i j r"
  shows "\<exists>r'. race_run (storm_round i j) r = Some r' \<and> faults (storm_round i j) r = 0 \<and>
    two_loops j (Suc j) r' \<and> r_next r' = Suc (r_next r)"
  using assms
  by (auto simp: two_loops_def storm_round_def jump_def eval_nat_numeral nth_append)

lemma faults_append: "race_run es r = Some r' \<Longrightarrow> faults (es @ fs) r = faults es r + faults fs r'"
  by (induction es arbitrary: r) (auto split: option.splits)

lemma storm_grows:
  "two_loops i j r \<Longrightarrow>
    \<exists>es r'. race_run es r = Some r' \<and> faults es r = 0 \<and> r_next r' = n + r_next r"
proof (induction n arbitrary: i j r)
  case 0
  then show ?case by (intro exI [of _ "[]"]) simp
next
  case (Suc n)
  then obtain r1 where r1: "race_run (storm_round i j) r = Some r1" "faults (storm_round i j) r = 0"
    "two_loops j (Suc j) r1" "r_next r1 = Suc (r_next r)"
    using storm_step by blast
  then obtain es r' where "race_run es r1 = Some r'" "faults es r1 = 0" "r_next r' = n + r_next r1"
    using Suc.IH by blast
  then show ?case using r1 by (intro exI [of _ "storm_round i j @ es"]) (simp add: race_run_append faults_append)
qed

text \<open>One operation whose response is late, and the reconnection it starts.\<close>

definition timeout_events :: "event list" where
  "timeout_events = replicate 2 (Thread 0 Good) @ Call # replicate 3 (Thread 1 Good) @ [Thread 1 Late] @
     replicate 2 (Thread 1 Good) @ replicate 8 (Thread 2 Good)"

lemma timeout_run:
  "\<exists>r. race_run timeout_events (race_init True m) = Some r \<and> faults timeout_events (race_init True m) = 1 \<and>
    two_loops 0 3 r"
  by (simp add: timeout_events_def race_init_def jump_def eval_nat_numeral two_loops_def)

text \<open>
  C18: after one late response the client can reconnect any number of times although nothing else ever
  goes wrong: the reconnection closes the transport under the listen loop, which takes this for a
  lost connection and reconnects in turn, closing the transport of the new loop.
\<close>

theorem reconnect_storm:
  "\<exists>es r. race_run es (race_init True m) = Some r \<and> faults es (race_init True m) = 1 \<and> n \<le> r_next r"
proof -
  obtain r0 where r0: "race_run timeout_events (race_init True m) = Some r0"
    "faults timeout_events (race_init True m) = 1" "two_loops 0 3 r0"
    using timeout_run by blast
  then obtain es r where "race_run es r0 = Some r" "faults es r0 = 0" "r_next r = n + r_next r0"
    using storm_grows by blast
  then show ?thesis
    using r0 by (intro exI [of _ "timeout_events @ es"] exI [of _ r]) (simp add: race_run_append faults_append)
qed

section \<open>The nil transport\<close>

text \<open>
  \<open>reconnect\<close> puts nil into \<open>c.tr\<close> between two looks of another goroutine: an operation after its
  check, \<open>Close\<close> after its check, and, after a late response, the listen loop between two payloads.
\<close>

definition nil_send :: "event list" where
  "nil_send = Call # replicate 2 (Thread 1 Good) @ replicate 2 (Thread 0 Good) @ [Thread 0 Bad] @
     replicate 5 (Thread 0 Good) @ [Thread 1 Good]"

definition nil_close :: "event list" where
  "nil_close = replicate 2 (Thread 0 Good) @ [Thread 0 Bad] @ replicate 4 (Thread 0 Good) @ CallClose #
     replicate 3 (Thread 1 Good) @ [Thread 0 Good, Thread 1 Good]"

definition nil_listen :: "event list" where
  "nil_listen = Thread 0 Good # Call # replicate 3 (Thread 1 Good) @ [Thread 1 Late] @ replicate 2 (Thread 1 Good) @
     replicate 3 (Thread 2 Good) @ [Thread 0 Good]"

text \<open>
  Each of the three goroutines that use the transport can meet the nil that \<open>reconnect\<close> leaves
  there while it dials, and panics: operations and \<open>Close\<close> even when no response is late.
\<close>

lemma nil_transport_panics:
  "map_option r_panic (race_run nil_send (race_init True m)) = Some (Some Sender) \<and> list_all punctual nil_send \<and>
   map_option r_panic (race_run nil_close (race_init True m)) = Some (Some Closer) \<and> list_all punctual nil_close \<and>
   map_option r_panic (race_run nil_listen (race_init True m)) = Some (Some Listener)"
proof (intro conjI)
  show "map_option r_panic (race_run nil_send (race_init True m)) = Some (Some Sender)"
    by (simp add: nil_send_def race_init_def jump_def eval_nat_numeral)
  show "map_option r_panic (race_run nil_close (race_init True m)) = Some (Some Closer)"
    by (simp add: nil_close_def race_init_def jump_def eval_nat_numeral)
  show "map_option r_panic (race_run nil_listen (race_init True m)) = Some (Some Listener)"
    by (simp add: nil_listen_def race_init_def jump_def eval_nat_numeral)
qed (simp_all add: nil_send_def nil_close_def eval_nat_numeral)

section \<open>Close during a dial\<close>

definition close_in_dial :: "event list" where
  "close_in_dial = replicate 2 (Thread 0 Good) @ [Thread 0 Bad] @ replicate 5 (Thread 0 Good) @ CallClose #
     replicate 3 (Thread 1 Good) @ replicate 5 (Thread 0 Good) @ replicate 2 (Thread 2 Good) @ [Thread 2 Bad, Thread 2 Good]"

text \<open>
  \<open>Close\<close> during a dial finds no transport to close; the reconnection installs the new one all the
  same, and it stays open after all goroutines have ended.
\<close>

lemma close_leaks_transport:
  "\<exists>r. race_run close_in_dial (race_init True m) = Some r \<and> r_closed r \<and> list_all (\<lambda>p. p = Ended) (r_threads r) \<and>
     1 \<in> live r"
  by (simp add: close_in_dial_def race_init_def jump_def eval_nat_numeral live_def)

end
