(* ===== verification/Fins_Race_Reconnect.thy ===== *)
theory Fins_Race_Reconnect
  imports Fins_Race Fins_Reconnect
begin

text \<open>
  The two models of \<open>reconnect\<close> fit together: the loop of \<open>Fins_Reconnect\<close>, with its delays and
  errors, is what a goroutine of \<open>Fins_Race\<close> does when the others pause.
\<close>

text \<open>What the shared fields of \<open>Fins_Race\<close> keep of a client.\<close>

definition race_view :: "race \<Rightarrow> Client \<Rightarrow> bool" where
  "race_view r c \<longleftrightarrow> (r_tr r \<noteq> None) = cl_hasTransport c \<and> r_connected r = cl_connected c \<and>
     r_reconnecting r = cl_reconnecting c \<and> r_closed r = cl_closed c \<and> r_auto r = cl_autoReconnect c"

text \<open>Goroutine \<open>i\<close> is at \<open>p\<close> and the process runs.\<close>

definition at :: "nat \<Rightarrow> pc \<Rightarrow> race \<Rightarrow> bool" where
  "at i p r \<longleftrightarrow> i < length (r_threads r) \<and> r_threads r ! i = p \<and> r_panic r = None"

definition only :: "nat \<Rightarrow> event list \<Rightarrow> bool" where
  "only i es \<longleftrightarrow> list_all (\<lambda>e. case e of Thread j x \<Rightarrow> j = i | _ \<Rightarrow> False) es"

lemma only_simps [simp]: "only i []" "only i (Thread i x # es) = only i es" "only i (es @ fs) = (only i es \<and> only i fs)"
  by (simp_all add: only_def)

lemma turn_gives_up:
  assumes "at i (Turn m a) r" "r_closed r \<or> \<not> r_auto r \<or> (m > 0 \<and> int a \<ge> m)"
  shows "\<exists>r'. race_run [Thread i Good] r = Some r' \<and> at i Leave r' \<and> (\<forall>c. race_view r' c = race_view r c) \<and>
    r_next r' = r_next r"
  using assms by (simp add: at_def jump_def race_view_def)

lemma turn_fails:
  assumes "at i (Turn m a) r" "\<not> r_closed r" "r_auto r" "\<not> (m > 0 \<and> int a \<ge> m)"
  shows "\<exists>r'. race_run [Thread i Good, Thread i Good, Thread i Bad] r = Some r' \<and> at i (Turn m (Suc a)) r' \<and>
    (\<forall>c. race_view r c \<longrightarrow> race_view r' (c\<lparr>cl_hasTransport := False\<rparr>)) \<and> r_next r' = r_next r"
  using assms by (cases "r_tr r") (simp_all add: at_def jump_def race_view_def)

lemma turn_connects:
  assumes "at i (Turn m a) r" "\<not> r_closed r" "r_auto r" "\<not> (m > 0 \<and> int a \<ge> m)"
  shows "\<exists>r'. race_run (replicate 6 (Thread i Good)) r = Some r' \<and> at i Leave r' \<and>
    (\<forall>c. race_view r c \<longrightarrow> race_view r' (established (c\<lparr>cl_hasTransport := False\<rparr>))) \<and> r_next r' = Suc (r_next r)"
  using assms by (cases "r_tr r") (simp_all add: at_def jump_def race_view_def established_def eval_nat_numeral nth_append)

lemma loop_simulated:
  assumes "undisturbed env" "hook env = None"
    and "reconnect_loop fuel env m b d a le c = Some (res, c', k, ds)"
    and "race_view r c" "at i (Turn m a) r"
  shows "\<exists>es r'. race_run es r = Some r' \<and> only i es \<and> at i Leave r' \<and> race_view r' c' \<and>
    r_next r' = r_next r + (if res = None then 1 else 0)"
  using assms(3-)
proof (induction fuel arbitrary: d a le c r ds)
  case (Suc fuel)
  have c: "interfere env (Suc a) c = c" using assms(1) by (simp add: undisturbed_def)
  obtain slept d1 where p: "pause b d (int (Suc a)) = (slept, d1)" by (cases "pause b d (int (Suc a))")
  show ?case
  proof (cases "cl_closed c \<or> \<not> cl_autoReconnect c \<or> (m > 0 \<and> int a \<ge> m)")
    case True
    then have "r_closed r \<or> \<not> r_auto r \<or> (m > 0 \<and> int a \<ge> m)"
      using Suc.prems(2) by (simp add: race_view_def)
    then obtain r' where "race_run [Thread i Good] r = Some r'" "at i Leave r'" "race_view r' c" "r_next r' = r_next r"
      using turn_gives_up [OF Suc.prems(3)] Suc.prems(2) by blast
    moreover have "c' = c" "res \<noteq> None" using Suc.prems(1) True c by (auto split: if_splits)
    ultimately show ?thesis by (intro exI [of _ "[Thread i Good]"]) auto
  next
    case False
    then have go: "\<not> r_closed r" "r_auto r" "\<not> (m > 0 \<and> int a \<ge> m)"
      using Suc.prems(2) by (auto simp: race_view_def)
    show ?thesis
    proof (cases "dial env (Suc a)")
      case None
      then have "res = None" "c' = established (c\<lparr>cl_hasTransport := False\<rparr>)"
        using Suc.prems(1) False c p assms(2) by (auto simp: Let_def)
      moreover obtain r' where "race_run (replicate 6 (Thread i Good)) r = Some r'" "at i Leave r'"
        "race_view r' (established (c\<lparr>cl_hasTransport := False\<rparr>))" "r_next r' = Suc (r_next r)"
        using turn_connects [OF Suc.prems(3) go] Suc.prems(2) by blast
      moreover have "only i (replicate 6 (Thread i Good))" by (simp add: eval_nat_numeral)
      ultimately show ?thesis by (intro exI [of _ "replicate 6 (Thread i Good)"] exI [of _ r']) simp
    next
      case (Some e)
      obtain r1 where r1: "race_run [Thread i Good, Thread i Good, Thread i Bad] r = Some r1" "at i (Turn m (Suc a)) r1"
        "race_view r1 (c\<lparr>cl_hasTransport := False\<rparr>)" "r_next r1 = r_next r"
        using turn_fails [OF Suc.prems(3) go] Suc.prems(2) by metis
      obtain ds' where "reconnect_loop fuel env m b d1 (Suc a) (Some e) (c\<lparr>cl_hasTransport := False\<rparr>) = Some (res, c', k, ds')"
        using Suc.prems(1) False Some c p by (auto simp: Let_def)
      from Suc.IH [OF this r1(3,2)] obtain es r' where "race_run es r1 = Some r'" "only i es" "at i Leave r'" "race_view r' c'"
        "r_next r' = r_next r1 + (if res = None then 1 else 0)" by blast
      moreover have "only i ([Thread i Good, Thread i Good, Thread i Bad] @ es)" using \<open>only i es\<close> by simp
      moreover have "race_run ([Thread i Good, Thread i Good, Thread i Bad] @ es) r = Some r'"
        using r1(1) \<open>race_run es r1 = Some r'\<close> by (simp only: race_run_append option.case)
      ultimately show ?thesis using r1(4) by metis
    qed
  qed
qed simp

text \<open>
  C19: \<open>reconnect\<close> as a function is what a goroutine of the concurrent model does alone.  Whatever the
  dials do, when \<open>reconnect\<close> returns there is a run of that one goroutine from its entry to its end
  that leaves the fields as the function leaves the client, with one more transport dialled exactly if
  it succeeded.
\<close>

theorem race_refines_reconnect:
  assumes "undisturbed env" "hook env = None" "reconnect fuel env c = Some (res, c', k, ds)"
    and "race_view r c" "at i Enter r" "r_max r = cl_maxReconnect c"
  shows "\<exists>es r'. race_run es r = Some r' \<and> only i es \<and> at i Ended r' \<and> race_view r' c' \<and>
    r_next r' = r_next r + (if res = None then 1 else 0)"
proof (cases "cl_reconnecting c")
  case True
  then show ?thesis
    using assms(3-5) by (intro exI [of _ "[Thread i Good]"])
      (auto simp: reconnect_def at_def jump_def race_view_def)
next
  case False
  let ?c1 = "c\<lparr>cl_reconnecting := True\<rparr>"
  let ?r1 = "r\<lparr>r_reconnecting := True, r_threads := (r_threads r)[i := Turn (cl_maxReconnect c) 0]\<rparr>"
  obtain c2 where loop: "reconnect_loop fuel env (cl_maxReconnect c) (cl_useReconnectBackoff c)
      (if cl_useReconnectBackoff c then cl_reconnectDelay c else 0) 0 None ?c1 = Some (res, c2, k, ds)"
    and c': "c' = c2\<lparr>cl_reconnecting := False\<rparr>"
    using assms(3) False by (auto simp: reconnect_def)
  have first: "race_run [Thread i Good] r = Some ?r1"
    using assms(4-6) False by (simp add: at_def jump_def race_view_def)
  have "race_view ?r1 ?c1" "at i (Turn (cl_maxReconnect c) 0) ?r1"
    using assms(4,5) by (simp_all add: race_view_def at_def)
  from loop_simulated [OF assms(1,2) loop this] obtain es r2 where
    r2: "race_run es ?r1 = Some r2" "only i es" "at i Leave r2" "race_view r2 c2"
      "r_next r2 = r_next ?r1 + (if res = None then 1 else 0)" by blast
  let ?r' = "r2\<lparr>r_reconnecting := False, r_threads := (r_threads r2)[i := Ended]\<rparr>"
  have "race_run [Thread i Good] r2 = Some ?r'" using r2(3) by (simp add: at_def jump_def)
  then have "race_run ([Thread i Good] @ es @ [Thread i Good]) r = Some ?r'"
    using first r2(1) by (simp only: race_run_append option.case)
  moreover have "at i Ended ?r'" "race_view ?r' c'" using r2(3,4) by (simp_all add: at_def race_view_def c')
  moreover have "r_next ?r' = r_next r + (if res = None then 1 else 0)" using r2(5) by simp
  moreover have "only i ([Thread i Good] @ es @ [Thread i Good])" using r2(2) by simp
  ultimately show ?thesis by metis
qed

theorem race_refines_reconnect_witness:
  "\<exists>r es r'. at 0 Enter r \<and> race_run es r = Some r' \<and> at 0 Ended r' \<and> r_connected r' \<and> r_next r' = Suc (r_next r)"
proof -
  let ?c = "lost\<lparr>cl_useReconnectBackoff := False\<rparr>"
  let ?env = "\<lparr>interfere = (\<lambda>k c. c), dial = (\<lambda>k. if k = 1 then Some ClientClosedError else None), hook = None\<rparr>"
  let ?r = "(race_init True 3)\<lparr>r_connected := False, r_threads := [Enter]\<rparr>"
  have c: "cl_hasTransport ?c" "\<not> cl_connected ?c" "\<not> cl_reconnecting ?c" "\<not> cl_closed ?c" "cl_autoReconnect ?c"
    "cl_maxReconnect ?c = 3"
    by (simp_all add: lost_def EnableAutoReconnect_def freshClient_def)
  have "undisturbed ?env" "hook ?env = None" by (simp_all add: undisturbed_def)
  moreover obtain c' k ds where "reconnect 4 ?env ?c = Some (None, c', k, ds)" "cl_connected c'"
    using c by (simp add: reconnect_def eval_nat_numeral pause_def established_def)
  moreover have "race_view ?r ?c" "at 0 Enter ?r" "r_max ?r = cl_maxReconnect ?c"
    using c by (simp_all add: race_view_def at_def race_init_def)
  ultimately obtain es r' where "race_run es ?r = Some r'" "at 0 Ended r'" "race_view r' c'" "r_next r' = r_next ?r + 1"
    using race_refines_reconnect [of ?env 4 ?c None c' k ds ?r 0] by auto
  then show ?thesis
    using \<open>at 0 Enter ?r\<close> \<open>cl_connected c'\<close> by (intro exI [of _ ?r]) (auto simp: race_view_def)
qed

end
