(* ===== verification/Fins_Local.thy ===== *)
theory Fins_Local
  imports Fins_Client
begin

text \<open>
  Local addresses of the network client (\<open>client.go\<close>): the one the caller gives, the one the system
  chose at the first dial, and what each reconnection binds to.  A dial is a function of the address
  to bind; it fails or returns the local address of the connection (\<open>None\<close> when the connection does
  not tell one of the right type).
\<close>

section \<open>State\<close>

record localAddrs =
  lc_localAddr :: "netAddr option"
  lc_localTCPAddr :: "netAddr option"
  lc_dynamicLocal :: bool

type_synonym dialer = "netAddr option \<Rightarrow> fins_error + netAddr option"

definition getLocalAddr :: "localAddrs \<Rightarrow> netAddr option" where
  "getLocalAddr st = lc_localAddr st"

definition getLocalTCPAddr :: "localAddrs \<Rightarrow> netAddr option" where
  "getLocalTCPAddr st = lc_localTCPAddr st"

text \<open>A type assertion of \<open>LocalAddr()\<close> that may fail guards each store.\<close>

definition adoptUDP :: "netAddr option \<Rightarrow> localAddrs \<Rightarrow> localAddrs" where
  "adoptUDP la st = (case la of Some a \<Rightarrow> st\<lparr>lc_localAddr := Some a\<rparr> | None \<Rightarrow> st)"

definition adoptTCP :: "netAddr option \<Rightarrow> localAddrs \<Rightarrow> localAddrs" where
  "adoptTCP la st = (case la of Some a \<Rightarrow> st\<lparr>lc_localTCPAddr := Some a\<rparr> | None \<Rightarrow> st)"

text \<open>The constructors.\<close>

definition firstUDP :: "Address \<Rightarrow> dialer \<Rightarrow> fins_error + localAddrs" where
  "firstUDP localAddr dial =
     (let st = \<lparr>lc_localAddr = UdpAddress localAddr, lc_localTCPAddr = None, lc_dynamicLocal = leaves_local_open localAddr\<rparr>
      in map_sum id (\<lambda>la. adoptUDP la st) (dial (UdpAddress localAddr)))"

definition firstTCP :: "Address \<Rightarrow> dialer \<Rightarrow> fins_error + localAddrs" where
  "firstTCP localAddr dial =
     (let st = \<lparr>lc_localAddr = None, lc_localTCPAddr = TcpAddress localAddr, lc_dynamicLocal = False\<rparr>
      in map_sum id (\<lambda>la. adoptTCP la st) (dial (lc_localTCPAddr st)))"

section \<open>Reconnecting\<close>

text \<open>\<open>refreshLocalAddr\<close>: \<open>probe\<close> dials the peer from an address of the system's choice.\<close>

definition refreshLocalAddr :: "dialer \<Rightarrow> localAddrs \<Rightarrow> localAddrs" where
  "refreshLocalAddr probe st =
     (if \<not> lc_dynamicLocal st then st
      else case probe None of Inl e \<Rightarrow> st | Inr la \<Rightarrow> adoptUDP la st)"

text \<open>One attempt of \<open>reconnect\<close>: the address it binds to, its error if it fails.\<close>

definition redial :: "transportKind \<Rightarrow> dialer \<Rightarrow> dialer \<Rightarrow> localAddrs \<Rightarrow> netAddr option \<times> fins_error option \<times> localAddrs" where
  "redial kind probe dial st =
     (case kind of
        transportUDP \<Rightarrow>
          (let st1 = refreshLocalAddr probe st; bind = getLocalAddr st1
           in case dial bind of Inl e \<Rightarrow> (bind, Some e, st1) | Inr la \<Rightarrow> (bind, None, adoptUDP la st1))
      | transportTCP \<Rightarrow>
          (let bind = getLocalTCPAddr st
           in case dial bind of Inl e \<Rightarrow> (bind, Some e, st) | Inr la \<Rightarrow> (bind, None, adoptTCP la st)))"

text \<open>The addresses that a sequence of attempts binds to.\<close>

fun redials :: "transportKind \<Rightarrow> (dialer \<times> dialer) list \<Rightarrow> localAddrs \<Rightarrow> netAddr option list \<times> localAddrs" where
  "redials kind [] st = ([], st)"
| "redials kind ((probe, dial) # rs) st =
     (let (bind, _, st1) = redial kind probe dial st; (bs, st2) = redials kind rs st1 in (bind # bs, st2))"

section \<open>Properties\<close>

text \<open>
  What \<open>net.DialUDP\<close> and \<open>net.Dialer\<close> document: the connection's local address is the given one when
  that names a host and a port, and it always names them.
\<close>

definition specific :: "netAddr \<Rightarrow> bool" where
  "specific a \<longleftrightarrow> (case na_IP a of None \<Rightarrow> False | Some ip \<Rightarrow> \<not> IsUnspecified ip) \<and> na_Port a \<noteq> 0"

definition binds :: "dialer \<Rightarrow> bool" where
  "binds dial \<longleftrightarrow> (\<forall>req la. dial req = Inr (Some la) \<longrightarrow>
     specific la \<and> (\<forall>a. req = Some a \<and> specific a \<longrightarrow> la = a))"

lemma leaves_open_iff: "leaves_local_open a \<longleftrightarrow> (case UdpAddress a of None \<Rightarrow> True | Some u \<Rightarrow> \<not> specific u)"
  by (auto simp: leaves_local_open_def specific_def split: option.split)

lemma redial_locked_udp:
  assumes "\<not> lc_dynamicLocal st" "lc_localAddr st = Some a" "specific a" "binds dial"
  shows "\<exists>e. redial transportUDP probe dial st = (Some a, e, st)"
proof (cases "dial (Some a)")
  case (Inr la)
  then have "la = None \<or> la = Some a" using assms(3,4) by (cases la) (auto simp: binds_def)
  then show ?thesis
    using assms(1,2) Inr by (cases st) (auto simp: redial_def refreshLocalAddr_def getLocalAddr_def adoptUDP_def Let_def)
qed (use assms in \<open>auto simp: redial_def refreshLocalAddr_def getLocalAddr_def\<close>)

lemma redial_tcp:
  assumes "lc_localTCPAddr st = Some a" "specific a" "binds dial"
  shows "\<exists>e. redial transportTCP probe dial st = (Some a, e, st)"
proof (cases "dial (Some a)")
  case (Inr la)
  then have "la = None \<or> la = Some a" using assms(2,3) by (cases la) (auto simp: binds_def)
  then show ?thesis
    using assms(1) Inr by (cases st) (auto simp: redial_def getLocalTCPAddr_def adoptTCP_def Let_def)
qed (use assms in \<open>auto simp: redial_def getLocalTCPAddr_def\<close>)

text \<open>
  With detection on, a UDP attempt binds to what the probe found, host and port: a port that the
  caller had chosen is not kept.
\<close>

lemma redial_dynamic:
  assumes "lc_dynamicLocal st" "probe None = Inr (Some la)"
  shows "fst (redial transportUDP probe dial st) = Some la"
  using assms by (auto simp: redial_def refreshLocalAddr_def getLocalAddr_def adoptUDP_def Let_def split: sum.split)

text \<open>
  C36: the local address across reconnections.  A UDP client without dynamic detection, once it has a
  specific address, binds every later attempt to exactly that address, whether attempts fail or
  succeed; a TCP client does so even with detection switched on.
\<close>

theorem local_address_kept:
  assumes "specific a" "list_all (\<lambda>(probe, dial). binds dial) rs"
    and "kind = transportUDP \<and> \<not> lc_dynamicLocal st \<and> lc_localAddr st = Some a \<or>
      kind = transportTCP \<and> lc_localTCPAddr st = Some a"
  shows "redials kind rs st = (replicate (length rs) (Some a), st)"
  using assms(2)
proof (induction rs)
  case (Cons r rs)
  obtain probe dial where r: "r = (probe, dial)" by (cases r)
  obtain e where "redial kind probe dial st = (Some a, e, st)"
    using assms(1,3) Cons.prems redial_locked_udp [of st a dial probe] redial_tcp [of st a dial probe] by (auto simp: r)
  then show ?case using Cons by (simp add: r Let_def)
qed simp

text \<open>A network that binds as asked, and chooses \<open>a\<close> when the choice is its own.\<close>

definition dial_as :: "netAddr \<Rightarrow> dialer" where
  "dial_as a req = Inr (Some (case req of Some r \<Rightarrow> if specific r then r else a | None \<Rightarrow> a))"

theorem local_address_kept_witness:
  "let a = \<lparr>na_IP = Some [10, 0, 0, 2], na_Port = 9601\<rparr>; b = \<lparr>na_IP = Some [10, 0, 0, 3], na_Port = 7\<rparr>;
       st = \<lparr>lc_localAddr = None, lc_localTCPAddr = Some a, lc_dynamicLocal = True\<rparr>
   in redials transportTCP [(dial_as b, \<lambda>_. Inl ClientClosedError), (dial_as b, dial_as b)] st = ([Some a, Some a], st)"
proof -
  let ?a = "\<lparr>na_IP = Some [10, 0, 0, 2], na_Port = 9601\<rparr>" and ?b = "\<lparr>na_IP = Some [10, 0, 0, 3], na_Port = 7\<rparr>"
  have "specific ?a" "specific ?b" by code_simp+
  then have "binds (dial_as ?b)" by (auto simp: binds_def dial_as_def split: option.split if_splits)
  moreover have "binds (\<lambda>_. Inl ClientClosedError)" by (simp add: binds_def)
  ultimately show ?thesis
    using local_address_kept [of ?a "[(dial_as ?b, \<lambda>_. Inl ClientClosedError), (dial_as ?b, dial_as ?b)]" transportTCP
        "\<lparr>lc_localAddr = None, lc_localTCPAddr = Some ?a, lc_dynamicLocal = True\<rparr>"] \<open>specific ?a\<close>
    by (simp add: Let_def eval_nat_numeral)
qed

end
