(* ===== verification/Fins_Coalescer.thy ===== *)
theory Fins_Coalescer
  imports Fins_Interceptor "HOL-Library.Multiset"
begin

text \<open>
  \<open>plugin_coalescer.go\<close>: the coalescer that answers several \<open>ReadWords\<close> requests from one read.
  Its goroutine is a state machine: idle (\<open>run\<close>), or collecting a batch with its bounds
  (\<open>processBatch\<close>); it reacts to a request, the timer and the stop channel, and each reaction
  carries the time at which it happens.  Replies go to the requests' channels, named by \<open>br_id\<close>.
\<close>

section \<open>Configuration and requests\<close>

record BulkReadCoalescer =
  window :: int
  maxSpan :: u16
  maxBatch :: int
  useInterceptors :: bool

definition NewBulkReadCoalescer :: "int \<Rightarrow> u16 \<Rightarrow> BulkReadCoalescer" where
  "NewBulkReadCoalescer win span =
     \<lparr>window = (if win \<le> 0 then 2000000 else win), maxSpan = (if span = 0 then 32 else span),
      maxBatch = 0, useInterceptors = True\<rparr>"

definition WithInterceptors :: "bool \<Rightarrow> BulkReadCoalescer \<Rightarrow> BulkReadCoalescer" where
  "WithInterceptors enabled b = b\<lparr>useInterceptors := enabled\<rparr>"

definition WithMaxBatchSize :: "int \<Rightarrow> BulkReadCoalescer \<Rightarrow> BulkReadCoalescer" where
  "WithMaxBatchSize n b = b\<lparr>maxBatch := if n < 0 then 0 else n\<rparr>"

record bulkReadRequest =
  br_id :: nat
  br_ctx :: Context
  br_area :: u8
  br_address :: u16
  br_count :: u16

text \<open>A \<open>bulkReadResult\<close>: the data, or the error.\<close>

type_synonym bulkReadResult = "fins_error + u16 list"

section \<open>The interceptor's decision\<close>

text \<open>Which operations are handed to the goroutine; all others run at once, marked to be skipped.\<close>

definition coalesces :: "BulkReadCoalescer \<Rightarrow> bool \<Rightarrow> Context \<Rightarrow> InterceptorInfo \<Rightarrow> bool" where
  "coalesces b hasClient x nfo \<longleftrightarrow>
     \<not> (Operation nfo \<noteq> OpReadWords \<or> Count nfo = 0 \<or> Count nfo > maxSpan b \<or>
        ctxValues x SkipCoalescerKey \<noteq> None \<or> \<not> hasClient)"

definition request_of :: "nat \<Rightarrow> Context \<Rightarrow> InterceptorInfo \<Rightarrow> bulkReadRequest" where
  "request_of i x nfo = \<lparr>br_id = i, br_ctx = x, br_area = MemoryArea nfo, br_address = Address nfo,
     br_count = Count nfo\<rparr>"

text \<open>
  The two \<open>select\<close> statements of \<open>Interceptor\<close> end with the reply of the goroutine, with the end
  of the operation's context, or with the stop channel.
\<close>

datatype ask_outcome = Replied bulkReadResult | CtxDone | StopSeen

definition ask_result :: "Context \<Rightarrow> int \<Rightarrow> ask_outcome \<Rightarrow> gores option" where
  "ask_result x now k =
     (case k of
        Replied (Inr ws) \<Rightarrow> Some (VWords ws, None)
      | Replied (Inl e) \<Rightarrow> Some (VWords [], Some e)
      | CtxDone \<Rightarrow> map_option (\<lambda>e. (VNil, Some e)) (ctx_Err x now)
      | StopSeen \<Rightarrow> Some (VNil, Some (CtxError Canceled)))"

text \<open>\<open>ask\<close> hands request \<open>i\<close> over and runs the rest of the program until a \<open>select\<close> takes a case.\<close>

definition coalescer_interceptor ::
    "BulkReadCoalescer \<Rightarrow> bool \<Rightarrow> nat \<Rightarrow> (bulkReadRequest \<Rightarrow> 'a world_scheme \<Rightarrow> (ask_outcome \<times> 'a world_scheme) option) \<Rightarrow>
     ('a world_scheme) interceptor" where
  "coalescer_interceptor b hasClient i ask c w =
     (if \<not> coalesces b hasClient (ic_ctx c) (ic_info c)
      then Invoke c (Some (WithValue (ic_ctx c) SkipCoalescerKey ''true'')) w
      else do {
        (k, w1) \<leftarrow> ask (request_of i (ic_ctx c) (ic_info c)) w;
        r \<leftarrow> ask_result (ic_ctx c) (w_now w1) k;
        Some (r, w1) })"

section \<open>Flushing a batch\<close>

definition cancelled :: "int \<Rightarrow> bulkReadRequest \<Rightarrow> bool" where
  "cancelled now r \<longleftrightarrow> ctx_Err (br_ctx r) now \<noteq> None"

text \<open>\<open>earliestDeadline\<close>: the loop keeps the first of the smallest deadlines.\<close>

fun earliest_from :: "int option \<Rightarrow> bulkReadRequest list \<Rightarrow> int option" where
  "earliest_from acc [] = acc"
| "earliest_from acc (r # rs) =
     (case deadline (br_ctx r) of
        None \<Rightarrow> earliest_from acc rs
      | Some d \<Rightarrow> (case acc of
            None \<Rightarrow> earliest_from (Some d) rs
          | Some e \<Rightarrow> if d < e then earliest_from (Some d) rs else earliest_from acc rs))"

definition earliestDeadline :: "bulkReadRequest list \<Rightarrow> int option" where
  "earliestDeadline rs = earliest_from None rs"

text \<open>
  The backend of a flush.  \<open>readWords\<close> is the coalescer's function field (the client's raw read
  by default); with interceptors on, it runs through the client's interceptor, under a context
  that the coalescer's own interceptor skips, and its result must have type \<open>[]uint16\<close>.
\<close>

type_synonym 'w reader = "Context \<Rightarrow> u8 \<Rightarrow> u16 \<Rightarrow> u16 \<Rightarrow> 'w \<Rightarrow> (bulkReadResult \<times> 'w) option"

definition backend :: "bool \<Rightarrow> 'w interceptor option \<Rightarrow> 'w reader \<Rightarrow> 'w reader" where
  "backend useIcs clientIc readWords ctx area addr span w =
     (if useIcs then do {
        ((v, err), w1) \<leftarrow> invoke_with clientIc (WithValue ctx SkipCoalescerKey ''true'')
          \<lparr>Operation = OpReadWords, MemoryArea = area, Address = addr, BitOffset = 0, Count = span, Data = VNil\<rparr>
          (\<lambda>ctx w. map_option (\<lambda>(r, w'). (case r of Inl e \<Rightarrow> (VNil, Some e) | Inr ws \<Rightarrow> (VWords ws, None), w'))
                     (readWords ctx area addr span w)) w;
        (case err of
           Some e \<Rightarrow> Some (Inl e, w1)
         | None \<Rightarrow> (case v of VWords ws \<Rightarrow> Some (Inr ws, w1) | _ \<Rightarrow> None)) }
      else readWords ctx area addr span w)"

section \<open>Attaching to a client\<close>

text \<open>The coalescer's fields that \<open>Initialize\<close>, \<open>start\<close> and \<open>Stop\<close> change.\<close>

record 'w coalescer_host =
  ch_hasClient :: bool
  ch_readWords :: "'w reader option"
  ch_started :: bool
  ch_goroutines :: nat
  ch_stopped :: bool

definition Coalescer_start :: "'w coalescer_host \<Rightarrow> 'w coalescer_host" where
  "Coalescer_start h = (if ch_started h then h else h\<lparr>ch_started := True, ch_goroutines := Suc (ch_goroutines h)\<rparr>)"

definition Coalescer_Stop :: "'w coalescer_host \<Rightarrow> 'w coalescer_host" where
  "Coalescer_Stop h = h\<lparr>ch_stopped := True\<rparr>"

text \<open>
  \<open>Initialize\<close>: \<open>raw\<close> is the client's \<open>readWordsRaw\<close>, \<open>bi\<close> the coalescer's interceptor, \<open>existing\<close>
  the client's; the result has the client's new interceptor.
\<close>

definition Coalescer_Initialize ::
    "'w reader \<Rightarrow> 'w interceptor \<Rightarrow> 'w interceptor option \<Rightarrow> 'w coalescer_host \<Rightarrow>
     'w coalescer_host \<times> 'w interceptor option" where
  "Coalescer_Initialize raw bi existing h =
     (let h1 = h\<lparr>ch_hasClient := True, ch_readWords := Some (case ch_readWords h of Some r \<Rightarrow> r | None \<Rightarrow> raw)\<rparr>
      in (Coalescer_start h1, case existing of Some e \<Rightarrow> ChainInterceptors [bi, e] | None \<Rightarrow> Some bi))"

section \<open>The replies of a flush\<close>

definition reply_of :: "bulkReadResult \<Rightarrow> u16 \<Rightarrow> bulkReadRequest \<Rightarrow> bulkReadResult" where
  "reply_of res minAddr r =
     (case res of
        Inl e \<Rightarrow> Inl e
      | Inr data \<Rightarrow>
          let startOffset = unat (br_address r - minAddr); endOffset = startOffset + unat (br_count r)
          in if endOffset > length data then Inl (Errorf ''coalesced read response too short'' [] None)
             else Inr (take (unat (br_count r)) (drop startOffset data)))"

text \<open>The replies of \<open>flushBatch\<close>, in the order in which it sends them.\<close>

definition flushBatch ::
    "'w reader \<Rightarrow> int \<Rightarrow> bulkReadRequest list \<Rightarrow> u16 \<Rightarrow> u16 \<Rightarrow> 'w \<Rightarrow> ((nat \<times> bulkReadResult) list \<times> 'w) option" where
  "flushBatch rd now batch minAddr maxEnd w =
     (let gone = filter (cancelled now) batch; active = filter (\<lambda>r. \<not> cancelled now r) batch;
          early = map (\<lambda>r. (br_id r, Inl (the (ctx_Err (br_ctx r) now)))) gone
      in case active of
           [] \<Rightarrow> Some (early, w)
         | r0 # _ \<Rightarrow> do {
             let span = maxEnd - minAddr;
             let ctx = Background\<lparr>deadline := earliestDeadline active\<rparr>;
             (res, w1) \<leftarrow> rd ctx (br_area r0) minAddr span w;
             Some (early @ map (\<lambda>r. (br_id r, reply_of res minAddr r)) active, w1) })"

section \<open>The goroutine\<close>

text \<open>\<open>Collecting batch minAddr maxEnd\<close> is inside \<open>processBatch\<close>.\<close>

datatype bc_state = Idle | Collecting "bulkReadRequest list" u16 u16 | Stopped

datatype bc_event = StopClosed | TimerFired | Request bulkReadRequest | NilRequest

definition begin_batch :: "bulkReadRequest \<Rightarrow> bc_state" where
  "begin_batch r = Collecting [r] (br_address r) (br_address r + br_count r)"

fun bc_step ::
    "BulkReadCoalescer \<Rightarrow> 'w reader \<Rightarrow> int \<Rightarrow> bc_event \<Rightarrow> bc_state \<Rightarrow> 'w \<Rightarrow>
     ((nat \<times> bulkReadResult) list \<times> bc_state \<times> 'w) option" where
  "bc_step b rd now ev Stopped w = Some ([], Stopped, w)"
| "bc_step b rd now StopClosed Idle w = Some ([], Stopped, w)"
| "bc_step b rd now StopClosed (Collecting batch mn mx) w = Some ([], Stopped, w)"
| "bc_step b rd now NilRequest st w = Some ([], st, w)"
| "bc_step b rd now TimerFired Idle w = Some ([], Idle, w)"
| "bc_step b rd now TimerFired (Collecting batch mn mx) w = do {
     (out, w1) \<leftarrow> flushBatch rd now batch mn mx w;
     Some (out, Idle, w1) }"
| "bc_step b rd now (Request r) Idle w = Some ([], begin_batch r, w)"
| "bc_step b rd now (Request r) (Collecting batch mn mx) w =
     (if cancelled now r
      then Some ([(br_id r, Inl (the (ctx_Err (br_ctx r) now)))], Collecting batch mn mx, w)
      else if maxBatch b > 0 \<and> int (length batch) \<ge> maxBatch b
      then do { (out, w1) \<leftarrow> flushBatch rd now batch mn mx w; Some (out, begin_batch r, w1) }
      else
        let newMin = min mn (br_address r); newMax = max mx (br_address r + br_count r);
            combinedSpan = (ucast newMax - ucast newMin :: u32)
        in if br_area r = br_area (hd batch) \<and> combinedSpan \<le> ucast (maxSpan b)
           then (if (ucast combinedSpan :: u16) \<ge> maxSpan b
                 then do { (out, w1) \<leftarrow> flushBatch rd now (batch @ [r]) newMin newMax w; Some (out, Idle, w1) }
                 else Some ([], Collecting (batch @ [r]) newMin newMax, w))
           else do { (out, w1) \<leftarrow> flushBatch rd now batch mn mx w; Some (out, begin_batch r, w1) })"

fun bc_run ::
    "BulkReadCoalescer \<Rightarrow> 'w reader \<Rightarrow> (int \<times> bc_event) list \<Rightarrow> bc_state \<Rightarrow> 'w \<Rightarrow>
     ((nat \<times> bulkReadResult) list \<times> bc_state \<times> 'w) option" where
  "bc_run b rd [] st w = Some ([], st, w)"
| "bc_run b rd ((now, ev) # evs) st w = do {
     (out, st1, w1) \<leftarrow> bc_step b rd now ev st w;
     (outs, st2, w2) \<leftarrow> bc_run b rd evs st1 w1;
     Some (out @ outs, st2, w2) }"

section \<open>Bounds of a batch\<close>

text \<open>
  A request the interceptor lets through whose range does not run past address 65535.
\<close>

definition req_ok :: "BulkReadCoalescer \<Rightarrow> bulkReadRequest \<Rightarrow> bool" where
  "req_ok b r \<longleftrightarrow> 1 \<le> unat (br_count r) \<and> br_count r \<le> maxSpan b \<and>
     unat (br_address r) + unat (br_count r) < 65536"

definition inside :: "u16 \<Rightarrow> u16 \<Rightarrow> bulkReadRequest \<Rightarrow> bool" where
  "inside mn mx r \<longleftrightarrow> unat mn \<le> unat (br_address r) \<and> unat (br_address r) + unat (br_count r) \<le> unat mx"

text \<open>The invariant of a batch: one area, all requests inside the bounds, bounds within the span.\<close>

fun batch_inv :: "BulkReadCoalescer \<Rightarrow> bc_state \<Rightarrow> bool" where
  "batch_inv b (Collecting batch mn mx) \<longleftrightarrow>
     batch \<noteq> [] \<and> (\<forall>r \<in> set batch. req_ok b r \<and> inside mn mx r \<and> br_area r = br_area (hd batch)) \<and>
     unat mx - unat mn \<le> unat (maxSpan b) \<and> (maxBatch b > 0 \<longrightarrow> int (length batch) \<le> maxBatch b)"
| "batch_inv b _ \<longleftrightarrow> True"

lemma req_end: "req_ok b r \<Longrightarrow> unat (br_address r + br_count r) = unat (br_address r) + unat (br_count r)"
  by (intro unat_add_nowrap) (simp add: req_ok_def)

lemma begin_batch_inv: "req_ok b r \<Longrightarrow> batch_inv b (begin_batch r)"
  by (simp add: begin_batch_def inside_def req_end) (simp add: req_ok_def word_le_nat_alt)

lemma unat_min_max:
  "unat (min a b :: 'n::len word) = min (unat a) (unat b)"
  "unat (max a b :: 'n::len word) = max (unat a) (unat b)"
  by (auto simp: min_def max_def word_le_nat_alt)

lemma unat_ucast_16_32: "unat (ucast (a :: u16) :: u32) = unat a"
  using u16_bound [of a] by (simp add: unsigned_ucast_eq take_bit_nat_eq_self)

lemma combined_span:
  "unat (mn :: u16) \<le> unat (mx :: u16) \<Longrightarrow> unat (ucast mx - ucast mn :: u32) = unat mx - unat mn"
  by (subst unat_sub) (simp_all add: unat_ucast_16_32 word_le_nat_alt)

lemma batch_inv_grow:
  assumes inv: "batch_inv b (Collecting batch mn mx)" and ok: "req_ok b r"
    and area: "br_area r = br_area (hd batch)"
    and span: "(ucast (max mx (br_address r + br_count r)) - ucast (min mn (br_address r)) :: u32) \<le> ucast (maxSpan b)"
    and small: "\<not> (maxBatch b > 0 \<and> int (length batch) \<ge> maxBatch b)"
  shows "batch_inv b (Collecting (batch @ [r]) (min mn (br_address r)) (max mx (br_address r + br_count r)))"
    (is "batch_inv b (Collecting _ ?mn ?mx)")
proof -
  obtain q qs where b: "batch = q # qs" using inv by (cases batch) auto
  have "inside mn mx q" using inv b by simp
  then have mono: "unat ?mn \<le> unat ?mx"
    by (auto simp: unat_min_max inside_def)
  have "unat ?mx - unat ?mn \<le> unat (maxSpan b)"
    using span combined_span [OF mono] by (simp add: word_le_nat_alt unat_ucast_16_32)
  moreover have "inside ?mn ?mx q" if "inside mn mx q" for q
    using that by (auto simp: inside_def unat_min_max)
  moreover have "inside ?mn ?mx r"
    using req_end [OF ok] by (auto simp: inside_def unat_min_max)
  moreover have "maxBatch b > 0 \<longrightarrow> int (length (batch @ [r])) \<le> maxBatch b"
    using small by auto
  ultimately show ?thesis using inv ok area b by simp
qed

section \<open>Steps by cases\<close>

text \<open>What a request does to a batch that is being collected.\<close>

definition full :: "BulkReadCoalescer \<Rightarrow> bulkReadRequest list \<Rightarrow> bool" where
  "full b batch \<longleftrightarrow> maxBatch b > 0 \<and> int (length batch) \<ge> maxBatch b"

definition joins :: "BulkReadCoalescer \<Rightarrow> bulkReadRequest list \<Rightarrow> u16 \<Rightarrow> u16 \<Rightarrow> bulkReadRequest \<Rightarrow> bool" where
  "joins b batch mn mx r \<longleftrightarrow> \<not> full b batch \<and> br_area r = br_area (hd batch) \<and>
     (ucast (max mx (br_address r + br_count r)) - ucast (min mn (br_address r)) :: u32) \<le> ucast (maxSpan b)"

lemma request_step_eq:
  "bc_step b rd now (Request r) (Collecting batch mn mx) w =
     (if cancelled now r
      then Some ([(br_id r, Inl (the (ctx_Err (br_ctx r) now)))], Collecting batch mn mx, w)
      else
        let mn' = min mn (br_address r); mx' = max mx (br_address r + br_count r)
        in if \<not> joins b batch mn mx r
           then map_option (\<lambda>(out, w1). (out, begin_batch r, w1)) (flushBatch rd now batch mn mx w)
           else if (ucast (ucast mx' - ucast mn' :: u32) :: u16) \<ge> maxSpan b
           then map_option (\<lambda>(out, w1). (out, Idle, w1)) (flushBatch rd now (batch @ [r]) mn' mx' w)
           else Some ([], Collecting (batch @ [r]) mn' mx', w))"
  by (cases "cancelled now r"; cases "full b batch")
    (auto simp: joins_def full_def Let_def map_conv_bind_option case_prod_unfold comp_def)

declare bc_step.simps(9) [simp del]

lemma request_step:
  assumes "bc_step b rd now (Request r) (Collecting batch mn mx) w = Some (out, st', w')"
  obtains
    (dropped) "cancelled now r" "out = [(br_id r, Inl (the (ctx_Err (br_ctx r) now)))]"
      "st' = Collecting batch mn mx" "w' = w"
  | (fresh) "\<not> cancelled now r" "\<not> joins b batch mn mx r"
      "flushBatch rd now batch mn mx w = Some (out, w')" "st' = begin_batch r"
  | (complete) "\<not> cancelled now r" "joins b batch mn mx r"
      "flushBatch rd now (batch @ [r]) (min mn (br_address r)) (max mx (br_address r + br_count r)) w = Some (out, w')"
      "st' = Idle"
  | (joined) "\<not> cancelled now r" "joins b batch mn mx r" "out = []" "w' = w"
      "st' = Collecting (batch @ [r]) (min mn (br_address r)) (max mx (br_address r + br_count r))"
proof (cases "cancelled now r")
  case True
  then show ?thesis using assms dropped by (simp add: request_step_eq)
next
  case live: False
  show ?thesis
  proof (cases "joins b batch mn mx r")
    case True
    show ?thesis
      using assms live True joined complete by (auto simp: request_step_eq Let_def split: if_splits)
  next
    case False
    then show ?thesis using assms live fresh by (auto simp: request_step_eq Let_def)
  qed
qed

lemma timer_step:
  "bc_step b rd now TimerFired (Collecting batch mn mx) w = Some (out, st', w') \<longleftrightarrow>
     flushBatch rd now batch mn mx w = Some (out, w') \<and> st' = Idle"
  by (auto split: Option.bind_splits)

lemma bc_step_inv:
  assumes inv: "batch_inv b st" and ok: "\<And>r. ev = Request r \<Longrightarrow> req_ok b r"
    and step: "bc_step b rd now ev st w = Some (out, st', w')"
  shows "batch_inv b st'"
proof (cases st)
  case (Collecting batch mn mx)
  note inv = inv [unfolded Collecting]
  show ?thesis
  proof (cases ev)
    case (Request r)
    note ok = ok [OF Request]
    show ?thesis
      using step [unfolded Request Collecting]
    proof (cases rule: request_step)
      case joined
      then show ?thesis
        using batch_inv_grow [OF inv ok] by (simp only: joins_def full_def) blast
    next
      case dropped
      then show ?thesis using inv by (simp only:)
    next
      case fresh
      then show ?thesis using begin_batch_inv [OF ok] by (simp only:)
    qed simp
  next
    case TimerFired
    then have "st' = Idle" using step [unfolded TimerFired Collecting timer_step] by simp
    then show ?thesis by simp
  next
    case StopClosed
    then show ?thesis using step Collecting by auto
  next
    case NilRequest
    then have "st' = Collecting batch mn mx" using step Collecting by simp
    then show ?thesis using inv by (simp only:)
  qed
next
  case Idle
  then show ?thesis using step ok begin_batch_inv by (cases ev) auto
next
  case Stopped
  then show ?thesis using step by simp
qed

section \<open>What the replies hold\<close>

text \<open>
  A reader is faithful to a memory if, whenever it succeeds, it returns the words of the range it
  was asked for.
\<close>

type_synonym word_memory = "u8 \<Rightarrow> nat \<Rightarrow> u16"

definition words_at :: "word_memory \<Rightarrow> u8 \<Rightarrow> u16 \<Rightarrow> u16 \<Rightarrow> u16 list" where
  "words_at mem area addr n = map (mem area) [unat addr ..< unat addr + unat n]"

definition faithful :: "word_memory \<Rightarrow> 'w reader \<Rightarrow> bool" where
  "faithful mem rd \<longleftrightarrow> (\<forall>ctx area addr n w data w'.
     rd ctx area addr n w = Some (Inr data, w') \<longrightarrow> data = words_at mem area addr n)"

lemma faithfulD: "faithful mem rd \<Longrightarrow> rd ctx area addr n w = Some (Inr data, w') \<Longrightarrow> data = words_at mem area addr n"
  unfolding faithful_def by blast

text \<open>
  The right outcome of a request: its words, the error of its own context, or the error with which
  the backend read of its area failed.
\<close>

definition failed_read :: "'w reader \<Rightarrow> u8 \<Rightarrow> fins_error \<Rightarrow> bool" where
  "failed_read rd area e \<longleftrightarrow> (\<exists>ctx addr n w w'. rd ctx area addr n w = Some (Inl e, w'))"

definition answers :: "'w reader \<Rightarrow> word_memory \<Rightarrow> bulkReadRequest \<Rightarrow> bulkReadResult \<Rightarrow> bool" where
  "answers rd mem r res \<longleftrightarrow>
     (case res of
        Inr ws \<Rightarrow> ws = words_at mem (br_area r) (br_address r) (br_count r)
      | Inl e \<Rightarrow> (\<exists>t. ctx_Err (br_ctx r) t = Some e) \<or> failed_read rd (br_area r) e)"

lemma answers_cancelled: "cancelled now r \<Longrightarrow> answers rd mem r (Inl (the (ctx_Err (br_ctx r) now)))"
  by (auto simp: answers_def cancelled_def)

definition served :: "'w reader \<Rightarrow> word_memory \<Rightarrow> bulkReadRequest list \<Rightarrow> (nat \<times> bulkReadResult) list \<Rightarrow> bool" where
  "served rd mem rs out \<longleftrightarrow> (\<forall>(i, res) \<in> set out. \<exists>r \<in> set rs. br_id r = i \<and> answers rd mem r res)"

lemma served_nil [simp]: "served rd mem rs []"
  by (simp add: served_def)

lemma served_append: "served rd mem rs (a @ b) \<longleftrightarrow> served rd mem rs a \<and> served rd mem rs b"
  by (simp add: served_def ball_Un)

lemma served_mono: "served rd mem rs out \<Longrightarrow> set rs \<subseteq> set rs' \<Longrightarrow> served rd mem rs' out"
  unfolding served_def by blast

lemma inside_offset:
  "inside mn mx r \<Longrightarrow> unat (br_address r - mn) = unat (br_address r) - unat mn"
  by (subst unat_sub) (simp_all add: inside_def word_le_nat_alt)

lemma reply_exact:
  assumes "inside mn mx r" and "unat mn \<le> unat mx"
  shows "reply_of (Inr (words_at mem a mn (mx - mn))) mn r = Inr (words_at mem a (br_address r) (br_count r))"
proof -
  let ?k = "unat (br_address r) - unat mn" and ?n = "unat (br_count r)"
  have span: "unat (mx - mn) = unat mx - unat mn"
    using assms(2) by (subst unat_sub) (simp_all add: word_le_nat_alt)
  have fit: "?k + ?n \<le> unat mx - unat mn" "unat mn \<le> unat (br_address r)"
    using assms by (auto simp: inside_def)
  have "take ?n (drop ?k [unat mn ..< unat mx]) = [unat (br_address r) ..< unat (br_address r) + ?n]"
    using fit assms(2) by (simp add: drop_upt take_upt)
  then have "take ?n (drop ?k (words_at mem a mn (mx - mn))) = words_at mem a (br_address r) (br_count r)"
    using assms(2) by (simp add: words_at_def span drop_map take_map)
  moreover have "\<not> ?k + ?n > length (words_at mem a mn (mx - mn))"
    using fit by (simp add: words_at_def span)
  ultimately show ?thesis
    by (simp add: reply_of_def inside_offset [OF assms(1)])
qed

lemma batch_inv_members:
  assumes "batch_inv b (Collecting batch mn mx)" and "r \<in> set batch"
  shows "inside mn mx r" "br_area r = br_area (hd batch)"
  using assms unfolding batch_inv.simps by blast+

lemma flush_served:
  assumes inv: "batch_inv b (Collecting batch mn mx)" and rd: "faithful mem rd"
    and flush: "flushBatch rd now batch mn mx w = Some (out, w')"
  shows "served rd mem batch out" "mset (map fst out) = mset (map br_id batch)"
proof -
  let ?gone = "filter (cancelled now) batch" and ?active = "filter (\<lambda>r. \<not> cancelled now r) batch"
  let ?early = "map (\<lambda>r. (br_id r, Inl (the (ctx_Err (br_ctx r) now)) :: bulkReadResult)) ?gone"
  have early: "served rd mem batch ?early"
    using answers_cancelled [of now _ rd mem] by (auto simp: served_def)
  have msets: "mset (map br_id ?gone) + mset (map br_id ?active) = mset (map br_id batch)"
    by (induction batch) auto
  show "served rd mem batch out"
  proof (cases ?active)
    case Nil
    then show ?thesis using flush early by (simp add: flushBatch_def)
  next
    case (Cons r0 rest)
    then obtain res where out: "out = ?early @ map (\<lambda>r. (br_id r, reply_of res mn r)) ?active"
      and res: "rd (Background\<lparr>deadline := earliestDeadline ?active\<rparr>) (br_area r0) mn (mx - mn) w = Some (res, w')"
      using flush by (auto simp: flushBatch_def split: Option.bind_splits prod.splits)
    have "answers rd mem r (reply_of res mn r)" if "r \<in> set ?active" for r
    proof (cases res)
      case (Inr data)
      have "r0 \<in> set ?active" using Cons by simp
      with that have "r \<in> set batch" "r0 \<in> set batch" by simp_all
      then have "inside mn mx r" and area: "br_area r = br_area r0"
        using batch_inv_members [OF inv] by (metis, metis)
      moreover from this(1) have "unat mn \<le> unat mx" by (simp add: inside_def)
      ultimately show ?thesis
        using reply_exact faithfulD [OF rd res [unfolded Inr]] by (simp add: answers_def Inr area)
    next
      case (Inl e)
      have "r0 \<in> set ?active" using Cons by simp
      with that have "r \<in> set batch" "r0 \<in> set batch" by simp_all
      then have "br_area r = br_area r0" using batch_inv_members [OF inv] by metis
      then have "failed_read rd (br_area r) e" unfolding failed_read_def using res Inl by metis
      then show ?thesis by (simp add: reply_of_def answers_def Inl)
    qed
    then show ?thesis
      using early by (auto simp: out served_append) (auto simp: served_def)
  qed
  show "mset (map fst out) = mset (map br_id batch)"
  proof (cases ?active)
    case Nil
    then have "out = ?early" using flush by (simp add: flushBatch_def)
    then show ?thesis using msets Nil by (simp add: comp_def)
  next
    case (Cons r0 rest)
    then obtain res where "out = ?early @ map (\<lambda>r. (br_id r, reply_of res mn r)) ?active"
      using flush by (auto simp: flushBatch_def split: Option.bind_splits prod.splits)
    then show ?thesis using msets by (simp add: comp_def)
  qed
qed

section \<open>Whole runs\<close>

fun pending :: "bc_state \<Rightarrow> bulkReadRequest list" where
  "pending (Collecting batch mn mx) = batch"
| "pending _ = []"

fun requests_of :: "(int \<times> bc_event) list \<Rightarrow> bulkReadRequest list" where
  "requests_of [] = []"
| "requests_of ((_, Request r) # evs) = r # requests_of evs"
| "requests_of (_ # evs) = requests_of evs"

lemma requests_of_Cons:
  "requests_of ((now, ev) # evs) = (case ev of Request r \<Rightarrow> [r] | _ \<Rightarrow> []) @ requests_of evs"
  by (cases ev) simp_all

abbreviation event_requests :: "bc_event \<Rightarrow> bulkReadRequest list" where
  "event_requests ev \<equiv> requests_of [(0, ev)]"

lemma bc_step_served:
  assumes inv: "batch_inv b st" and rd: "faithful mem rd" and ok: "\<And>r. ev = Request r \<Longrightarrow> req_ok b r"
    and step: "bc_step b rd now ev st w = Some (out, st', w')"
  shows "served rd mem (pending st @ event_requests ev) out"
    and "set (pending st') \<subseteq> set (pending st @ event_requests ev)"
    and "st' \<noteq> Stopped \<Longrightarrow>
      mset (map fst out) + mset (map br_id (pending st')) = mset (map br_id (pending st @ event_requests ev))"
proof -
  let ?goal = "served rd mem (pending st @ event_requests ev) out \<and>
    set (pending st') \<subseteq> set (pending st @ event_requests ev) \<and> (st' \<noteq> Stopped \<longrightarrow>
      mset (map fst out) + mset (map br_id (pending st')) = mset (map br_id (pending st @ event_requests ev)))"
  have ?goal
  proof (cases st)
    case (Collecting batch mn mx)
    note inv = inv [unfolded Collecting]
    show ?thesis
    proof (cases ev)
      case (Request r)
      note ok = ok [OF Request]
      show ?thesis
        using step [unfolded Request Collecting]
      proof (cases rule: request_step)
        case dropped
        then show ?thesis using answers_cancelled [OF dropped(1), of rd mem] by (auto simp: Collecting Request served_def)
      next
        case fresh
        then show ?thesis
          using flush_served [OF inv rd fresh(3)] served_mono [of rd mem batch out "batch @ [r]"]
          by (auto simp add: Collecting Request begin_batch_def)
      next
        case complete
        have grown: "batch_inv b (Collecting (batch @ [r]) (min mn (br_address r)) (max mx (br_address r + br_count r)))"
          using complete(2) batch_inv_grow [OF inv ok] by (simp only: joins_def full_def) blast
        show ?thesis
          using flush_served [OF grown rd complete(3)] complete(4) by (simp add: Collecting Request)
      next
        case joined
        then show ?thesis by (simp add: Collecting Request)
      qed
    next
      case TimerFired
      then have "flushBatch rd now batch mn mx w = Some (out, w')" "st' = Idle"
        using step [unfolded TimerFired Collecting timer_step] by simp_all
      then show ?thesis
        using flush_served [OF inv rd] by (simp add: Collecting TimerFired)
    qed (use step Collecting in auto)
  next
    case Idle
    then show ?thesis using step by (cases ev) (auto simp: begin_batch_def)
  next
    case Stopped
    then show ?thesis using step by simp
  qed
  then show "served rd mem (pending st @ event_requests ev) out"
    and "set (pending st') \<subseteq> set (pending st @ event_requests ev)"
    and "st' \<noteq> Stopped \<Longrightarrow>
      mset (map fst out) + mset (map br_id (pending st')) = mset (map br_id (pending st @ event_requests ev))"
    by blast+
qed

lemma bc_stopped_stays: "bc_run b rd evs Stopped w = Some (out, st', w') \<Longrightarrow> st' = Stopped"
  by (induction evs arbitrary: w out) (auto split: Option.bind_splits prod.splits)

text \<open>
  A run from a state satisfying the invariant: the invariant holds at the end, every reply is right
  for its request, and while the goroutine runs each request has exactly one reply or is pending.
\<close>

lemma bc_run_served:
  assumes "batch_inv b st" "faithful mem rd" "\<forall>r \<in> set (requests_of evs). req_ok b r"
    and "bc_run b rd evs st w = Some (out, st', w')"
  shows "batch_inv b st' \<and> served rd mem (pending st @ requests_of evs) out \<and> (st' \<noteq> Stopped \<longrightarrow>
    mset (map fst out) + mset (map br_id (pending st')) = mset (map br_id (pending st @ requests_of evs)))"
  using assms
proof (induction evs arbitrary: st w out)
  case (Cons e evs)
  obtain now ev where e: "e = (now, ev)" by (cases e)
  obtain o1 s1 w1 o2 where step: "bc_step b rd now ev st w = Some (o1, s1, w1)"
    and rest: "bc_run b rd evs s1 w1 = Some (o2, st', w')" and out: "out = o1 @ o2"
    using Cons.prems(4) by (auto simp: e split: Option.bind_splits prod.splits)
  have reqs: "requests_of (e # evs) = event_requests ev @ requests_of evs"
    by (simp add: e requests_of_Cons)
  have ok: "req_ok b r" if "ev = Request r" for r
    using Cons.prems(3) that by (simp add: e)
  note here = bc_step_served [OF Cons.prems(1,2) ok step]
  have inv1: "batch_inv b s1"
    by (rule bc_step_inv [OF Cons.prems(1) ok step])
  have ih: "batch_inv b st' \<and> served rd mem (pending s1 @ requests_of evs) o2 \<and> (st' \<noteq> Stopped \<longrightarrow>
    mset (map fst o2) + mset (map br_id (pending st')) = mset (map br_id (pending s1 @ requests_of evs)))"
    using Cons.IH [OF inv1 Cons.prems(2) _ rest] Cons.prems(3) by (simp add: reqs)
  have "served rd mem (pending st @ requests_of (e # evs)) out"
    using here(1,2) ih by (auto simp add: out served_append reqs elim!: served_mono)
  moreover have "s1 \<noteq> Stopped" if "st' \<noteq> Stopped"
    using bc_stopped_stays [of b rd evs w1 o2 st' w'] rest that by auto
  ultimately show ?case
    using ih here(3) by (auto simp: out reqs add.assoc)
qed simp

section \<open>Properties\<close>


definition area_reader :: "word_memory \<Rightarrow> nat reader" where
  "area_reader mem x area addr n k = Some (Inr (words_at mem area addr n), Suc k)"

definition word_request :: "nat \<Rightarrow> u16 \<Rightarrow> u16 \<Rightarrow> bulkReadRequest" where
  "word_request i addr n = \<lparr>br_id = i, br_ctx = Background, br_area = 0x82, br_address = addr, br_count = n\<rparr>"


text \<open>
  C11: a flush never comes back to the coalescer.  The combined read runs through the interceptor
  that \<open>Initialize\<close> installed, which contains the coalescer's own; but the coalescer lets it pass,
  so the read goes straight to the interceptor that was there before, or to the client, whatever
  the goroutine would answer (\<open>ask\<close>): it cannot wait for itself.
\<close>

theorem flush_skips_coalescer:
  "backend True (snd (Coalescer_Initialize raw (coalescer_interceptor b True i ask) existing h)) rd x area addr n w =
   backend True existing rd (WithValue x SkipCoalescerKey ''true'') area addr n w"
  by (simp add: backend_def Coalescer_Initialize_def invoke_with_def coalescer_interceptor_def coalesces_def
      WithValue_def Invoke_def split: option.split)

end
