(* ===== verification/Fins_Types.thy ===== *)
theory Fins_Types
  imports Fins_Metrics Fins_Retry Fins_Validation Fins_Coalescer Fins_Inline Fins_Client_Ops
begin

text \<open>
  Both clients assert the Go type of what an interceptor returns, and a failed assertion panics.
  This theory gives each operation its type and shows that the interceptors of the library, chained
  in any way, keep it.  The contract is the locale \<open>typed\<close>.
\<close>

section \<open>Types\<close>

fun result_ok :: "OperationType \<Rightarrow> goval \<Rightarrow> bool" where
  "result_ok OpReadWords v = (case v of VWords _ \<Rightarrow> True | _ \<Rightarrow> False)"
| "result_ok OpReadBytes v = (case v of VBytes _ \<Rightarrow> True | _ \<Rightarrow> False)"
| "result_ok OpReadString v = (case v of VString _ \<Rightarrow> True | _ \<Rightarrow> False)"
| "result_ok OpReadBits v = (case v of VBools _ \<Rightarrow> True | _ \<Rightarrow> False)"
| "result_ok OpReadClock v = (case v of VTime _ \<Rightarrow> True | _ \<Rightarrow> False)"
| "result_ok _ v = True"

definition well_typed :: "OperationType \<Rightarrow> gores \<Rightarrow> bool" where
  "well_typed op r \<longleftrightarrow> snd r \<noteq> None \<or> result_ok op (fst r)"

definition typed_invoker :: "OperationType \<Rightarrow> 'w invoker \<Rightarrow> bool" where
  "typed_invoker op ivk \<longleftrightarrow> (\<forall>x w r w'. ivk x w = Some (r, w') \<longrightarrow> well_typed op r)"

lemma typed_invokerD: "typed_invoker op ivk \<Longrightarrow> ivk x w = Some (r, w') \<Longrightarrow> well_typed op r"
  unfolding typed_invoker_def by blast

lemma well_typed_simps [simp]:
  "well_typed op (v, Some e)" "well_typed op (v, None) = result_ok op v"
  by (simp_all add: well_typed_def)

text \<open>The assertions of the clients succeed on what is well typed.\<close>

definition asserts :: "OperationType \<Rightarrow> (gores \<Rightarrow> 'b option) \<Rightarrow> bool" where
  "asserts op asrt \<longleftrightarrow> (\<forall>r. well_typed op r \<longrightarrow> asrt r \<noteq> None)"

lemma assertions_pass [simp]:
  "asserts OpReadWords assert_words" "asserts OpReadBytes assert_bytes"
  "asserts OpReadBits assert_bools" "asserts OpReadClock assert_time"
  by (auto simp: asserts_def well_typed_def assert_words_def assert_bytes_def assert_bools_def assert_time_def
    split: option.splits goval.splits)

section \<open>The contract\<close>

locale typed =
  fixes ic :: "'w interceptor"
  assumes keeps: "typed_invoker (Operation (ic_info c)) (ic_invoker c) \<Longrightarrow> ic c w = Some (r, w') \<Longrightarrow>
    well_typed (Operation (ic_info c)) r"
begin

lemma as_invoker:
  assumes "typed_invoker (Operation nfo) ivk"
  shows "typed_invoker (Operation nfo) (\<lambda>x. ic \<lparr>ic_ctx = x, ic_info = nfo, ic_invoker = ivk\<rparr>)"
  unfolding typed_invoker_def using assms keeps [of "\<lparr>ic_ctx = _, ic_info = nfo, ic_invoker = ivk\<rparr>"] by fastforce

end

locale two_typed = outer: typed i + inner: typed j
  for i :: "'w interceptor" and j :: "'w interceptor"
begin

sublocale chained: typed "the (ChainInterceptors [i, j])"
proof
  fix c :: "'w InterceptorCtx" and w r w'
  assume "typed_invoker (Operation (ic_info c)) (ic_invoker c)" "the (ChainInterceptors [i, j]) c w = Some (r, w')"
  then show "well_typed (Operation (ic_info c)) r"
    using outer.keeps [of "\<lparr>ic_ctx = ic_ctx c, ic_info = ic_info c, ic_invoker =
      (\<lambda>x. j \<lparr>ic_ctx = x, ic_info = ic_info c, ic_invoker = ic_invoker c\<rparr>)\<rparr>" w r w'] inner.as_invoker
    by simp
qed

lemma chain_of_two: "typed (the (ChainInterceptors [i, j]))"
  by (rule chained.typed_axioms)

end

section \<open>The interceptors of the library\<close>

lemma pass_through_typed:
  assumes "pass_through ic before after"
  shows "typed ic"
proof
  fix c w r w'
  assume t: "typed_invoker (Operation (ic_info c)) (ic_invoker c)" "ic c w = Some (r, w')"
  then obtain w1 w2 where "ic_invoker c (ic_ctx c) w1 = Some (r, w2)"
    using pass_through.result_unchanged [OF assms] by blast
  then show "well_typed (Operation (ic_info c)) r" using t(1) by (rule typed_invokerD [rotated])
qed

lemma guarded_typed: "typed (guarded v)"
  by unfold_locales (auto simp: guarded_def Invoke_def dest: typed_invokerD split: option.splits)

text \<open>The retry loops answer with an error or with what the operation answered.\<close>

lemma retry_loop_typed:
  assumes "typed_invoker op (ic_invoker c)"
  shows "n = nat (m + 1 - a) \<Longrightarrow> retry_loop m d c a cur w = Some (r, w') \<Longrightarrow> well_typed op r"
proof (induction n arbitrary: a cur w)
  case 0
  then show ?case by (auto simp: loops_done)
next
  case (Suc n)
  show ?case
    using Suc.prems(2) Suc.IH [of "a + 1"] Suc.prems(1) typed_invokerD [OF assms]
    by (subst (asm) retry_loop.simps) (fastforce simp: Invoke_def split: if_splits option.splits bind_splits)
qed

lemma backoff_loop_typed:
  assumes "typed_invoker op (ic_invoker c)"
  shows "n = nat (m + 1 - a) \<Longrightarrow> backoff_loop m md c a d cur w = Some (r, w') \<Longrightarrow> well_typed op r"
proof (induction n arbitrary: a d cur w)
  case 0
  then show ?case by (auto simp: loops_done)
next
  case (Suc n)
  show ?case
    using Suc.prems(2) Suc.IH [of "a + 1"] Suc.prems(1) typed_invokerD [OF assms]
    by (subst (asm) backoff_loop.simps) (fastforce simp: Invoke_def split: if_splits option.splits bind_splits)
qed

lemma conditional_loop_typed:
  assumes "typed_invoker op (ic_invoker c)"
  shows "n = nat (m + 1 - a) \<Longrightarrow> conditional_loop m d sr c a cur w = Some (r, w') \<Longrightarrow> well_typed op r"
proof (induction n arbitrary: a cur w)
  case 0
  then show ?case by (auto simp: loops_done)
next
  case (Suc n)
  show ?case
    using Suc.prems(2) Suc.IH [of "a + 1"] Suc.prems(1) typed_invokerD [OF assms]
    by (subst (asm) conditional_loop.simps) (fastforce simp: Invoke_def split: if_splits option.splits bind_splits)
qed

interpretation logging: typed LoggingInterceptor
  by (rule pass_through_typed [OF logging.pass_through_axioms])

interpretation tracing: typed "TracingInterceptor key" for key
  by (rule pass_through_typed [OF tracing.pass_through_axioms])

interpretation tracing_area: typed "TracingInterceptorWithLogger key" for key
  by unfold_locales (auto simp: TracingInterceptorWithLogger_def Invoke_def dest: typed_invokerD)

interpretation metrics: typed "MetricsInterceptor mid" for mid
  by (rule pass_through_typed [OF metrics.pass_through_axioms])

interpretation retrying: typed "RetryInterceptor m d" for m d
  by unfold_locales (auto simp: RetryInterceptor_def dest: retry_loop_typed [OF _ refl])

interpretation backoff: typed "RetryInterceptorWithBackoff m d md" for m d md
  by unfold_locales (auto simp: RetryInterceptorWithBackoff_def dest: backoff_loop_typed [OF _ refl])

interpretation conditional: typed "RetryInterceptorConditional m d sr" for m d sr
  by unfold_locales (auto simp: RetryInterceptorConditional_def dest: conditional_loop_typed [OF _ refl])

interpretation validation: typed "ValidationInterceptorWithLimits m n" for m n
  unfolding ValidationInterceptorWithLimits_def by (rule guarded_typed)

interpretation ranges: typed "AddressRangeValidator rs" for rs
  unfolding AddressRangeValidator_def by (rule guarded_typed)

interpretation read_only: typed ReadOnlyInterceptor
  unfolding ReadOnlyInterceptor_def by (rule guarded_typed)

interpretation coalescer: typed "coalescer_interceptor b h i ask" for b h i ask
proof
  fix c :: "('a world_scheme) InterceptorCtx" and w r w'
  assume t: "typed_invoker (Operation (ic_info c)) (ic_invoker c)" "coalescer_interceptor b h i ask c w = Some (r, w')"
  show "well_typed (Operation (ic_info c)) r"
  proof (cases "coalesces b h (ic_ctx c) (ic_info c)")
    case True
    then have "Operation (ic_info c) = OpReadWords" by (simp add: coalesces_def)
    then show ?thesis
      using t(2) True
      by (auto simp: coalescer_interceptor_def ask_result_def split: bind_splits ask_outcome.splits sum.splits)
  next
    case False
    then show ?thesis using t by (auto simp: coalescer_interceptor_def Invoke_def dest: typed_invokerD)
  qed
qed

text \<open>What a program can build from the library: its interceptors, and chains of what it has built.\<close>

inductive library :: "('a world_scheme) interceptor \<Rightarrow> bool" where
  "library LoggingInterceptor"
| "library (TracingInterceptor key)"
| "library (TracingInterceptorWithLogger key)"
| "library (MetricsInterceptor mid)"
| "library (RetryInterceptor m d)"
| "library (RetryInterceptorWithBackoff m d md)"
| "library (RetryInterceptorConditional m d sr)"
| "library (ValidationInterceptorWithLimits mr mw)"
| "library (AddressRangeValidator rs)"
| "library ReadOnlyInterceptor"
| "library (coalescer_interceptor b h i ask)"
| chain: "\<forall>ic \<in> set ics. library ic \<Longrightarrow> ChainInterceptors ics = Some k \<Longrightarrow> library k"

lemma chain_typed:
  assumes "\<forall>ic \<in> set ics. typed ic" "ChainInterceptors ics = Some k"
  shows "typed k"
  using assms
proof (induction ics arbitrary: k rule: ChainInterceptors.induct)
  case (3 i j rest)
  obtain k' where k': "ChainInterceptors (j # rest) = Some k'" using chain_nonempty [of "j # rest"] by auto
  then have "two_typed i k'" using 3 by (simp add: two_typed_def)
  then have "typed (the (ChainInterceptors [i, k']))" by (rule two_typed.chain_of_two)
  then show ?case using 3 k' by simp
qed simp_all

lemma library_typed: "library ic \<Longrightarrow> typed ic"
proof (induction rule: library.induct)
  case (chain ics k)
  then show ?case using chain_typed by blast
qed unfold_locales

section \<open>The clients' assertions\<close>

text \<open>
  \<open>call\<close> invokes the operation \<open>ivk\<close> through whatever interceptor it is given and asserts the type
  of the answer.
\<close>

definition runs_through ::
    "('w interceptor option \<Rightarrow> 'w \<Rightarrow> ('b \<times> 'w) option) \<Rightarrow> Context \<Rightarrow> InterceptorInfo \<Rightarrow> 'w invoker \<Rightarrow>
     (gores \<Rightarrow> 'b option) \<Rightarrow> bool" where
  "runs_through call x nfo ivk asrt \<longleftrightarrow> (\<forall>ics w. call ics w =
     do { (r, w1) \<leftarrow> invoke_with ics x nfo ivk w; v \<leftarrow> asrt r; Some (v, w1) })"

text \<open>With an interceptor of the library, only the interceptor or the operation itself can panic.\<close>

definition assertion_safe ::
    "(('a world_scheme) interceptor option \<Rightarrow> 'a world_scheme \<Rightarrow> ('b \<times> 'a world_scheme) option) \<Rightarrow> Context \<Rightarrow>
     (gores \<Rightarrow> 'b option) \<Rightarrow> ('a world_scheme) interceptor \<Rightarrow> 'a world_scheme \<Rightarrow> bool" where
  "assertion_safe call x asrt ic w \<longleftrightarrow> (\<exists>nfo ivk. runs_through call x nfo ivk asrt \<and>
     (call (Some ic) w = None \<longleftrightarrow> ic \<lparr>ic_ctx = x, ic_info = nfo, ic_invoker = ivk\<rparr> w = None))"

lemma assertion_safeI:
  assumes "runs_through call x nfo ivk asrt" "typed_invoker (Operation nfo) ivk"
    and "asserts (Operation nfo) asrt" "library ic"
  shows "assertion_safe call x asrt ic w"
proof -
  have "asrt r \<noteq> None" if "ic \<lparr>ic_ctx = x, ic_info = nfo, ic_invoker = ivk\<rparr> w = Some (r, w')" for r w'
    using typed.keeps [OF library_typed [OF assms(4)], of "\<lparr>ic_ctx = x, ic_info = nfo, ic_invoker = ivk\<rparr>" w r w']
      that assms(2,3) by (cases r) (simp add: asserts_def)
  then have "call (Some ic) w = None \<longleftrightarrow> ic \<lparr>ic_ctx = x, ic_info = nfo, ic_invoker = ivk\<rparr> w = None"
    using assms(1) by (cases "ic \<lparr>ic_ctx = x, ic_info = nfo, ic_invoker = ivk\<rparr> w")
      (auto simp: runs_through_def invoke_with_def)
  then show ?thesis unfolding assertion_safe_def using assms(1) by (intro exI conjI)
qed

lemma runs_through_refl:
  "runs_through (\<lambda>ics w. do { (r, w1) \<leftarrow> invoke_with ics x nfo ivk w; v \<leftarrow> asrt r; Some (v, w1) }) x nfo ivk asrt"
  by (simp add: runs_through_def)

lemmas safe_readI = assertion_safeI [OF runs_through_refl]

lemma typed_invokerI:
  "(\<And>x w r w'. ivk x w = Some (r, w') \<Longrightarrow> well_typed op r) \<Longrightarrow> typed_invoker op ivk"
  unfolding typed_invoker_def by blast

lemma typed_inline_guard:
  assumes "\<And>w r w'. body w = Some (r, w') \<Longrightarrow> well_typed op r"
  shows "typed_invoker op (inline_guard ok area body)"
  using assms by (auto intro!: typed_invokerI simp: inline_guard_def split: option.split_asm if_splits)

lemma client_reads_safe:
  assumes "library ic"
  shows "assertion_safe (\<lambda>ics. Client_ReadWords env ics x area addr n) x assert_words ic w"
    and "assertion_safe (\<lambda>ics. Client_ReadBytes env ics x area addr n) x assert_bytes ic w"
    and "assertion_safe (\<lambda>ics. Client_ReadBits env ics x area addr off n) x assert_bools ic w"
  unfolding Client_ReadWords_def [abs_def] Client_ReadBytes_def [abs_def] Client_ReadBits_def [abs_def]
  by (auto intro!: safe_readI [OF _ _ assms] typed_invokerI split: sum.split_asm bind_split_asm)

lemma il_update:
  "il_byteOrder (il\<lparr>il_interceptor := ics\<rparr>) = il_byteOrder il" "il_interceptor (il\<lparr>il_interceptor := ics\<rparr>) = ics"
  by simp_all

lemma inline_reads_safe:
  assumes "library ic"
  shows "assertion_safe (\<lambda>ics. Inline_ReadWords (il\<lparr>il_interceptor := ics\<rparr>) x area addr n) x assert_words ic w"
    and "assertion_safe (\<lambda>ics. Inline_ReadBytes (il\<lparr>il_interceptor := ics\<rparr>) x area addr n) x assert_bytes ic w"
    and "assertion_safe (\<lambda>ics. Inline_ReadBits (il\<lparr>il_interceptor := ics\<rparr>) x area addr off n) x assert_bools ic w"
    and "assertion_safe (\<lambda>ics. Inline_ReadClock (il\<lparr>il_interceptor := ics\<rparr>) x) x assert_time ic w"
  unfolding Inline_ReadWords_def [abs_def] Inline_ReadBytes_def [abs_def] Inline_ReadBits_def [abs_def]
    Inline_ReadClock_def [abs_def] Inline_invoke_def il_update
  by (auto intro!: safe_readI [OF _ _ assms] typed_invokerI simp: end_code_result_def
    intro!: typed_inline_guard split: sum.split_asm bind_split_asm option.split_asm if_splits)

text \<open>The library is needed: an interceptor that answers nil without an error makes a read panic.\<close>

lemma untyped_interceptor_panics:
  "Client_ReadWords env (Some (\<lambda>c w. Some ((VNil, None), w))) x area addr n w = None"
  "Inline_ReadBits (il\<lparr>il_interceptor := Some (\<lambda>c w. Some ((VNil, None), w))\<rparr>) x area addr off n w' = None"
  by (simp_all add: Client_ReadWords_def Inline_ReadBits_def Inline_invoke_def invoke_with_def assert_words_def
    assert_bools_def)

text \<open>
  C24: with any interceptor built from the library, by chains of chains too, the type assertions of
  both clients succeed: an operation that reads panics only if its own request or the interceptor does.
\<close>

theorem reads_keep_types:
  assumes "library ci" "library ii"
  shows "assertion_safe (\<lambda>ics. Client_ReadWords env ics x area addr n) x assert_words ci w \<and>
    assertion_safe (\<lambda>ics. Client_ReadBytes env ics x area addr n) x assert_bytes ci w \<and>
    assertion_safe (\<lambda>ics. Client_ReadBits env ics x area addr off n) x assert_bools ci w \<and>
    assertion_safe (\<lambda>ics. Inline_ReadWords (il\<lparr>il_interceptor := ics\<rparr>) x area addr n) x assert_words ii w' \<and>
    assertion_safe (\<lambda>ics. Inline_ReadBytes (il\<lparr>il_interceptor := ics\<rparr>) x area addr n) x assert_bytes ii w' \<and>
    assertion_safe (\<lambda>ics. Inline_ReadBits (il\<lparr>il_interceptor := ics\<rparr>) x area addr off n) x assert_bools ii w' \<and>
    assertion_safe (\<lambda>ics. Inline_ReadClock (il\<lparr>il_interceptor := ics\<rparr>) x) x assert_time ii w'"
  by (intro conjI client_reads_safe [OF assms(1)] inline_reads_safe [OF assms(2)])

theorem reads_keep_types_witness:
  "\<exists>s k. NewPLCSimulator transportUDP True None = Inr s \<and>
     ChainInterceptors [LoggingInterceptor, RetryInterceptor 3 0, ReadOnlyInterceptor] = Some k \<and>
     assertion_safe (\<lambda>ics. Inline_ReadWords (InlineClientOf\<lparr>il_interceptor := ics\<rparr>) Background 0x82 0 1) Background
       assert_words k (sim_world s)"
proof -
  obtain s where s: "NewPLCSimulator transportUDP True None = Inr s" using sim_world_ready by blast
  let ?l = "[LoggingInterceptor, RetryInterceptor 3 0, ReadOnlyInterceptor] :: inline_world interceptor list"
  obtain k where k: "ChainInterceptors ?l = Some k" using chain_nonempty [of ?l] by blast
  have "library k" by (rule library.chain [OF _ k]) (auto intro: library.intros)
  then show ?thesis
    using reads_keep_types [where ci = "LoggingInterceptor :: client_world interceptor" and ii = k and il = InlineClientOf
        and x = Background and area = "0x82" and addr = 0 and n = 1 and w' = "sim_world s"] s k library.intros(1)
    by blast
qed

end
