(* ===== verification/Fins_Watchdog.thy ===== *)
theory Fins_Watchdog
  imports Fins_Const
begin

text \<open>
  \<open>plugin_watchdog.go\<close>: the connection watchdog.  Times are instants on the monotonic clock, in
  nanoseconds; \<open>None\<close> is the zero \<open>time.Time\<close>.  The event channel is the list of its buffered
  events with its capacity; a receiver takes from its front.  Each hook reads the clock once or twice
  in a row; the model gives all its reads the same instant.
\<close>

datatype ConnectionEventType = ConnectionEventConnected | ConnectionEventDisconnected

record ConnectionEvent =
  ev_Time :: int
  ev_Type :: ConnectionEventType
  ev_Err :: "fins_error option"
  ev_Downtime :: int
  ev_Connected :: bool

record ConnectionStats =
  st_Connected :: bool
  st_LastConnected :: "int option"
  st_LastDisconnected :: "int option"
  st_CurrentDowntime :: int
  st_TotalDowntime :: int
  st_LastDisconnectErr :: "fins_error option"

record ConnectionWatchdog =
  eventBuf :: nat
  events :: "ConnectionEvent list"
  connected :: bool
  lastConnected :: "int option"
  lastDisconnected :: "int option"
  downtimeStart :: "int option"
  totalDowntime :: int
  lastErr :: "fins_error option"

definition NewConnectionWatchdog :: "int \<Rightarrow> ConnectionWatchdog" where
  "NewConnectionWatchdog eventBuffer =
     \<lparr>eventBuf = nat (if eventBuffer \<le> 0 then 16 else eventBuffer), events = [], connected = False,
      lastConnected = None, lastDisconnected = None, downtimeStart = None, totalDowntime = 0,
      lastErr = None\<rparr>"

text \<open>\<open>emit\<close>: the event is dropped when the buffer is full.\<close>

definition emit :: "ConnectionEvent \<Rightarrow> ConnectionWatchdog \<Rightarrow> ConnectionWatchdog" where
  "emit evt w = (if length (events w) < eventBuf w then w\<lparr>events := events w @ [evt]\<rparr> else w)"

definition OnConnected :: "int \<Rightarrow> ConnectionWatchdog \<Rightarrow> ConnectionWatchdog" where
  "OnConnected now w =
     (let downtime = (case downtimeStart w of Some t \<Rightarrow> now - t | None \<Rightarrow> 0);
          w1 = (case downtimeStart w of
                  Some t \<Rightarrow> w\<lparr>totalDowntime := totalDowntime w + downtime, downtimeStart := None\<rparr>
                | None \<Rightarrow> w);
          w2 = w1\<lparr>connected := True, lastConnected := Some now\<rparr>
      in emit \<lparr>ev_Time = now, ev_Type = ConnectionEventConnected, ev_Err = None,
               ev_Downtime = downtime, ev_Connected = True\<rparr> w2)"

definition OnDisconnected :: "int \<Rightarrow> fins_error option \<Rightarrow> ConnectionWatchdog \<Rightarrow> ConnectionWatchdog" where
  "OnDisconnected now err w =
     emit \<lparr>ev_Time = now, ev_Type = ConnectionEventDisconnected, ev_Err = err,
           ev_Downtime = 0, ev_Connected = False\<rparr>
       (w\<lparr>connected := False, lastDisconnected := Some now, downtimeStart := Some now, lastErr := err\<rparr>)"

definition Stats :: "int \<Rightarrow> ConnectionWatchdog \<Rightarrow> ConnectionStats" where
  "Stats now w =
     \<lparr>st_Connected = connected w, st_LastConnected = lastConnected w,
      st_LastDisconnected = lastDisconnected w,
      st_CurrentDowntime = (case downtimeStart w of
         Some t \<Rightarrow> if connected w then 0 else now - t | None \<Rightarrow> 0),
      st_TotalDowntime = totalDowntime w, st_LastDisconnectErr = lastErr w\<rparr>"

text \<open>A receive from \<open>Events()\<close> that does not wait.\<close>

definition take_event :: "ConnectionWatchdog \<Rightarrow> ConnectionEvent option \<times> ConnectionWatchdog" where
  "take_event w = (case events w of [] \<Rightarrow> (None, w) | e # es \<Rightarrow> (Some e, w\<lparr>events := es\<rparr>))"

section \<open>Runs\<close>

datatype wd_event = WConnected int | WDisconnected int "fins_error option" | WTake

fun wd_step :: "wd_event \<Rightarrow> ConnectionWatchdog \<Rightarrow> ConnectionWatchdog" where
  "wd_step (WConnected t) w = OnConnected t w"
| "wd_step (WDisconnected t e) w = OnDisconnected t e w"
| "wd_step WTake w = snd (take_event w)"

primrec wd_run :: "wd_event list \<Rightarrow> ConnectionWatchdog \<Rightarrow> ConnectionWatchdog" where
  "wd_run [] w = w"
| "wd_run (s # ss) w = wd_run ss (wd_step s w)"

text \<open>
  A reference account of the down time of a run: \<open>down\<close> is since when the connection has been
  down.  A disconnect that follows a disconnect does not start a new outage.
\<close>

fun outage :: "int option \<Rightarrow> wd_event list \<Rightarrow> int" where
  "outage down [] = 0"
| "outage down (WConnected t # ss) = (case down of Some t0 \<Rightarrow> t - t0 | None \<Rightarrow> 0) + outage None ss"
| "outage down (WDisconnected t e # ss) = outage (case down of Some t0 \<Rightarrow> Some t0 | None \<Rightarrow> Some t) ss"
| "outage down (WTake # ss) = outage down ss"

text \<open>Connects and disconnects that alternate, starting in the given state.\<close>

fun alternating :: "bool \<Rightarrow> wd_event list \<Rightarrow> bool" where
  "alternating up [] = True"
| "alternating up (WConnected t # ss) = alternating True ss"
| "alternating up (WDisconnected t e # ss) = (up \<and> alternating False ss)"
| "alternating up (WTake # ss) = alternating up ss"

lemma emit_fields [simp]:
  "connected (emit e w) = connected w" "lastConnected (emit e w) = lastConnected w"
  "lastDisconnected (emit e w) = lastDisconnected w" "downtimeStart (emit e w) = downtimeStart w"
  "totalDowntime (emit e w) = totalDowntime w" "lastErr (emit e w) = lastErr w"
  "eventBuf (emit e w) = eventBuf w"
  by (simp_all add: emit_def)

lemma OnConnected_fields [simp]:
  "connected (OnConnected t w)" "downtimeStart (OnConnected t w) = None"
  "totalDowntime (OnConnected t w) =
     totalDowntime w + (case downtimeStart w of Some t0 \<Rightarrow> t - t0 | None \<Rightarrow> 0)"
  "eventBuf (OnConnected t w) = eventBuf w" "lastConnected (OnConnected t w) = Some t"
  by (auto simp: OnConnected_def Let_def split: option.splits)

lemma OnDisconnected_fields [simp]:
  "\<not> connected (OnDisconnected t e w)" "downtimeStart (OnDisconnected t e w) = Some t"
  "totalDowntime (OnDisconnected t e w) = totalDowntime w" "eventBuf (OnDisconnected t e w) = eventBuf w"
  "lastErr (OnDisconnected t e w) = e"
  by (simp_all add: OnDisconnected_def)

lemma take_event_fields [simp]:
  "connected (snd (take_event w)) = connected w" "downtimeStart (snd (take_event w)) = downtimeStart w"
  "totalDowntime (snd (take_event w)) = totalDowntime w" "eventBuf (snd (take_event w)) = eventBuf w"
  by (auto simp: take_event_def split: list.splits)

text \<open>The invariant: the clock of an outage runs exactly while disconnected after a disconnect.\<close>

definition wd_inv :: "ConnectionWatchdog \<Rightarrow> bool" where
  "wd_inv w \<longleftrightarrow> length (events w) \<le> eventBuf w \<and> (connected w \<longrightarrow> downtimeStart w = None)"

lemma emit_len: "length (events w) \<le> eventBuf w \<Longrightarrow> length (events (emit e w)) \<le> eventBuf w"
  by (simp add: emit_def)

lemma wd_step_inv: "wd_inv w \<Longrightarrow> wd_inv (wd_step s w) \<and> eventBuf (wd_step s w) = eventBuf w"
proof (cases s)
  case (WConnected t)
  assume "wd_inv w"
  then have "length (events (OnConnected t w)) \<le> eventBuf w"
    by (auto simp: OnConnected_def Let_def wd_inv_def emit_def split: option.splits)
  then show ?thesis by (simp add: WConnected wd_inv_def)
next
  case (WDisconnected t e)
  assume "wd_inv w"
  then have "length (events (OnDisconnected t e w)) \<le> eventBuf w"
    by (auto simp: OnDisconnected_def wd_inv_def emit_def)
  then show ?thesis by (simp add: WDisconnected wd_inv_def)
next
  case WTake
  assume "wd_inv w"
  then show ?thesis by (auto simp: WTake wd_inv_def take_event_def split: list.splits)
qed

lemma wd_run_inv: "wd_inv w \<Longrightarrow> wd_inv (wd_run ss w) \<and> eventBuf (wd_run ss w) = eventBuf w"
proof (induction ss arbitrary: w)
  case (Cons s ss)
  then show ?case using wd_step_inv [OF Cons.prems, of s] Cons.IH [of "wd_step s w"] by simp
qed simp

lemma wd_run_outage:
  assumes "alternating (downtimeStart w = None) ss"
  shows "totalDowntime (wd_run ss w) = totalDowntime w + outage (downtimeStart w) ss"
  using assms
proof (induction ss arbitrary: w)
  case (Cons s ss)
  show ?case
  proof (cases s)
    case (WConnected t)
    with Cons.prems Cons.IH [of "OnConnected t w"] show ?thesis by simp
  next
    case (WDisconnected t e)
    with Cons.prems Cons.IH [of "OnDisconnected t e w"] show ?thesis by simp
  next
    case WTake
    with Cons.prems Cons.IH [of "snd (take_event w)"] show ?thesis by simp
  qed
qed simp

section \<open>Properties\<close>

text \<open>
  C40: the watchdog's total downtime is the time the connection was down.  For a new watchdog and any
  alternation of disconnects and connects, with receives anywhere, the total equals the sum of
  the outages that have ended.
\<close>

theorem watchdog_downtime:
  assumes "alternating True ss"
  shows "totalDowntime (wd_run ss (NewConnectionWatchdog n)) = outage None ss"
  using wd_run_outage [of "NewConnectionWatchdog n" ss] assms by (simp add: NewConnectionWatchdog_def)

theorem watchdog_downtime_witness:
  "totalDowntime (wd_run [WConnected 0, WDisconnected 10 None, WConnected 35, WTake, WDisconnected 50 None, WConnected 51]
     (NewConnectionWatchdog 4)) = 26"
  using watchdog_downtime [of "[WConnected 0, WDisconnected 10 None, WConnected 35, WTake, WDisconnected 50 None, WConnected 51]" 4]
  by simp

text \<open>
  The watchdog never blocks a hook: after any events its channel holds at most its capacity
  (the requested one, or 16 when that is not positive), because what does not fit is dropped; and
  while it reports a connection no outage is being timed.
\<close>

lemma watchdog_bounded:
  "length (events (wd_run ss (NewConnectionWatchdog n))) \<le> nat (if n \<le> 0 then 16 else n) \<and>
   (connected (wd_run ss (NewConnectionWatchdog n)) \<longrightarrow> st_CurrentDowntime (Stats t (wd_run ss (NewConnectionWatchdog n))) = 0)"
proof
  have "wd_inv (NewConnectionWatchdog n)" by (simp add: wd_inv_def NewConnectionWatchdog_def)
  then show "length (events (wd_run ss (NewConnectionWatchdog n))) \<le> nat (if n \<le> 0 then 16 else n)"
    using wd_run_inv [of "NewConnectionWatchdog n" ss] by (simp add: wd_inv_def NewConnectionWatchdog_def)
qed (simp add: Stats_def split: option.splits)

lemma watchdog_bounded_example:
  "length (events (wd_run [WConnected 1, WConnected 2, WConnected 3] (NewConnectionWatchdog 2))) \<le> 2 \<and>
   st_CurrentDowntime (Stats 9 (wd_run [WDisconnected 0 None, WConnected 5] (NewConnectionWatchdog 2))) = 0"
  using watchdog_bounded [of "[WConnected 1, WConnected 2, WConnected 3]" 2 9]
    watchdog_bounded [of "[WDisconnected 0 None, WConnected 5]" 2 9]
  by simp

end
