(* ===== verification/Spec2Isabelle.thy ===== *)
theory Spec2Isabelle
  imports Fins_Alone Fins_Prompt Fins_Observe Fins_Iface Fins_Program Fins_Dispatch Fins_Wait Fins_Listen Fins_Race_Reconnect Fins_Local
    Fins_Types Fins_Watchdog Fins_Bcd
begin

text \<open>
  \<^bold>\<open>gofins: an Omron FINS client and PLC simulator in Go.\<close>

  The library lets a program read and write the memory of a PLC over FINS/UDP or FINS/TCP.  A call
  of \<open>Client.ReadWords\<close> (\<open>client.go\<close>) runs through the interceptors that are set, waits for the
  connection, takes a service id, encodes a command (\<open>driver.go\<close>), sends it (\<open>transport.go\<close>) and
  waits on the response channel of its service id, which the goroutine \<open>listenLoop\<close> feeds.  The
  simulator (\<open>server.go\<close>) decodes the command, works on its memory areas and encodes a response.
  \<open>InlineClient\<close> works on the same memory without a transport.  Plugins hook into the connection
  (\<open>plugin*.go\<close>): a watchdog, and a coalescer that merges adjacent word reads.

  \<^bold>\<open>Theories.\<close>  Each models the named files under \<open>src/\<close>, and its definitions have the names of the code.

  \<^item> \<open>Go_Prelude\<close>, \<open>Go_Codec\<close>: what the code uses of Go.  A slice has its elements and its spare
    capacity, and an operation on it that panics is \<open>None\<close>; \<open>int\<close> arithmetic that can overflow is
    wrapped with \<open>wrap64\<close>; \<open>uint16\<close> and the other unsigned types are words.  \<open>byteOrder\<close> is the
    interface \<open>binary.ByteOrder\<close>, a locale for its laws, interpreted for both orders.
  \<^item> \<open>Fins_Const\<close>: \<open>memory_area.go\<close>, \<open>command_code.go\<close>, \<open>end_code.go\<close>, \<open>error.go\<close>.
  \<^item> \<open>Fins_Driver\<close>, \<open>Fins_Bcd\<close>: \<open>header.go\<close> and \<open>driver.go\<close>.
  \<^item> \<open>Fins_Address\<close>: \<open>address.go\<close>, with \<open>net.ParseIP\<close> as a parameter.
  \<^item> \<open>Fins_Transport\<close>: frames, \<open>Recv\<close> and the handshake of \<open>transport.go\<close>.
  \<^item> \<open>Fins_Server\<close>: \<open>server.go\<close>.  The loops consume lists of events (a datagram, the clock at the
    time, the outcome of the write) or the bytes of a connection.
  \<^item> \<open>Fins_Spec\<close>: the specification of a PLC, two memories of bytes per area, and the simulator as a
    view of it.  \<open>Fins_Memory\<close>, \<open>Fins_Handler\<close>: the simulator's lemmas and properties.
  \<^item> \<open>Fins_Access\<close>, \<open>Fins_Conns\<close>: the TCP simulator as its goroutines.  A memory operation is split at
    \<open>memMu\<close>; each connection, each call of an inline client, the accept loop, \<open>Close\<close> and the
    receiver of \<open>Err()\<close> take their next step in any order, and under the lock bytes are copied one by
    one.  \<open>Fins_Serial\<close>: logs of whole requests that explain what was observed; \<open>Fins_Simulator\<close>: the
    properties of all runs; \<open>Fins_Alone\<close>: one connection without the others is \<open>handleTCPConn\<close> of
    \<open>Fins_Server\<close>.
  \<^item> \<open>Fins_Api\<close>: what both clients share and the locale \<open>fins_client\<close>, the contract of a client: it
    returns what the memory of the specification holds and stores what it is given.
  \<^item> \<open>Fins_Inline\<close>: \<open>inline_client.go\<close>; it interprets \<open>fins_client\<close>.
  \<^item> \<open>Fins_Client\<close>, \<open>Fins_Client_Ops\<close>: \<open>client.go\<close>.  What the scheduler and the network do is a
    record \<open>environ\<close>: which case of a \<open>select\<close> is taken, after what changes by other goroutines.
  \<^item> \<open>Fins_Link\<close>: the locale \<open>link\<close>, a client on a link whose server answers, with \<open>fins_client\<close> as
    a sublocale.  \<open>Fins_Loopback\<close>: the UDP and the TCP transport joined to the simulator; both
    interpret \<open>link\<close> for both byte orders.
  \<^item> \<open>Fins_Dispatch\<close>: calls and responses interleaved.  \<open>Fins_Wait\<close>: the channel that signals the
    connection.  \<open>Fins_Reconnect\<close>: reconnecting, the error branch of \<open>listenLoop\<close>, closing;
    \<open>Fins_Listen\<close>: the whole loop.  \<open>Fins_Race\<close>: all goroutines of one client over the fields they
    share, as program counters that take their next access in any order;
    \<open>Fins_Race_Reconnect\<close> joins it with \<open>Fins_Reconnect\<close>.  \<open>Fins_Local\<close>: the local
    addresses that dials bind to.
  \<^item> \<open>Fins_Iface\<close>: \<open>client_interface.go\<close> as a record of operations, with the network client, the
    inline client and \<open>nop_client.go\<close> as its values, and programs over it.
  \<^item> \<open>Fins_Interceptor\<close>, \<open>Fins_Metrics\<close>, \<open>Fins_Retry\<close>, \<open>Fins_Validation\<close>: the files
    \<open>interceptor*.go\<close>.  Interceptors are functions on a world with a clock, log lines and collectors.
    \<open>Fins_Types\<close>: the Go types of their results, and \<open>Fins_Observe\<close>: which of them only watch; two
    contracts that the interceptors of the library interpret.
  \<^item> \<open>Fins_Cli\<close>, \<open>Fins_Session\<close>: \<open>examples/client/main.go\<close>, its commands, its set-up and its loops.
    \<open>Fins_Prompt\<close>: sessions typed at its prompt against a simulator over UDP.
    \<open>Fins_Program\<close>: \<open>examples/server/main.go\<close>, a service started and stopped.
  \<^item> \<open>Fins_Plugin\<close>, \<open>Fins_Watchdog\<close>, \<open>Fins_Coalescer\<close>: the files \<open>plugin*.go\<close>.

  \<^bold>\<open>What the lemmas show.\<close>
  The codec round-trips, with the exact condition where it does not (headers), and panics exactly on
  short input. The simulator keeps its areas, answers errors without a change and behaves as the
  specification's memory as long as \<open>uint16\<close> sums do not wrap; where a sum wraps to an
  end below its start and inside the area it panics. With any number of connections and inline calls
  at once, every run of the TCP simulator is explained by some order of whole requests, and it
  panics only where the simulator alone would, or on the closed error channel: a connection that
  ends reports there, blocks when nobody receives, and is woken into a panic once the accept loop
  has closed the channel. Both clients refine the specification for any sequence of writes that fit;
  over TCP the others are refused without an effect, unless they wrap. Responses are not mixed up
  among 255 successive calls. Reconnection is bounded and has the documented delays, but does not
  wake an operation that began while the client was disconnected. The flag
  \<open>reconnecting\<close> is a lock, and without late responses the listen loop keeps its
  transport; but a connection lost at the wrong moment, with no operation in flight, leaves the
  client disconnected for good, one late response can start reconnections without end, and three
  goroutines can meet the nil transport. A program of calls that fit cannot tell the three clients
  of a simulator apart, and what a user types at the prompt of the example client prints what the
  specification's memory holds. Over a memory with word addresses the coalescer answers each request
  once and right. Interceptors count, retry and check as documented, and watching ones can be put in
  and taken out of a chain without a difference. The root theory puts the read-only interceptor
  around both clients: the inline client cannot change the simulator then, while the network client
  still toggles bits; and it puts the coalescer on the simulator, whose word addresses are byte
  offsets: merged reads answer from the wrong place there.

  \<^bold>\<open>Bounds and fuel.\<close>
  \<open>reconnect\<close> takes fuel, because with a limit of 0 it may run for ever; any fuel above a positive
  limit is enough (\<open>reconnect_terminates\<close>).  Over UDP a request or reply carries 1006 bytes of data,
  because the simulator reads into 1024 bytes; over TCP the bound is the size of an area.  The
  \<open>-exec\<close> with an interval repeats for ever, so \<open>exec_loop\<close> has fuel too.  The
  remaining loops recurse on their input or on a measure.

  \<^bold>\<open>Not modelled.\<close>
  Sockets, opening and closing them, deadlines and goroutine scheduling are parameters, event lists
  or free choices of the next step. A context is never nil: what \<open>InlineClient\<close> does
  without one (it skips the test for an expired context) is left out. \<open>Fins_Race\<close> has
  no plugins and no error channels. The UDP loop of the simulator is one goroutine and is modelled
  alone: inline calls are interleaved with TCP connections only. The generated mocks,
  \<open>interceptor_examples.go\<close> (excluded from every build), \<open>doc.go\<close>, and of
  the example programs the declaration of flags, the help text, the log lines and the service
  library have no model.
\<close>

section \<open>Interceptors around the clients\<close>

lemmas read_only_defs = ReadOnlyInterceptor_def guarded_def read_only_verdict_def is_write_def Invoke_def

lemma read_only_reads: "Client_ReadBits env (Some ReadOnlyInterceptor) x a ad off n w = Client_ReadBits env None x a ad off n w"
  by (simp add: Client_ReadBits_def invoke_with_def read_only_defs)

lemma inline_read_keeps:
  assumes "il_interceptor ic = None" "Inline_ReadBits ic x a ad off n w = Some (v, w1)"
  shows "w1 = w"
  using assms(2)
  by (simp add: Inline_ReadBits_def Inline_invoke_def invoke_with_def assms(1) inline_guard_def
      split: option.splits if_splits Option.bind_splits prod.splits)

lemma inline_read_only_reads:
  assumes "il_interceptor ic = Some ReadOnlyInterceptor"
  shows "Inline_ReadBits ic x a ad off n w = Inline_ReadBits (ic\<lparr>il_interceptor := None\<rparr>) x a ad off n w"
  using assms by (simp add: Inline_ReadBits_def Inline_invoke_def invoke_with_def read_only_defs)

lemma inline_read_only_twiddle:
  assumes "il_interceptor ic = Some ReadOnlyInterceptor" "is_write o'"
  shows "\<exists>e. Inline_bitTwiddle ic x o' a ad off v w = Some (Some e, w)"
  using assms by (simp add: Inline_bitTwiddle_def Inline_invoke_def invoke_with_def read_only_defs)

lemma inline_read_only_toggle:
  assumes "il_interceptor ic = Some ReadOnlyInterceptor" "Inline_ToggleBit ic x a ad off w = Some (r, w')"
  shows "r \<noteq> None \<and> w' = w"
proof -
  obtain v w1 where read: "Inline_ReadBits ic x a ad off 1 w = Some (v, w1)"
    using assms(2) by (auto simp: Inline_ToggleBit_def split: Option.bind_splits)
  then have w1: "w1 = w"
    using inline_read_keeps [of "ic\<lparr>il_interceptor := None\<rparr>" x a ad off 1 w v w1] inline_read_only_reads [OF assms(1)] by simp
  have twiddle: "\<exists>e. Inline_bitTwiddle ic x OpToggleBit a ad off u w = Some (Some e, w)" for u
    by (rule inline_read_only_twiddle [OF assms(1)]) (simp add: is_write_def)
  show ?thesis
  proof (cases v)
    case (Inl e)
    then show ?thesis using assms(2) read w1 by (auto simp: Inline_ToggleBit_def)
  next
    case (Inr bs)
    then show ?thesis
      using assms(2) read w1 twiddle [of "if hd bs then 0 else 1"] by (cases bs) (auto simp: Inline_ToggleBit_def)
  qed
qed

text \<open>A toggle panics only where its read does: a read of one bit that succeeds has that bit.\<close>

lemma inline_read_bit:
  assumes "il_interceptor ic = None" "Inline_ReadBits ic x a ad off 1 w = Some (Inr bs, w')"
  shows "bs \<noteq> []"
  using assms(2)
  by (auto simp: Inline_ReadBits_def Inline_invoke_def invoke_with_def assms(1) inline_guard_def inline_bools_def
      end_code_result_def assert_bools_def split: option.splits if_splits Option.bind_splits prod.splits)

lemma inline_read_only_toggle_panics:
  assumes "il_interceptor ic = Some ReadOnlyInterceptor"
  shows "Inline_ToggleBit ic x a ad off w = None \<longleftrightarrow> Inline_ReadBits ic x a ad off 1 w = None"
proof (cases "Inline_ReadBits ic x a ad off 1 w")
  case (Some p)
  obtain v w1 where p: "p = (v, w1)" by (cases p)
  have twiddle: "Inline_bitTwiddle ic x OpToggleBit a ad off u w1 \<noteq> None" for u
    using inline_read_only_twiddle [OF assms, of OpToggleBit x a ad off u w1] by (auto simp: is_write_def)
  have "v \<noteq> Inr []"
    using Some inline_read_bit [of "ic\<lparr>il_interceptor := None\<rparr>" x a ad off w _ w1] inline_read_only_reads [OF assms]
    by (auto simp: p)
  then show ?thesis using Some p twiddle by (auto simp: Inline_ToggleBit_def split: sum.splits list.splits)
qed (simp add: Inline_ToggleBit_def)

text \<open>
  C21: an inline client in read-only mode cannot change anything.  With the read-only interceptor set,
  every write of words, bits, bytes or a string and every set and reset of a bit returns an error and
  leaves the world as it is, whatever the simulator's state.  A toggle reads first: it panics exactly if
  that read of one bit does (for instance because its address wraps), and otherwise returns an error and changes nothing.
\<close>

theorem read_only_inline:
  assumes "il_interceptor ic = Some ReadOnlyInterceptor"
  shows "(\<exists>e. run_write (Inline_WriteWords ic x) (Inline_WriteBits ic x) op w = Some (Some e, w)) \<and>
    (\<exists>e. Inline_WriteBytes ic x a ad b w = Some (Some e, w)) \<and>
    (\<exists>e. Inline_WriteString ic x a ad str w = Some (Some e, w)) \<and>
    (\<exists>e. Inline_SetBit ic x a ad off w = Some (Some e, w)) \<and>
    (\<exists>e. Inline_ResetBit ic x a ad off w = Some (Some e, w)) \<and>
    (case Inline_ToggleBit ic x a ad off w of
       None \<Rightarrow> Inline_ReadBits (ic\<lparr>il_interceptor := None\<rparr>) x a ad off 1 w = None
     | Some (r, w') \<Rightarrow> r \<noteq> None \<and> w' = w \<and> Inline_ReadBits (ic\<lparr>il_interceptor := None\<rparr>) x a ad off 1 w \<noteq> None)"
proof (intro conjI)
  show "\<exists>e. run_write (Inline_WriteWords ic x) (Inline_WriteBits ic x) op w = Some (Some e, w)"
    using assms by (cases op) (simp_all add: inline_ops read_only_defs)
  show "\<exists>e. Inline_WriteBytes ic x a ad b w = Some (Some e, w)" "\<exists>e. Inline_WriteString ic x a ad str w = Some (Some e, w)"
    using assms by (simp_all add: inline_ops read_only_defs)
  show "\<exists>e. Inline_SetBit ic x a ad off w = Some (Some e, w)" "\<exists>e. Inline_ResetBit ic x a ad off w = Some (Some e, w)"
    unfolding Inline_SetBit_def Inline_ResetBit_def
    using inline_read_only_twiddle [OF assms, of OpSetBit x a ad off 1 w] inline_read_only_twiddle [OF assms, of OpResetBit x a ad off 0 w]
    by (simp_all add: is_write_def)
  show "case Inline_ToggleBit ic x a ad off w of
       None \<Rightarrow> Inline_ReadBits (ic\<lparr>il_interceptor := None\<rparr>) x a ad off 1 w = None
     | Some (r, w') \<Rightarrow> r \<noteq> None \<and> w' = w \<and> Inline_ReadBits (ic\<lparr>il_interceptor := None\<rparr>) x a ad off 1 w \<noteq> None"
    using inline_read_only_toggle [OF assms, of x a ad off w] inline_read_only_toggle_panics [OF assms, of x a ad off w]
      inline_read_only_reads [OF assms, of x a ad off 1 w]
    by (auto split: option.splits)
qed

theorem read_only_inline_witness:
  "\<forall>w :: inline_world. \<exists>e. Inline_SetBit (Inline_SetInterceptor (Some ReadOnlyInterceptor) InlineClientOf) Background 2 7 0 w = Some (Some e, w)"
proof -
  let ?ic = "Inline_SetInterceptor (Some ReadOnlyInterceptor) InlineClientOf :: inline_world InlineClient"
  have "il_interceptor ?ic = Some ReadOnlyInterceptor" by (simp add: Inline_SetInterceptor_def)
  then show ?thesis using read_only_inline [of ?ic Background] by blast
qed

text \<open>
  C22: on the network client the read-only interceptor does not cover single bits.  On a connected
  client that has it, \<open>WriteBits\<close> is refused, but \<open>ToggleBit\<close> reads through the interceptor and
  then writes past it, and the bit in the simulator changes.
\<close>

theorem read_only_client_toggles:
  assumes "client_ready BigEndian w" "checkIsBitMemoryArea a" "unat ad + unat off < DM_AREA_SIZE"
  shows "(\<exists>e. Client_WriteBits udp_env (Some ReadOnlyInterceptor) Background a ad off bs w = Some (Some e, w)) \<and>
    (\<exists>w'. Client_ToggleBit udp_env (Some ReadOnlyInterceptor) Background a ad off w = Some (None, w') \<and>
      byte_bool (bmem (server_view (n_srv w')) a (unat ad + unat off)) =
        (\<not> byte_bool (bmem (server_view (n_srv w)) a (unat ad + unat off))))"
proof
  show "\<exists>e. Client_WriteBits udp_env (Some ReadOnlyInterceptor) Background a ad off bs w = Some (Some e, w)"
    by (simp add: Client_WriteBits_def invoke_with_def read_only_defs)
  have same: "Client_ToggleBit udp_env (Some ReadOnlyInterceptor) Background a ad off w =
      Client_ToggleBit udp_env None Background a ad off w"
    by (simp add: Client_ToggleBit_def read_only_reads)
  obtain w' where "Client_ToggleBit udp_env None Background a ad off w = Some (None, w')"
    "server_view (n_srv w') = store_bit_bytes a (unat ad + unat off)
       [if byte_bool (bmem (server_view (n_srv w)) a (unat ad + unat off)) then 0 else 1] (server_view (n_srv w))"
    using udp_toggle [OF assms] by blast
  moreover from this(2) have "byte_bool (bmem (server_view (n_srv w')) a (unat ad + unat off)) =
        (\<not> byte_bool (bmem (server_view (n_srv w)) a (unat ad + unat off)))"
    by (simp add: store_bit_bytes_def store_def byte_bool_def)
  ultimately show "\<exists>w'. Client_ToggleBit udp_env (Some ReadOnlyInterceptor) Background a ad off w = Some (None, w') \<and>
      byte_bool (bmem (server_view (n_srv w')) a (unat ad + unat off)) =
        (\<not> byte_bool (bmem (server_view (n_srv w)) a (unat ad + unat off)))"
    unfolding same by blast
qed

theorem read_only_client_toggles_witness:
  "\<exists>(w :: net_world) w'. Client_ToggleBit udp_env (Some ReadOnlyInterceptor) Background MemoryAreaDMBit 7 0 w = Some (None, w') \<and>
     server_view (n_srv w') \<noteq> server_view (n_srv w)"
proof -
  obtain s where "NewPLCSimulator transportUDP True None = Inr s" by (rule new_simulator)
  then have "client_ready BigEndian (net_of transportUDP BigEndian noon s)" by (rule net_of_ready)
  from read_only_client_toggles [OF this, of MemoryAreaDMBit 7 0]
  obtain w' where "Client_ToggleBit udp_env (Some ReadOnlyInterceptor) Background MemoryAreaDMBit 7 0
      (net_of transportUDP BigEndian noon s) = Some (None, w')"
    "byte_bool (bmem (server_view (n_srv w')) MemoryAreaDMBit 7) =
      (\<not> byte_bool (bmem (server_view (n_srv (net_of transportUDP BigEndian noon s))) MemoryAreaDMBit 7))"
    by (auto simp: checkIsBitMemoryArea_def)
  then show ?thesis by metis
qed

section \<open>The coalescer on the simulator\<close>

lemma ReadWords_raw: "Client_ReadWords env None x a ad n w = readWordsRaw env x a ad n w"
  by (cases "readWordsRaw env x a ad n w")
    (auto simp: Client_ReadWords_def invoke_with_def assert_words_def split: sum.splits)

lemma words_from_slice:
  "k + j \<le> n \<Longrightarrow> take j (drop k (words_from bo m ad n)) = words_from bo m (ad + 2 * k) j"
  by (rule nth_equalityI) (auto simp: words_from_def algebra_simps)

definition bulk :: "nat \<Rightarrow> u8 \<Rightarrow> u16 \<Rightarrow> u16 \<Rightarrow> bulkReadRequest" where
  "bulk i a ad n = request_of i Background (word_read a ad n)"

lemma bulk_simps [simp]:
  "br_id (bulk i a ad n) = i" "br_area (bulk i a ad n) = a" "br_address (bulk i a ad n) = ad"
  "br_count (bulk i a ad n) = n" "br_ctx (bulk i a ad n) = Background"
  by (simp_all add: bulk_def request_of_def word_read_def)

lemma flush_two:
  assumes "rd Background a ad (n1 + n2) w = Some (Inr ws, w1)" "length ws = unat n1 + unat n2"
    and "unat n1 + unat n2 < 65536"
  shows "flushBatch rd now [bulk i a ad n1, bulk j a (ad + n1) n2] ad (ad + n1 + n2) w =
    Some ([(i, Inr (take (unat n1) ws)), (j, Inr (take (unat n2) (drop (unat n1) ws)))], w1)"
proof -
  have x: "Background\<lparr>deadline := None\<rparr> = Background" by (simp add: Background_def)
  have live: "\<not> cancelled now (bulk k a c n)" for k c n by (simp add: cancelled_def)
  have d: "earliestDeadline [bulk i a ad n1, bulk j a (ad + n1) n2] = None"
    by (simp add: earliestDeadline_def) (simp add: Background_def)
  show ?thesis
    using assms by (simp add: flushBatch_def live d x reply_of_def add.assoc Let_def)
qed

text \<open>
  C12: on the simulator the coalescer answers a request from the wrong place.  It takes words to be at
  consecutive addresses, but the simulator's word \<open>k\<close> of a read is two bytes times \<open>k\<close> after the
  address: of two adjacent requests in one batch, the second gets the words at its distance
  doubled, not those that a read of its own returns.
\<close>

theorem coalescer_misreads_simulator:
  fixes w :: "'a net_world_scheme"
  defines "m \<equiv> wmem (server_view (n_srv w))"
  assumes "client_ready BigEndian w" "checkIsWordMemoryArea a" "fits 1006 (unat ad) (2 * (unat n1 + unat n2))"
  shows "(\<exists>w1. flushBatch (readWordsRaw udp_env) now [bulk 1 a ad n1, bulk 2 a (ad + n1) n2] ad (ad + n1 + n2) w =
      Some ([(1, Inr (words_from BigEndian (m a) (unat ad) (unat n1))),
             (2, Inr (words_from BigEndian (m a) (unat ad + 2 * unat n1) (unat n2)))], w1)) \<and>
    (\<exists>w2. Client_ReadWords udp_env None Background a (ad + n1) n2 w =
      Some (Inr (words_from BigEndian (m a) (unat ad + unat n1) (unat n2)), w2))"
proof -
  have sum: "unat (n1 + n2) = unat n1 + unat n2" "unat (ad + n1) = unat ad + unat n1"
    using assms(4) by (simp_all add: fits_def unat_add_nowrap)
  have fit: "fits 1006 (unat ad) (2 * unat (n1 + n2))" "fits 1006 (unat (ad + n1)) (2 * unat n2)"
    using assms(4) by (simp_all add: fits_def sum)
  obtain w1 where "Client_ReadWords udp_env None Background a ad (n1 + n2) w =
      Some (Inr (words_from BigEndian (m a) (unat ad) (unat n1 + unat n2)), w1)"
    using udp_be.read_words_link [OF assms(2,3) fit(1)] by (auto simp: udp_be.view_def m_def sum)
  then have "readWordsRaw udp_env Background a ad (n1 + n2) w =
      Some (Inr (words_from BigEndian (m a) (unat ad) (unat n1 + unat n2)), w1)" by (simp add: ReadWords_raw)
  from flush_two [where rd = "readWordsRaw udp_env", OF this]
  have "flushBatch (readWordsRaw udp_env) now [bulk 1 a ad n1, bulk 2 a (ad + n1) n2] ad (ad + n1 + n2) w =
      Some ([(1, Inr (words_from BigEndian (m a) (unat ad) (unat n1))),
             (2, Inr (words_from BigEndian (m a) (unat ad + 2 * unat n1) (unat n2)))], w1)"
    using assms(4) words_from_slice [of 0 "unat n1" "unat n1 + unat n2" BigEndian "m a" "unat ad"]
      words_from_slice [of "unat n1" "unat n2" "unat n1 + unat n2" BigEndian "m a" "unat ad"]
    by (simp add: fits_def)
  moreover have "\<exists>w2. Client_ReadWords udp_env None Background a (ad + n1) n2 w =
      Some (Inr (words_from BigEndian (m a) (unat ad + unat n1) (unat n2)), w2)"
    using udp_be.read_words_link [OF assms(2,3) fit(2)] by (auto simp: udp_be.view_def m_def sum)
  ultimately show ?thesis by blast
qed

theorem coalescer_misreads_simulator_witness:
  "\<exists>(w :: net_world) w0 w1 w2 ws ws'.
     Client_WriteWords udp_env None Background MemoryAreaDMWord 11 [5] w0 = Some (None, w) \<and>
     flushBatch (readWordsRaw udp_env) 0 [bulk 1 MemoryAreaDMWord 10 1, bulk 2 MemoryAreaDMWord 11 1] 10 12 w =
       Some ([(1, Inr ws'), (2, Inr ws)], w1) \<and>
     Client_ReadWords udp_env None Background MemoryAreaDMWord 11 1 w = Some (Inr [5], w2) \<and> ws \<noteq> [5]"
proof -
  obtain s where s: "NewPLCSimulator transportUDP True None = Inr s" by (rule new_simulator)
  let ?w0 = "net_of transportUDP BigEndian noon s"
  have r: "client_ready BigEndian ?w0" using s by (rule net_of_ready)
  have dm: "checkIsWordMemoryArea MemoryAreaDMWord" by (simp add: checkIsWordMemoryArea_def)
  obtain w where w: "Client_WriteWords udp_env None Background MemoryAreaDMWord 11 [5] ?w0 = Some (None, w)"
    "client_ready BigEndian w" "server_view (n_srv w) =
      store_word_bytes MemoryAreaDMWord 11 (order_words BigEndian [5]) (server_view s)"
    using udp_be.write_words_link [OF r dm, of 11 "[5]"] by (auto simp: fits_def udp_be.view_def net_of_def)
  let ?m = "wmem (server_view (n_srv w)) MemoryAreaDMWord"
  have area: "wordAreas s MemoryAreaDMWord = Some newArea"
    using s by (auto simp: NewPLCSimulator_def Let_def)
  have view: "wmem (server_view s) = area_view (wordAreas s)" by (simp add: server_view_def)
  have mem: "?m = store (area_view (wordAreas s) MemoryAreaDMWord) 11 [0, 5]"
    unfolding w(3) store_word_bytes_def by (simp add: view order_words_def BigEndian_def be_put16_def)
  have "words_from BigEndian ?m 11 1 = [5]"
    by (simp add: mem words_from_def store_def BigEndian_def be_get16_def)
  moreover have "words_from BigEndian ?m 12 1 \<noteq> [5]"
    by (simp add: mem words_from_def store_def BigEndian_def be_get16_def area area_view_def newArea_def)
  ultimately show ?thesis
    using coalescer_misreads_simulator [OF w(2) dm, of 10 1 1 0] w(1) by (fastforce simp: fits_def)
qed

end
